(* ===== verification/Prelude.thy ===== *)
theory Prelude
  imports Main "HOL-Library.Monad_Syntax" "HOL-Library.While_Combinator"
begin

text \<open>
  Shared material of the development: the names of the C types that the model keeps, the errno
  values the library returns, the truncation of a value to a C integer width, and generic facts
  on lists and sums that the component theories use.

  A C computation that may dereference a null pointer or loop for ever has type
  \<open>'a option\<close>: \<^const>\<open>None\<close> is the run with no defined result. Every other
  outcome, the error codes included, is a value.
\<close>

unbundle bit_operations_syntax

named_theorems shm_simps \<open>unfolding rules for the small accessors of the model\<close>
named_theorems frame_simps \<open>fields that an operation leaves unchanged\<close>

type_synonym bytes = string
type_synonym entry_loc = "int \<times> int"

section \<open>Integer widths and errno values\<close>

text \<open>The conversion to \<^verbatim>\<open>int\<close>, \<^verbatim>\<open>short\<close> and \<^verbatim>\<open>int64_t\<close> wraps, as it does on the supported compilers.\<close>

definition int32 :: "int \<Rightarrow> int" where
  "int32 x = signed_take_bit 31 x"

definition int16 :: "int \<Rightarrow> int" where
  "int16 x = signed_take_bit 15 x"

definition int64 :: "int \<Rightarrow> int" where
  "int64 x = signed_take_bit 63 x"

text \<open>Evaluation uses arithmetic, not single bits.\<close>

lemma signed_take_bit_mod: "signed_take_bit n (k :: int) = (k + 2 ^ n) mod 2 ^ Suc n - 2 ^ n"
  by (simp add: signed_take_bit_eq_take_bit_shift take_bit_eq_mod)

lemma int_code [code]:
  "int32 x = (x + 2147483648) mod 4294967296 - 2147483648"
  "int16 x = (x + 32768) mod 65536 - 32768"
  "int64 x = (x + 9223372036854775808) mod 18446744073709551616 - 9223372036854775808"
  by (simp_all add: int32_def int16_def int64_def signed_take_bit_mod)

text \<open>The integer division of C rounds towards zero.\<close>

definition cdiv :: "int \<Rightarrow> int \<Rightarrow> int" where
  "cdiv a b = sgn a * sgn b * (\<bar>a\<bar> div \<bar>b\<bar>)"

lemma cdiv_nonneg [simp]: "0 \<le> a \<Longrightarrow> 0 < b \<Longrightarrow> cdiv a b = a div b"
  by (cases "a = 0") (simp_all add: cdiv_def)

abbreviation (input) ENOENT :: int where "ENOENT \<equiv> 2"
abbreviation (input) ESRCH :: int where "ESRCH \<equiv> 3"
abbreviation (input) EPERM :: int where "EPERM \<equiv> 1"
abbreviation (input) ENOMEM :: int where "ENOMEM \<equiv> 12"
abbreviation (input) EACCES :: int where "EACCES \<equiv> 13"
abbreviation (input) EFAULT :: int where "EFAULT \<equiv> 14"
abbreviation (input) EBUSY :: int where "EBUSY \<equiv> 16"
abbreviation (input) EEXIST :: int where "EEXIST \<equiv> 17"
abbreviation (input) EINVAL :: int where "EINVAL \<equiv> 22"
abbreviation (input) ENOSPC :: int where "ENOSPC \<equiv> 28"
abbreviation (input) ENAMETOOLONG :: int where "ENAMETOOLONG \<equiv> 36"
abbreviation (input) ETIMEDOUT :: int where "ETIMEDOUT \<equiv> 110"

lemma int16_id [simp]: "- 32768 \<le> x \<Longrightarrow> x < 32768 \<Longrightarrow> int16 x = x"
  by (simp add: int16_def signed_take_bit_int_eq_self)

lemma int32_id [simp]: "- 2147483648 \<le> x \<Longrightarrow> x < 2147483648 \<Longrightarrow> int32 x = x"
  by (simp add: int32_def signed_take_bit_int_eq_self)

section \<open>Lists\<close>

lemma sum_list_remove1_split:
  "(\<Sum>y\<leftarrow>as @ x # bs. f y) = f x + (\<Sum>y\<leftarrow>as @ bs. (f y :: int))"
  by simp

lemma sum_list_nonneg_int: "(\<And>x. x \<in> set xs \<Longrightarrow> 0 \<le> f x) \<Longrightarrow> 0 \<le> (\<Sum>x\<leftarrow>xs. (f x :: int))"
  by (rule sum_list_nonneg) auto

end
