(* ===== verification/Environment.thy ===== *)
theory Environment
  imports Prelude
begin

text \<open>
  The code outside the repository that the library calls: the operating system, the clock of
  libfastcommon and the C allocator. A call is a request; the answer (a return value and the
  errno it leaves) may depend on every earlier request, so \<open>env_sys\<close> takes the history. The
  record keeps the history itself, which also makes the order of the calls observable.
\<close>

datatype sysreq =
    Sys_time
  | Sys_get_current_time
  | Sys_get_current_time_us
  | Sys_getpagesize
  | Sys_getpid
  | Sys_malloc int
  | Sys_usleep int
  | Sys_access string
  | Sys_writeToFile string
  | Sys_chmod string
  | Sys_fc_ftok string int
  | Sys_open string bool
  | Sys_open_lock string
  | Sys_fstat_size int
  | Sys_ftruncate int int
  | Sys_mmap int int
  | Sys_munmap int int
  | Sys_unlink string
  | Sys_shmget int int bool
  | Sys_shmat int
  | Sys_shmdt int
  | Sys_shmctl_rmid int
  | Sys_close int
  | Sys_file_write_lock int
  | Sys_kill int
  | Sys_pthread_mutexattr_init
  | Sys_pthread_mutexattr_setpshared
  | Sys_pthread_mutexattr_settype
  | Sys_pthread_mutex_init
  | Sys_pthread_mutex_trylock
  | Sys_pthread_mutex_unlock

record env =
  env_sys :: "sysreq list \<Rightarrow> sysreq \<Rightarrow> int \<times> int"
  env_history :: "sysreq list"

definition syscall :: "sysreq \<Rightarrow> env \<Rightarrow> (int \<times> int) \<times> env" where
  "syscall r e = (env_sys e (env_history e) r, e\<lparr>env_history := env_history e @ [r]\<rparr>)"

text \<open>A call whose errno is not looked at.\<close>

definition sysval :: "sysreq \<Rightarrow> env \<Rightarrow> int \<times> env" where
  "sysval r e = (fst (fst (syscall r e)), snd (syscall r e))"

lemma env_sys_syscall [simp]: "env_sys (snd (syscall r e)) = env_sys e"
  by (simp add: syscall_def)

lemma env_sys_sysval [simp]: "env_sys (snd (sysval r e)) = env_sys e"
  by (simp add: sysval_def)

lemma env_history_syscall [simp]: "env_history (snd (syscall r e)) = env_history e @ [r]"
  by (simp add: syscall_def)

text \<open>The errno reported after a failed call: \<^verbatim>\<open>errno != 0 ? errno : def\<close>.\<close>

definition errno_or :: "int \<Rightarrow> int \<Rightarrow> int" where
  "errno_or err def = (if err \<noteq> 0 then err else def)"

lemma errno_or_nonzero: "def \<noteq> 0 \<Longrightarrow> errno_or err def \<noteq> 0"
  by (simp add: errno_or_def)

end
