(* ===== verification/ObjectPool.thy ===== *)
theory ObjectPool
  imports Prelude
begin

text \<open>
  \<^verbatim>\<open>src/src/shm_object_pool.h\<close> and \<^verbatim>\<open>shm_object_pool.c\<close>: the bounded ring queue of object offsets
  that holds the striping allocators. A queue of capacity \<open>n\<close> holds at most \<open>n - 1\<close>
  offsets, between \<^verbatim>\<open>head\<close> (for pop) and \<^verbatim>\<open>tail\<close> (for push); \<^verbatim>\<open>index\<close> is the cursor of the
  iteration, \<open>-1\<close> when there is none.

  The theory gives the operations, the abstraction \<open>pool_list\<close> of a queue to the list of its
  offsets, and one refinement lemma per operation. The queue contract is the locale
  \<open>bounded_fifo\<close>, interpreted on these operations at the end.
\<close>

section \<open>The ring queue\<close>

text \<open>
  The context structure with the \<^verbatim>\<open>shm_object_pool_info\<close> and the offset array it points to.
\<close>

record object_pool =
  op_base_offset :: int
  op_element_size :: int
  op_capacity :: nat
  op_head :: nat
  op_tail :: nat
  op_offsets :: "int list"
  op_index :: int

definition shm_object_pool_get_queue_memory_size :: "int \<Rightarrow> int" where
  "shm_object_pool_get_queue_memory_size max_count = 8 * max_count"

definition shm_object_pool_get_object_memory_size :: "int \<Rightarrow> int \<Rightarrow> int" where
  "shm_object_pool_get_object_memory_size element_size max_count = element_size * max_count"

definition shm_object_pool_set :: "object_pool \<Rightarrow> object_pool" where
  "shm_object_pool_set op = op\<lparr>op_index := - 1\<rparr>"

function init_full_loop :: "nat \<Rightarrow> nat \<Rightarrow> int \<Rightarrow> int \<Rightarrow> int list \<Rightarrow> int list" where
  "init_full_loop p end_p offset element_size offsets =
     (if p < end_p
      then init_full_loop (Suc p) end_p (offset + element_size) element_size (offsets[p := offset])
      else offsets)"
  by pat_completeness auto
termination
  by (relation "measure (\<lambda>(p, end_p, _). end_p - p)") auto

declare init_full_loop.simps [simp del]

definition shm_object_pool_init_full :: "object_pool \<Rightarrow> object_pool" where
  "shm_object_pool_init_full op =
     op\<lparr>op_offsets := init_full_loop 0 (op_capacity op - 1) (op_base_offset op)
                       (op_element_size op) (op_offsets op),
        op_head := 0,
        op_tail := op_capacity op - 1\<rparr>"

definition shm_object_pool_init_empty :: "object_pool \<Rightarrow> object_pool" where
  "shm_object_pool_init_empty op = op\<lparr>op_head := 0, op_tail := 0\<rparr>"

definition shm_object_pool_get_count :: "object_pool \<Rightarrow> nat" where
  "shm_object_pool_get_count op =
     (if op_head op = op_tail op then 0
      else if op_head op < op_tail op then op_tail op - op_head op
      else (op_capacity op - op_head op) + op_tail op)"

definition shm_object_pool_alloc :: "object_pool \<Rightarrow> int \<times> object_pool" where
  "shm_object_pool_alloc op =
     (if op_head op = op_tail op then (- 1, op)
      else (op_offsets op ! op_head op,
            op\<lparr>op_head := (op_head op + 1) mod op_capacity op\<rparr>))"

definition shm_object_pool_free :: "object_pool \<Rightarrow> int \<Rightarrow> int \<times> object_pool" where
  "shm_object_pool_free op obj_offset =
     (let next_tail = (op_tail op + 1) mod op_capacity op in
      if next_tail = op_head op then (ENOSPC, op)
      else (0, op\<lparr>op_offsets := (op_offsets op)[op_tail op := obj_offset], op_tail := next_tail\<rparr>))"

definition shm_object_pool_push :: "object_pool \<Rightarrow> int \<Rightarrow> object_pool" where
  "shm_object_pool_push op obj_offset = snd (shm_object_pool_free op obj_offset)"

definition shm_object_pool_is_empty :: "object_pool \<Rightarrow> bool" where
  "shm_object_pool_is_empty op \<longleftrightarrow> op_head op = op_tail op"

definition shm_object_pool_first :: "object_pool \<Rightarrow> int \<times> object_pool" where
  "shm_object_pool_first op =
     (if op_head op = op_tail op then (- 1, op\<lparr>op_index := - 1\<rparr>)
      else (op_offsets op ! op_head op, op\<lparr>op_index := int (op_head op)\<rparr>))"

definition shm_object_pool_next :: "object_pool \<Rightarrow> int \<times> object_pool" where
  "shm_object_pool_next op =
     (if op_index op = - 1 then (- 1, op)
      else if op_index op = int (op_tail op) then (- 1, op\<lparr>op_index := - 1\<rparr>)
      else let i = (nat (op_index op) + 1) mod op_capacity op in
        (if i \<noteq> op_tail op then (op_offsets op ! i, op\<lparr>op_index := int i\<rparr>)
         else (- 1, op\<lparr>op_index := int i\<rparr>)))"

definition SHM_OP_DEC_INDEX :: "nat \<Rightarrow> nat \<Rightarrow> nat" where
  "SHM_OP_DEC_INDEX index capacity = (if index = 0 then capacity - 1 else index - 1)"

text \<open>
  The removal moves every object before the cursor one slot towards it. The loop is a
  \<^const>\<open>while_option\<close>: it has no result when the cursor never meets the head.
\<close>

definition remove_shift :: "nat \<Rightarrow> nat \<Rightarrow> nat \<Rightarrow> int list \<Rightarrow> (nat \<times> int list) option" where
  "remove_shift head capacity index offsets =
     while_option (\<lambda>(current, xs). current \<noteq> head)
       (\<lambda>(current, xs). let previous = SHM_OP_DEC_INDEX current capacity in
          (previous, xs[current := xs ! previous]))
       (index, offsets)"

definition shm_object_pool_remove :: "object_pool \<Rightarrow> (int \<times> object_pool) option" where
  "shm_object_pool_remove op =
     (if op_head op = op_tail op then Some (- 1, op)
      else if op_index op < 0 then Some (- 1, op)
      else do {
        (_, xs) \<leftarrow> remove_shift (op_head op) (op_capacity op) (nat (op_index op)) (op_offsets op);
        Some (xs ! nat (op_index op),
              op\<lparr>op_offsets := xs, op_head := (op_head op + 1) mod op_capacity op\<rparr>)
      })"

partial_function (option) remove_by_loop :: "int \<Rightarrow> int \<Rightarrow> object_pool \<Rightarrow> (int \<times> object_pool) option"
where [code]:
  "remove_by_loop obj_offset current_offset op =
     (if current_offset > 0 then
        (if current_offset = obj_offset then shm_object_pool_remove op
         else let (current_offset, op) = shm_object_pool_next op in
           remove_by_loop obj_offset current_offset op)
      else Some (- 1, op))"

definition shm_object_pool_remove_by :: "object_pool \<Rightarrow> int \<Rightarrow> (int \<times> object_pool) option" where
  "shm_object_pool_remove_by op obj_offset =
     (let (current_offset, op) = shm_object_pool_first op in
      remove_by_loop obj_offset current_offset op)"

section \<open>Abstraction to a list\<close>

definition pool_wf :: "object_pool \<Rightarrow> bool" where
  "pool_wf op \<longleftrightarrow> 0 < op_capacity op \<and> op_head op < op_capacity op \<and> op_tail op < op_capacity op
     \<and> op_capacity op \<le> length (op_offsets op)"

definition pool_slot :: "object_pool \<Rightarrow> nat \<Rightarrow> nat" where
  "pool_slot op k = (op_head op + k) mod op_capacity op"

definition pool_list :: "object_pool \<Rightarrow> int list" where
  "pool_list op = map (\<lambda>k. op_offsets op ! pool_slot op k) [0..<shm_object_pool_get_count op]"

text \<open>The cursor stands on the object at position \<open>k\<close> of the queue.\<close>

definition pool_at :: "object_pool \<Rightarrow> nat \<Rightarrow> bool" where
  "pool_at op k \<longleftrightarrow> k < shm_object_pool_get_count op \<and> op_index op = int (pool_slot op k)"

lemma ring_mod: "a < c \<Longrightarrow> k < c \<Longrightarrow> (a + k) mod c = (if a + k < c then a + k else a + k - (c::nat))"
  by (simp add: mod_if)

lemma ring_inj: "a < c \<Longrightarrow> i < c \<Longrightarrow> j < c \<Longrightarrow> ((a + i) mod c = (a + j) mod c) = (i = (j::nat))"
  by (auto simp: ring_mod split: if_splits)

lemma ring_dec: "a < c \<Longrightarrow> Suc k < c \<Longrightarrow> SHM_OP_DEC_INDEX ((a + Suc k) mod c) c = (a + k) mod (c::nat)"
  using ring_mod [of a c "Suc k"] ring_mod [of a c k] by (auto simp: SHM_OP_DEC_INDEX_def)

lemma ring_suc: "(Suc a mod c + k) mod c = (a + Suc k) mod (c::nat)"
  by (simp add: mod_add_left_eq)

lemma pool_count_less: "pool_wf op \<Longrightarrow> shm_object_pool_get_count op < op_capacity op"
  by (auto simp: pool_wf_def shm_object_pool_get_count_def)

lemma pool_slot_less [simp]: "pool_wf op \<Longrightarrow> pool_slot op k < op_capacity op"
  by (simp add: pool_wf_def pool_slot_def)

lemma pool_slot_0 [simp]: "pool_wf op \<Longrightarrow> pool_slot op 0 = op_head op"
  by (simp add: pool_wf_def pool_slot_def)

lemma pool_slot_count: "pool_wf op \<Longrightarrow> pool_slot op (shm_object_pool_get_count op) = op_tail op"
  by (auto simp: pool_wf_def pool_slot_def shm_object_pool_get_count_def)

lemma pool_slot_inj:
  "pool_wf op \<Longrightarrow> i < op_capacity op \<Longrightarrow> j < op_capacity op \<Longrightarrow> (pool_slot op i = pool_slot op j) = (i = j)"
  by (simp add: pool_wf_def pool_slot_def ring_inj)

lemma pool_slot_eq_tail:
  "pool_wf op \<Longrightarrow> k < op_capacity op \<Longrightarrow> (pool_slot op k = op_tail op) = (k = shm_object_pool_get_count op)"
  by (metis pool_count_less pool_slot_count pool_slot_inj)

lemma length_pool_list [simp]: "length (pool_list op) = shm_object_pool_get_count op"
  by (simp add: pool_list_def)

lemma pool_list_nth: "k < shm_object_pool_get_count op \<Longrightarrow> pool_list op ! k = op_offsets op ! pool_slot op k"
  by (simp add: pool_list_def)

lemma count_0_iff: "pool_wf op \<Longrightarrow> (shm_object_pool_get_count op = 0) = (op_head op = op_tail op)"
  by (auto simp: shm_object_pool_get_count_def pool_wf_def)

lemma pool_list_Nil_iff: "pool_wf op \<Longrightarrow> (pool_list op = []) = (op_head op = op_tail op)"
  using count_0_iff [of op] length_pool_list [of op] by (metis length_0_conv)

text \<open>The list of a queue is fixed by its length and its slots: the rule the refinements use.\<close>

lemma pool_list_eqI:
  assumes "shm_object_pool_get_count op = length xs"
    and "\<And>k. k < length xs \<Longrightarrow> op_offsets op ! pool_slot op k = xs ! k"
  shows "pool_list op = xs"
  by (rule nth_equalityI) (simp_all add: assms pool_list_nth)

lemma pool_list_index_update [simp]: "pool_list (op\<lparr>op_index := i\<rparr>) = pool_list op"
  by (simp add: pool_list_def pool_slot_def shm_object_pool_get_count_def)

lemma pool_count_index_update [simp]:
  "shm_object_pool_get_count (op\<lparr>op_index := i\<rparr>) = shm_object_pool_get_count op"
  by (simp add: shm_object_pool_get_count_def)

lemma pool_slot_index_update [simp]: "pool_slot (op\<lparr>op_index := i\<rparr>) = pool_slot op"
  by (simp add: pool_slot_def fun_eq_iff)

lemma pool_wf_index_update [simp]: "pool_wf (op\<lparr>op_index := i\<rparr>) = pool_wf op"
  by (simp add: pool_wf_def)

section \<open>Refinement of the operations\<close>

subsection \<open>Initialisation\<close>

lemma length_init_full_loop [simp]: "length (init_full_loop p e off es xs) = length xs"
  by (induction p e off es xs rule: init_full_loop.induct) (subst init_full_loop.simps, simp)

lemma init_full_loop_nth:
  "e \<le> length xs \<Longrightarrow> i < length xs \<Longrightarrow>
   init_full_loop p e off es xs ! i = (if p \<le> i \<and> i < e then off + int (i - p) * es else xs ! i)"
proof (induction p e off es xs rule: init_full_loop.induct)
  case (1 p e off es xs)
  show ?case
  proof (cases "p < e")
    case True
    have "int (i - p) = 1 + int (i - Suc p)" if "Suc p \<le> i"
      using that by linarith
    then have shift: "off + es + int (i - Suc p) * es = off + int (i - p) * es" if "Suc p \<le> i"
      using that by (simp add: algebra_simps)
    have "init_full_loop p e off es xs ! i = init_full_loop (Suc p) e (off + es) es (xs[p := off]) ! i"
      using True by (simp add: init_full_loop.simps [of p])
    also have "\<dots> = (if Suc p \<le> i \<and> i < e then off + es + int (i - Suc p) * es else xs[p := off] ! i)"
      using "1.IH" [OF True] "1.prems" by simp
    also have "\<dots> = (if p \<le> i \<and> i < e then off + int (i - p) * es else xs ! i)"
      using shift True "1.prems" by (auto simp: nth_list_update)
    finally show ?thesis .
  next
    case False
    then show ?thesis by (simp add: init_full_loop.simps [of p])
  qed
qed

lemma pool_init_empty:
  assumes "pool_wf op"
  shows "pool_wf (shm_object_pool_init_empty op)" and "pool_list (shm_object_pool_init_empty op) = []"
  using assms by (auto simp: shm_object_pool_init_empty_def pool_wf_def pool_list_def
      shm_object_pool_get_count_def)

lemma pool_init_full_wf: "pool_wf op \<Longrightarrow> pool_wf (shm_object_pool_init_full op)"
  by (simp add: shm_object_pool_init_full_def pool_wf_def)

lemma pool_init_full_list:
  assumes "pool_wf op"
  shows "pool_list (shm_object_pool_init_full op) =
    map (\<lambda>i. op_base_offset op + int i * op_element_size op) [0..<op_capacity op - 1]"
proof (rule pool_list_eqI)
  show "shm_object_pool_get_count (shm_object_pool_init_full op) =
      length (map (\<lambda>i. op_base_offset op + int i * op_element_size op) [0..<op_capacity op - 1])"
    by (simp add: shm_object_pool_init_full_def shm_object_pool_get_count_def)
next
  fix k
  assume "k < length (map (\<lambda>i. op_base_offset op + int i * op_element_size op) [0..<op_capacity op - 1])"
  moreover from this have "k < length (op_offsets op)" using assms by (auto simp: pool_wf_def)
  ultimately show "op_offsets (shm_object_pool_init_full op) ! pool_slot (shm_object_pool_init_full op) k
      = map (\<lambda>i. op_base_offset op + int i * op_element_size op) [0..<op_capacity op - 1] ! k"
    using assms init_full_loop_nth [of "op_capacity op - 1" "op_offsets op" k 0]
    by (auto simp: shm_object_pool_init_full_def pool_slot_def pool_wf_def)
qed

subsection \<open>Pop and push\<close>

lemma pool_wf_head: "pool_wf op \<Longrightarrow> pool_wf (op\<lparr>op_head := Suc (op_head op) mod op_capacity op\<rparr>)"
  by (simp add: pool_wf_def)

lemma count_head_suc:
  assumes "pool_wf op" and "op_head op \<noteq> op_tail op"
  shows "Suc (shm_object_pool_get_count (op\<lparr>op_head := Suc (op_head op) mod op_capacity op\<rparr>))
    = shm_object_pool_get_count op"
  using assms by (auto simp: pool_wf_def shm_object_pool_get_count_def mod_Suc)

lemma slot_head_suc:
  "pool_wf op \<Longrightarrow> pool_slot (op\<lparr>op_head := Suc (op_head op) mod op_capacity op\<rparr>) k = pool_slot op (Suc k)"
  by (simp add: pool_slot_def mod_add_left_eq)

lemma pool_alloc_wf: "pool_wf op \<Longrightarrow> pool_wf (snd (shm_object_pool_alloc op))"
  by (simp add: shm_object_pool_alloc_def pool_wf_head)

lemma pool_alloc:
  assumes "pool_wf op"
  shows "shm_object_pool_alloc op =
      (case pool_list op of
        [] \<Rightarrow> (- 1, op)
      | x # xs \<Rightarrow> (x, op\<lparr>op_head := Suc (op_head op) mod op_capacity op\<rparr>))"
    and "pool_list (snd (shm_object_pool_alloc op)) = tl (pool_list op)"
proof -
  have hd: "op_head op \<noteq> op_tail op \<Longrightarrow> hd (pool_list op) = op_offsets op ! op_head op"
    using assms by (metis count_0_iff length_greater_0_conv length_pool_list hd_conv_nth
        neq0_conv pool_list_nth pool_slot_0)
  show "shm_object_pool_alloc op =
      (case pool_list op of [] \<Rightarrow> (- 1, op)
      | x # xs \<Rightarrow> (x, op\<lparr>op_head := Suc (op_head op) mod op_capacity op\<rparr>))"
    using hd pool_list_Nil_iff [OF assms]
    by (auto simp: shm_object_pool_alloc_def split: list.splits)
  show "pool_list (snd (shm_object_pool_alloc op)) = tl (pool_list op)"
  proof (cases "op_head op = op_tail op")
    case True
    then show ?thesis
      using pool_list_Nil_iff [OF assms] by (simp add: shm_object_pool_alloc_def)
  next
    case False
    then show ?thesis
      using count_head_suc [OF assms False] assms
      by (intro pool_list_eqI)
        (simp_all add: shm_object_pool_alloc_def slot_head_suc nth_tl pool_list_nth)
  qed
qed

lemma pool_full_iff:
  assumes "pool_wf op"
  shows "(Suc (op_tail op) mod op_capacity op = op_head op)
    = (shm_object_pool_get_count op = op_capacity op - 1)"
  using assms by (auto simp: pool_wf_def shm_object_pool_get_count_def mod_Suc)

lemma pool_free_full:
  "pool_wf op \<Longrightarrow> length (pool_list op) = op_capacity op - 1 \<Longrightarrow>
   shm_object_pool_free op x = (ENOSPC, op)"
  by (simp add: shm_object_pool_free_def Let_def pool_full_iff)

lemma pool_free_room:
  assumes "pool_wf op" and "length (pool_list op) < op_capacity op - 1"
  shows "fst (shm_object_pool_free op x) = 0"
    and "pool_wf (snd (shm_object_pool_free op x))"
    and "pool_list (snd (shm_object_pool_free op x)) = pool_list op @ [x]"
    and "op_capacity (snd (shm_object_pool_free op x)) = op_capacity op"
proof -
  let ?t = "Suc (op_tail op) mod op_capacity op"
  let ?op = "op\<lparr>op_offsets := (op_offsets op)[op_tail op := x], op_tail := ?t\<rparr>"
  have room: "?t \<noteq> op_head op"
    using assms by (simp add: pool_full_iff)
  then have eq: "shm_object_pool_free op x = (0, ?op)"
    by (simp add: shm_object_pool_free_def Let_def)
  have cnt: "shm_object_pool_get_count ?op = Suc (shm_object_pool_get_count op)"
    using assms(1) room by (auto simp: pool_wf_def shm_object_pool_get_count_def mod_Suc split: if_splits)
  have slot: "pool_slot ?op k = pool_slot op k" for k
    by (simp add: pool_slot_def)
  have "pool_list ?op = pool_list op @ [x]"
  proof (rule pool_list_eqI)
    fix k assume "k < length (pool_list op @ [x])"
    then have k: "k \<le> shm_object_pool_get_count op" by simp
    show "op_offsets ?op ! pool_slot ?op k = (pool_list op @ [x]) ! k"
    proof (cases "k = shm_object_pool_get_count op")
      case True
      then show ?thesis
        using assms(1) unfolding slot by (simp add: nth_append pool_slot_count pool_wf_def)
    next
      case False
      with k have "pool_slot op k \<noteq> op_tail op"
        using assms(1) pool_count_less [OF assms(1)] by (simp add: pool_slot_eq_tail)
      with False k show ?thesis
        unfolding slot by (simp add: nth_append pool_list_nth)
    qed
  qed (simp add: cnt)
  then show "pool_list (snd (shm_object_pool_free op x)) = pool_list op @ [x]"
    by (simp add: eq)
  show "fst (shm_object_pool_free op x) = 0"
    and "pool_wf (snd (shm_object_pool_free op x))"
    and "op_capacity (snd (shm_object_pool_free op x)) = op_capacity op"
    using assms(1) by (simp_all add: eq pool_wf_def)
qed

subsection \<open>The cursor\<close>

lemma pool_first:
  assumes "pool_wf op"
  shows "fst (shm_object_pool_first op) = (case pool_list op of [] \<Rightarrow> - 1 | x # _ \<Rightarrow> x)"
    and "pool_list (snd (shm_object_pool_first op)) = pool_list op"
    and "pool_wf (snd (shm_object_pool_first op))"
    and "pool_list op \<noteq> [] \<Longrightarrow> pool_at (snd (shm_object_pool_first op)) 0"
proof -
  have nth0: "op_head op \<noteq> op_tail op \<Longrightarrow> pool_list op ! 0 = op_offsets op ! op_head op"
    using assms count_0_iff [OF assms] by (metis neq0_conv pool_list_nth pool_slot_0)
  show "fst (shm_object_pool_first op) = (case pool_list op of [] \<Rightarrow> - 1 | x # _ \<Rightarrow> x)"
    using nth0 pool_list_Nil_iff [OF assms]
    by (auto simp: shm_object_pool_first_def split: list.splits)
  show "pool_list (snd (shm_object_pool_first op)) = pool_list op"
    and "pool_wf (snd (shm_object_pool_first op))"
    using assms by (simp_all add: shm_object_pool_first_def)
  show "pool_at (snd (shm_object_pool_first op)) 0" if "pool_list op \<noteq> []"
    using that assms count_0_iff [OF assms] pool_list_Nil_iff [OF assms]
    by (simp add: shm_object_pool_first_def pool_at_def pool_slot_def pool_wf_def
        shm_object_pool_get_count_def)
qed

text \<open>The cursor stands just before position \<open>k\<close>: the next step of the iteration reaches it.\<close>

definition pool_before :: "object_pool \<Rightarrow> nat \<Rightarrow> bool" where
  "pool_before op k \<longleftrightarrow> k \<le> shm_object_pool_get_count op \<and> 0 \<le> op_index op
     \<and> op_index op \<noteq> int (op_tail op) \<and> (nat (op_index op) + 1) mod op_capacity op = pool_slot op k"

lemma pool_at_before:
  assumes "pool_wf op" and "pool_at op k"
  shows "pool_before op (Suc k)"
proof -
  have k: "k < shm_object_pool_get_count op" and idx: "op_index op = int (pool_slot op k)"
    using assms(2) by (auto simp: pool_at_def)
  have "pool_slot op k \<noteq> op_tail op"
    using assms(1) k pool_count_less [OF assms(1)] by (simp add: pool_slot_eq_tail)
  then show ?thesis
    using k by (simp add: pool_before_def idx pool_slot_def mod_Suc_eq)
qed

lemma pool_next:
  assumes "pool_wf op" and "pool_before op k"
  shows "fst (shm_object_pool_next op) = (if k < length (pool_list op) then pool_list op ! k else - 1)"
    and "pool_list (snd (shm_object_pool_next op)) = pool_list op"
    and "pool_wf (snd (shm_object_pool_next op))"
    and "k < length (pool_list op) \<Longrightarrow> pool_at (snd (shm_object_pool_next op)) k"
proof -
  have k: "k \<le> shm_object_pool_get_count op" and idx: "0 \<le> op_index op" "op_index op \<noteq> int (op_tail op)"
    and suc: "(nat (op_index op) + 1) mod op_capacity op = pool_slot op k"
    using assms(2) by (auto simp: pool_before_def)
  have at_tail: "(pool_slot op k = op_tail op) = (k = shm_object_pool_get_count op)"
    using assms(1) k pool_count_less [OF assms(1)] by (simp add: pool_slot_eq_tail)
  have eq: "shm_object_pool_next op =
      (if k < shm_object_pool_get_count op then pool_list op ! k else - 1,
       op\<lparr>op_index := int (pool_slot op k)\<rparr>)"
    unfolding shm_object_pool_next_def suc
    using idx at_tail k by (auto simp: pool_list_nth Let_def)
  show "fst (shm_object_pool_next op) = (if k < length (pool_list op) then pool_list op ! k else - 1)"
    and "pool_list (snd (shm_object_pool_next op)) = pool_list op"
    and "pool_wf (snd (shm_object_pool_next op))"
    using assms(1) by (simp_all add: eq)
  show "pool_at (snd (shm_object_pool_next op)) k" if "k < length (pool_list op)"
    using that by (simp add: eq pool_at_def)
qed

subsection \<open>Removal at the cursor\<close>

text \<open>
  The shift from position \<open>k\<close> terminates at the head and moves the objects at positions
  \<open>0, \<dots>, k - 1\<close> one slot towards the tail.
\<close>

lemma remove_shift:
  assumes "head < cap" and "k < cap" and "cap \<le> length xs"
  shows "\<exists>ys. remove_shift head cap ((head + k) mod cap) xs = Some (head, ys) \<and> length ys = length xs
    \<and> (\<forall>j < cap. ys ! ((head + j) mod cap) =
         (if 0 < j \<and> j \<le> k then xs ! ((head + (j - 1)) mod cap) else xs ! ((head + j) mod cap)))"
  using assms(2,3)
proof (induction k arbitrary: xs)
  case 0
  then show ?case
    using assms(1) by (auto simp: remove_shift_def while_option_unfold)
next
  case (Suc k)
  let ?cur = "(head + Suc k) mod cap" and ?prev = "(head + k) mod cap"
  let ?xs = "xs[?cur := xs ! ?prev]"
  have cur: "?cur \<noteq> head"
    using ring_inj [of head cap "Suc k" 0] assms(1) Suc.prems by simp
  have dec: "SHM_OP_DEC_INDEX ?cur cap = ?prev"
    using assms(1) Suc.prems by (intro ring_dec) auto
  have step: "remove_shift head cap ?cur xs = remove_shift head cap ?prev ?xs"
    using cur dec unfolding remove_shift_def by (subst while_option_unfold) (simp add: Let_def)
  obtain ys where ys: "remove_shift head cap ?prev ?xs = Some (head, ys)" "length ys = length xs"
    and nth: "\<forall>j < cap. ys ! ((head + j) mod cap) =
       (if 0 < j \<and> j \<le> k then ?xs ! ((head + (j - 1)) mod cap) else ?xs ! ((head + j) mod cap))"
    using Suc.IH [of ?xs] Suc.prems by auto
  have "?cur < cap" using assms(1) by simp
  then have len: "?cur < length xs" using Suc.prems(2) by linarith
  have upd: "?xs ! ((head + j) mod cap) = (if j = Suc k then xs ! ?prev else xs ! ((head + j) mod cap))"
    if "j < cap" for j
    using ring_inj [of head cap j "Suc k"] that assms(1) Suc.prems len by (auto simp: nth_list_update)
  have "ys ! ((head + j) mod cap) = (if 0 < j \<and> j \<le> Suc k then xs ! ((head + (j - 1)) mod cap)
      else xs ! ((head + j) mod cap))" if j: "j < cap" for j
  proof -
    have "j - 1 < cap" using j by simp
    then show ?thesis
      using nth [rule_format, OF j] upd [OF j] upd [of "j - 1"] by (auto simp: le_Suc_eq)
  qed
  with ys step show ?case by auto
qed

text \<open>What the removal returns and leaves, for a cursor at position \<open>k\<close>.\<close>

lemma pool_remove:
  assumes "pool_wf op" and "pool_at op k"
  obtains op' where
    "shm_object_pool_remove op = Some (pool_list op ! (k - 1), op')"
    "pool_list op' = take k (pool_list op) @ drop (Suc k) (pool_list op)"
    "pool_wf op'" "op_index op' = op_index op" "op_capacity op' = op_capacity op"
    "pool_before op' k"
proof -
  let ?n = "shm_object_pool_get_count op"
  have k: "k < ?n" and idx: "op_index op = int (pool_slot op k)"
    using assms(2) by (auto simp: pool_at_def)
  have cap: "?n < op_capacity op"
    using assms(1) by (rule pool_count_less)
  have ne: "op_head op \<noteq> op_tail op"
    using count_0_iff [OF assms(1)] k by auto
  obtain ys where ys: "remove_shift (op_head op) (op_capacity op) (pool_slot op k) (op_offsets op)
      = Some (op_head op, ys)" "length ys = length (op_offsets op)"
    and nth: "\<And>j. j < op_capacity op \<Longrightarrow> ys ! pool_slot op j =
       (if 0 < j \<and> j \<le> k then op_offsets op ! pool_slot op (j - 1) else op_offsets op ! pool_slot op j)"
    using remove_shift [of "op_head op" "op_capacity op" k "op_offsets op"] assms(1) k cap
    unfolding pool_slot_def pool_wf_def by auto
  let ?op = "op\<lparr>op_offsets := ys, op_head := Suc (op_head op) mod op_capacity op\<rparr>"
  have slot: "pool_slot ?op j = pool_slot op (Suc j)" for j
    by (simp add: pool_slot_def mod_add_left_eq)
  have cnt: "Suc (shm_object_pool_get_count ?op) = ?n"
  proof -
    have "shm_object_pool_get_count ?op =
        shm_object_pool_get_count (op\<lparr>op_head := Suc (op_head op) mod op_capacity op\<rparr>)"
      by (simp add: shm_object_pool_get_count_def)
    then show ?thesis using count_head_suc [OF assms(1) ne] by simp
  qed
  have "shm_object_pool_remove op = Some (pool_list op ! (k - 1), ?op)"
    using ne idx ys(1) nth [of k] k cap
    by (simp add: shm_object_pool_remove_def pool_list_nth)
  moreover have "pool_list ?op = take k (pool_list op) @ drop (Suc k) (pool_list op)"
  proof (rule pool_list_eqI)
    fix j assume j: "j < length (take k (pool_list op) @ drop (Suc k) (pool_list op))"
    then have "Suc j < ?n" using k by simp
    then have "op_offsets ?op ! pool_slot ?op j = (if j < k then pool_list op ! j else pool_list op ! Suc j)"
      unfolding slot using nth [of "Suc j"] cap by (auto simp: pool_list_nth)
    also have "\<dots> = (take k (pool_list op) @ drop (Suc k) (pool_list op)) ! j"
      using k j by (auto simp: nth_append)
    finally show "op_offsets ?op ! pool_slot ?op j = \<dots>" .
  qed (use cnt k in simp)
  moreover have "pool_wf ?op"
    using assms(1) ys(2) by (simp add: pool_wf_def)
  moreover have "pool_before ?op k"
    using pool_at_before [OF assms] cnt k unfolding pool_before_def slot by simp
  ultimately show thesis
    by (intro that [of ?op]) simp_all
qed

subsection \<open>Removal by offset\<close>

lemma remove_by_loop_found:
  assumes "pool_wf op" and "pool_at op k" and "\<forall>x \<in> set (pool_list op). 0 < x"
    and "k \<le> j" and "j < length (pool_list op)" and "pool_list op ! j = x"
    and "\<forall>i. k \<le> i \<longrightarrow> i < j \<longrightarrow> pool_list op ! i \<noteq> x"
  obtains op' where "remove_by_loop x (pool_list op ! k) op = Some (pool_list op ! (j - 1), op')"
    "pool_wf op'" "op_capacity op' = op_capacity op"
    "pool_list op' = take j (pool_list op) @ drop (Suc j) (pool_list op)"
  using assms
proof (induction "j - k" arbitrary: k op thesis)
  case 0
  then have jk: "j = k" by simp
  then have "0 < pool_list op ! k" using "0.prems" by auto
  then have "remove_by_loop x (pool_list op ! k) op = shm_object_pool_remove op"
    using "0.prems"(7) jk by (simp add: remove_by_loop.simps)
  moreover obtain op' where "shm_object_pool_remove op = Some (pool_list op ! (k - 1), op')"
    "pool_list op' = take k (pool_list op) @ drop (Suc k) (pool_list op)"
    "pool_wf op'" "op_capacity op' = op_capacity op"
    using pool_remove [OF "0.prems"(2,3)] by metis
  ultimately show ?case
    using "0.prems"(1) jk by simp
next
  case (Suc n)
  then have kj: "Suc k \<le> j" and k: "k < length (pool_list op)" by auto
  have pos: "0 < pool_list op ! k" and ne: "pool_list op ! k \<noteq> x"
    using Suc.prems(4,8) kj k by auto
  note nxt = pool_next [OF Suc.prems(2) pool_at_before [OF Suc.prems(2,3)]]
  let ?op = "snd (shm_object_pool_next op)"
  have len: "Suc k < length (pool_list op)" using kj Suc.prems(6) by simp
  have cap: "op_capacity ?op = op_capacity op"
    by (simp add: shm_object_pool_next_def Let_def)
  obtain op' where "remove_by_loop x (pool_list ?op ! Suc k) ?op = Some (pool_list ?op ! (j - 1), op')"
    "pool_wf op'" "op_capacity op' = op_capacity ?op"
    "pool_list op' = take j (pool_list ?op) @ drop (Suc j) (pool_list ?op)"
    using Suc.hyps(1) [of "Suc k" ?op] Suc.hyps(2) nxt(3) nxt(4) [OF len] Suc.prems(4-8) kj
    unfolding nxt(2) by (metis Suc_leD diff_Suc_Suc diff_Suc_1 Suc_diff_Suc Suc_le_lessD)
  moreover have "remove_by_loop x (pool_list op ! k) op = remove_by_loop x (pool_list ?op ! Suc k) ?op"
    using pos ne nxt(1,2) len by (subst remove_by_loop.simps) (simp add: case_prod_unfold Let_def)
  ultimately show ?case
    using Suc.prems(1) nxt(2) cap by simp
qed

lemma remove_by_loop_absent:
  assumes "pool_wf op" and "pool_at op k" and "x \<notin> set (pool_list op)"
  obtains op' where "remove_by_loop x (pool_list op ! k) op = Some (- 1, op')"
    "pool_wf op'" "op_capacity op' = op_capacity op" "pool_list op' = pool_list op"
  using assms
proof (induction "length (pool_list op) - k" arbitrary: k op thesis)
  case 0
  then show ?case by (simp add: pool_at_def)
next
  case (Suc n)
  have ne: "pool_list op ! k \<noteq> x"
    using Suc.prems(3,4) by (metis length_pool_list nth_mem pool_at_def)
  note nxt = pool_next [OF Suc.prems(2) pool_at_before [OF Suc.prems(2,3)]]
  let ?op = "snd (shm_object_pool_next op)"
  have cap: "op_capacity ?op = op_capacity op"
    by (simp add: shm_object_pool_next_def Let_def)
  have step: "0 < pool_list op ! k \<Longrightarrow> remove_by_loop x (pool_list op ! k) op
      = remove_by_loop x (fst (shm_object_pool_next op)) ?op"
    using ne by (subst remove_by_loop.simps) (simp add: case_prod_unfold Let_def)
  show ?case
  proof (cases "0 < pool_list op ! k \<and> Suc k < length (pool_list op)")
    case True
    obtain op' where "remove_by_loop x (pool_list ?op ! Suc k) ?op = Some (- 1, op')"
      "pool_wf op'" "op_capacity op' = op_capacity ?op" "pool_list op' = pool_list ?op"
      using Suc.hyps(1) [of ?op "Suc k"] Suc.hyps(2) nxt(3) nxt(4) Suc.prems(4) True
      unfolding nxt(2) by (metis Suc_diff_Suc Suc_lessD diff_Suc_1)
    then show ?thesis
      using Suc.prems(1) step True nxt(1,2) cap by simp
  next
    case False
    then have "remove_by_loop x (pool_list op ! k) op = Some (- 1, op)
        \<or> remove_by_loop x (pool_list op ! k) op = Some (- 1, ?op)"
      using step nxt(1) by (auto simp: remove_by_loop.simps [of x "- 1"] remove_by_loop.simps [of x "pool_list op ! k"])
    then show ?thesis
      using Suc.prems(1,2) nxt(2,3) cap by auto
  qed
qed

lemma pool_remove_by_found:
  assumes "pool_wf op" and "\<forall>y \<in> set (pool_list op). 0 < y" and "x \<in> set (pool_list op)"
  obtains r op' where "shm_object_pool_remove_by op x = Some (r, op')" "0 < r"
    "pool_wf op'" "op_capacity op' = op_capacity op" "pool_list op' = remove1 x (pool_list op)"
proof -
  obtain as bs where split: "pool_list op = as @ x # bs" "x \<notin> set as"
    using split_list_first [OF assms(3)] by blast
  note fst = pool_first [OF assms(1)]
  let ?op = "snd (shm_object_pool_first op)"
  have ne: "pool_list op \<noteq> []" using assms(3) by auto
  have cap: "op_capacity ?op = op_capacity op"
    by (simp add: shm_object_pool_first_def)
  have absent: "\<forall>i. 0 \<le> i \<longrightarrow> i < length as \<longrightarrow> pool_list op ! i \<noteq> x"
  proof (intro allI impI)
    fix i assume "i < length as"
    then show "pool_list op ! i \<noteq> x"
      using split nth_mem [of i as] by (auto simp: nth_append)
  qed
  obtain op' where op': "remove_by_loop x (pool_list ?op ! 0) ?op = Some (pool_list ?op ! (length as - 1), op')"
    "pool_wf op'" "op_capacity op' = op_capacity ?op"
    "pool_list op' = take (length as) (pool_list ?op) @ drop (Suc (length as)) (pool_list ?op)"
  proof (rule remove_by_loop_found [OF fst(3) fst(4) [OF ne], of "length as" x])
    show "length as < length (pool_list ?op)" and "pool_list ?op ! length as = x"
      using split by (simp_all add: fst(2))
  qed (use assms(2) absent in \<open>simp_all add: fst(2)\<close>)
  have "length as - 1 < length (pool_list op)"
    using split by simp
  then have "0 < pool_list op ! (length as - 1)"
    using assms(2) nth_mem by blast
  moreover have "fst (shm_object_pool_first op) = pool_list op ! 0"
    using fst(1) ne by (auto split: list.splits)
  ultimately show thesis
    using op' split fst(2) cap
    by (intro that [of "pool_list ?op ! (length as - 1)" op'])
      (simp_all add: shm_object_pool_remove_by_def case_prod_unfold Let_def remove1_append)
qed

lemma pool_remove_by_absent:
  assumes "pool_wf op" and "x \<notin> set (pool_list op)"
  obtains op' where "shm_object_pool_remove_by op x = Some (- 1, op')"
    "pool_wf op'" "op_capacity op' = op_capacity op" "pool_list op' = pool_list op"
proof (cases "pool_list op = []")
  case True
  then have "shm_object_pool_remove_by op x = Some (- 1, op\<lparr>op_index := - 1\<rparr>)"
    using pool_list_Nil_iff [OF assms(1)]
    by (simp add: shm_object_pool_remove_by_def shm_object_pool_first_def remove_by_loop.simps)
  then show thesis using that assms(1) by simp
next
  case False
  note fst = pool_first [OF assms(1)]
  let ?op = "snd (shm_object_pool_first op)"
  have cap: "op_capacity ?op = op_capacity op"
    by (simp add: shm_object_pool_first_def)
  have "fst (shm_object_pool_first op) = pool_list ?op ! 0"
    using fst(1,2) False by (auto split: list.splits)
  moreover obtain op' where "remove_by_loop x (pool_list ?op ! 0) ?op = Some (- 1, op')"
    "pool_wf op'" "op_capacity op' = op_capacity ?op" "pool_list op' = pool_list ?op"
    using remove_by_loop_absent [OF fst(3) fst(4) [OF False], of x] assms(2)
    unfolding fst(2) by metis
  ultimately show thesis
    using that fst(2) cap by (simp add: shm_object_pool_remove_by_def case_prod_unfold Let_def)
qed

section \<open>The queue contract\<close>

text \<open>
  What the value allocator relies on: a bounded first-in first-out queue with a list of contents.
  \<open>pop\<close> answers \<open>none\<close> on an empty queue.
\<close>

fun pop_times :: "('q \<Rightarrow> 'a \<times> 'q) \<Rightarrow> nat \<Rightarrow> 'q \<Rightarrow> 'a list" where
  "pop_times pop 0 q = []"
| "pop_times pop (Suc n) q = fst (pop q) # pop_times pop n (snd (pop q))"

locale bounded_fifo =
  fixes invar :: "'q \<Rightarrow> bool"
    and contents :: "'q \<Rightarrow> 'a list"
    and limit :: "'q \<Rightarrow> nat"
    and none :: 'a
    and clear :: "'q \<Rightarrow> 'q"
    and push :: "'q \<Rightarrow> 'a \<Rightarrow> 'q"
    and pop :: "'q \<Rightarrow> 'a \<times> 'q"
  assumes invar_clear: "invar q \<Longrightarrow> invar (clear q)"
    and contents_clear: "invar q \<Longrightarrow> contents (clear q) = []"
    and limit_clear: "invar q \<Longrightarrow> limit (clear q) = limit q"
    and invar_push: "invar q \<Longrightarrow> invar (push q x)"
    and limit_push: "invar q \<Longrightarrow> limit (push q x) = limit q"
    and contents_push: "invar q \<Longrightarrow>
      contents (push q x) = (if length (contents q) < limit q then contents q @ [x] else contents q)"
    and invar_pop: "invar q \<Longrightarrow> invar (snd (pop q))"
    and pop_value: "invar q \<Longrightarrow> fst (pop q) = (case contents q of [] \<Rightarrow> none | x # _ \<Rightarrow> x)"
    and contents_pop: "invar q \<Longrightarrow> contents (snd (pop q)) = tl (contents q)"
    and limit_pop: "invar q \<Longrightarrow> limit (snd (pop q)) = limit q"
begin

lemma push_all:
  assumes "invar q" and "length (contents q) + length xs \<le> limit q"
  shows "invar (foldl push q xs) \<and> limit (foldl push q xs) = limit q
    \<and> contents (foldl push q xs) = contents q @ xs"
  using assms
proof (induction xs arbitrary: q)
  case Nil
  then show ?case by simp
next
  case (Cons x xs)
  then show ?case
    using Cons.IH [of "push q x"] by (simp add: invar_push limit_push contents_push)
qed

lemma refill:
  assumes "invar q" and "length xs \<le> limit q"
  shows "contents (foldl push (clear q) xs) = xs"
  using push_all [of "clear q" xs] assms by (simp add: invar_clear limit_clear contents_clear)

lemma pop_times_contents: "invar q \<Longrightarrow> pop_times pop (length (contents q)) q = contents q"
proof (induction "contents q" arbitrary: q)
  case Nil
  then show ?case by (metis list.size(3) pop_times.simps(1))
next
  case (Cons x xs)
  have "pop_times pop (length xs) (snd (pop q)) = xs"
    using Cons.hyps(1) [of "snd (pop q)"] Cons.hyps(2) [symmetric] Cons.prems
    by (simp add: contents_pop invar_pop)
  then show ?case
    using Cons.prems by (simp add: Cons.hyps(2) [symmetric] pop_value)
qed

lemma pop_times_refill:
  "invar q \<Longrightarrow> length xs \<le> limit q \<Longrightarrow> pop_times pop (length xs) (foldl push (clear q) xs) = xs"
  using pop_times_contents [of "foldl push (clear q) xs"] push_all [of "clear q" xs] refill [of q xs]
  by (simp add: invar_clear limit_clear contents_clear)

lemma full_push_ignored: "invar q \<Longrightarrow> limit q \<le> length (contents q) \<Longrightarrow> contents (push q x) = contents q"
  by (simp add: contents_push)

end

lemma pool_push_laws:
  assumes "pool_wf op"
  shows "pool_wf (shm_object_pool_push op x)"
    and "op_capacity (shm_object_pool_push op x) = op_capacity op"
    and "pool_list (shm_object_pool_push op x) =
      (if length (pool_list op) < op_capacity op - 1 then pool_list op @ [x] else pool_list op)"
proof -
  consider "length (pool_list op) < op_capacity op - 1" | "length (pool_list op) = op_capacity op - 1"
    using pool_count_less [OF assms] by fastforce
  then show "pool_wf (shm_object_pool_push op x)"
    and "op_capacity (shm_object_pool_push op x) = op_capacity op"
    and "pool_list (shm_object_pool_push op x) =
      (if length (pool_list op) < op_capacity op - 1 then pool_list op @ [x] else pool_list op)"
    using assms pool_free_room [OF assms] pool_free_full [OF assms]
    by (cases; simp add: shm_object_pool_push_def)+
qed

interpretation pool: bounded_fifo pool_wf pool_list "\<lambda>op. op_capacity op - 1" "- 1"
  shm_object_pool_init_empty shm_object_pool_push shm_object_pool_alloc
proof (unfold_locales, goal_cases)
  case (1 q)
  then show ?case by (rule pool_init_empty)
next
  case (2 q)
  then show ?case by (rule pool_init_empty)
next
  case (3 q)
  then show ?case by (simp add: shm_object_pool_init_empty_def)
next
  case (4 q x)
  then show ?case by (rule pool_push_laws)
next
  case (5 q x)
  then show ?case by (simp add: pool_push_laws)
next
  case (6 q x)
  then show ?case by (rule pool_push_laws)
next
  case (7 q)
  then show ?case by (rule pool_alloc_wf)
next
  case (8 q)
  then show ?case by (auto simp: pool_alloc(1) split: list.splits)
next
  case (9 q)
  then show ?case by (rule pool_alloc(2))
next
  case (10 q)
  then show ?case by (simp add: shm_object_pool_alloc_def)
qed

section \<open>Properties\<close>

text \<open>
  C36: \<^verbatim>\<open>shm_object_pool_free\<close> appends the offset at the tail of the queue and returns 0, except that
  it returns \<^verbatim>\<open>ENOSPC\<close> and changes nothing exactly when the queue holds \<open>capacity - 1\<close>
  offsets; the queue stays well formed.
\<close>
theorem object_pool_free_refines:
  assumes "pool_wf op"
  shows "shm_object_pool_free op x = (ENOSPC, op) \<and> length (pool_list op) = op_capacity op - 1 \<or>
    fst (shm_object_pool_free op x) = 0 \<and> length (pool_list op) < op_capacity op - 1
      \<and> pool_list (snd (shm_object_pool_free op x)) = pool_list op @ [x]
      \<and> pool_wf (snd (shm_object_pool_free op x))"
proof -
  consider "length (pool_list op) < op_capacity op - 1" | "length (pool_list op) = op_capacity op - 1"
    using pool_count_less [OF assms] by fastforce
  then show ?thesis
    using assms pool_free_room [OF assms] pool_free_full [OF assms] by cases simp_all
qed

theorem object_pool_free_refines_witness:
  "shm_object_pool_free \<lparr>op_base_offset = 0, op_element_size = 56, op_capacity = 2, op_head = 1,
     op_tail = 0, op_offsets = [0, 56], op_index = - 1\<rparr> 112
   = (ENOSPC, \<lparr>op_base_offset = 0, op_element_size = 56, op_capacity = 2, op_head = 1,
     op_tail = 0, op_offsets = [0, 56], op_index = - 1\<rparr>)"
proof -
  let ?op = "\<lparr>op_base_offset = 0, op_element_size = 56, op_capacity = 2, op_head = 1,
     op_tail = 0, op_offsets = [0, 56], op_index = - 1\<rparr>"
  have "pool_wf ?op" and "length (pool_list ?op) = 1"
    by (simp_all add: pool_wf_def shm_object_pool_get_count_def)
  then show ?thesis using object_pool_free_refines [of ?op 112] by simp
qed

text \<open>
  Offsets pushed on an emptied pool come back from \<^verbatim>\<open>shm_object_pool_alloc\<close> in the order they
  were pushed, as long as they fit: the pool is a first-in first-out queue.
\<close>
theorem object_pool_fifo:
  assumes "pool_wf op" and "length xs < op_capacity op"
  shows "pop_times shm_object_pool_alloc (length xs)
    (foldl shm_object_pool_push (shm_object_pool_init_empty op) xs) = xs"
  using assms by (intro pool.pop_times_refill) auto

theorem object_pool_fifo_witness:
  "pop_times shm_object_pool_alloc 2 (foldl shm_object_pool_push (shm_object_pool_init_empty
     \<lparr>op_base_offset = 0, op_element_size = 56, op_capacity = 3, op_head = 1, op_tail = 1,
       op_offsets = [7, 8, 9], op_index = - 1\<rparr>) [56, 112]) = [56, 112]"
  using object_pool_fifo [of "\<lparr>op_base_offset = 0, op_element_size = 56, op_capacity = 3,
      op_head = 1, op_tail = 1, op_offsets = [7, 8, 9], op_index = - 1\<rparr>" "[56, 112]"]
  by (simp add: pool_wf_def numeral_2_eq_2)

text \<open>
  C38: \<^verbatim>\<open>shm_object_pool_remove\<close> terminates and takes out the object under the cursor, keeping the
  order of the others, but what it returns is read after the shift: it is the removed object only
  when that object was the first, and otherwise the object in front of it.
\<close>
theorem object_pool_remove_returns_predecessor:
  assumes "pool_wf op" and "pool_at op k"
  shows "\<exists>op'. shm_object_pool_remove op
      = Some (if k = 0 then pool_list op ! 0 else pool_list op ! (k - 1), op')
    \<and> pool_list op' = take k (pool_list op) @ drop (Suc k) (pool_list op) \<and> pool_wf op'"
proof -
  obtain op' where "shm_object_pool_remove op = Some (pool_list op ! (k - 1), op')"
    "pool_list op' = take k (pool_list op) @ drop (Suc k) (pool_list op)" "pool_wf op'"
    using pool_remove [OF assms] by metis
  then show ?thesis by (cases k) auto
qed

theorem object_pool_remove_returns_predecessor_witness:
  "\<exists>op'. shm_object_pool_remove \<lparr>op_base_offset = 0, op_element_size = 56, op_capacity = 3,
     op_head = 0, op_tail = 2, op_offsets = [56, 112, 0], op_index = 1\<rparr> = Some (56, op')
   \<and> pool_list op' = [56]"
proof -
  let ?op = "\<lparr>op_base_offset = 0, op_element_size = 56, op_capacity = 3, op_head = 0, op_tail = 2,
    op_offsets = [56, 112, 0], op_index = 1\<rparr>"
  have "pool_wf ?op" and "pool_at ?op 1"
    by (simp_all add: pool_wf_def pool_at_def pool_slot_def shm_object_pool_get_count_def)
  moreover have "pool_list ?op = [56, 112]"
    by (simp add: pool_list_def pool_slot_def shm_object_pool_get_count_def numeral_2_eq_2)
  ultimately show ?thesis
    using object_pool_remove_returns_predecessor [of ?op 1] by auto
qed

text \<open>
  The operation \<^verbatim>\<open>shm_object_pool_remove_by\<close> terminates on every well-formed pool of positive offsets; it
  removes the first occurrence of the offset and returns a positive value when the offset is
  queued, and otherwise returns -1 and keeps the contents.
\<close>
theorem object_pool_remove_by_refines:
  assumes "pool_wf op" and "list_all (\<lambda>y. 0 < y) (pool_list op)"
  shows "\<exists>r op'. shm_object_pool_remove_by op x = Some (r, op')
    \<and> (0 < r) = (x \<in> set (pool_list op)) \<and> (r = - 1) = (x \<notin> set (pool_list op))
    \<and> pool_list op' = remove1 x (pool_list op) \<and> pool_wf op'"
proof (cases "x \<in> set (pool_list op)")
  case True
  then obtain r op' where "shm_object_pool_remove_by op x = Some (r, op')" "0 < r"
    "pool_wf op'" "pool_list op' = remove1 x (pool_list op)"
    using pool_remove_by_found [OF assms(1)] assms(2) by (metis list_all_iff)
  with True show ?thesis by auto
next
  case False
  then obtain op' where "shm_object_pool_remove_by op x = Some (- 1, op')"
    "pool_wf op'" "pool_list op' = pool_list op"
    using pool_remove_by_absent [OF assms(1)] by metis
  with False show ?thesis by (auto simp: remove1_idem)
qed

theorem object_pool_remove_by_refines_witness:
  "\<exists>r op'. shm_object_pool_remove_by \<lparr>op_base_offset = 0, op_element_size = 56, op_capacity = 3,
     op_head = 2, op_tail = 1, op_offsets = [112, 0, 56], op_index = - 1\<rparr> 112 = Some (r, op')
   \<and> 0 < r \<and> pool_list op' = [56]"
proof -
  let ?op = "\<lparr>op_base_offset = 0, op_element_size = 56, op_capacity = 3, op_head = 2, op_tail = 1,
    op_offsets = [112, 0, 56], op_index = - 1\<rparr>"
  have l: "pool_list ?op = [56, 112]"
    by (simp add: pool_list_def pool_slot_def shm_object_pool_get_count_def numeral_2_eq_2)
  have "pool_wf ?op" by (simp add: pool_wf_def)
  then show ?thesis
    using object_pool_remove_by_refines [of ?op 112] l by auto
qed

end
