(* ===== verification/StripingAllocator.thy ===== *)
theory StripingAllocator
  imports Prelude
begin

text \<open>
  \<^verbatim>\<open>src/src/shm_striping_allocator.h\<close> and \<^verbatim>\<open>shm_striping_allocator.c\<close>: one striping of a value segment.
  Blocks are handed out in address order by advancing \<^verbatim>\<open>offset.free\<close>; freeing a block only
  subtracts its size from \<^verbatim>\<open>size.used\<close>, and the striping is reset as a whole when nothing of it is
  used any more. The contract that the value allocator relies on is the locale \<open>bump_region\<close>.
\<close>

record shm_segment_striping_pair =
  ssp_segment :: int
  ssp_striping :: int

record shm_striping_allocator =
  sa_last_alloc_time :: int
  sa_fail_times :: int
  sa_in_which_pool :: int
  sa_index :: shm_segment_striping_pair
  sa_total :: int
  sa_used :: int
  sa_base :: int
  sa_free :: int
  sa_end :: int

abbreviation (input) POOL_DOING :: int where "POOL_DOING \<equiv> 0"
abbreviation (input) POOL_DONE :: int where "POOL_DONE \<equiv> 1"

text \<open>The structure's size on the 64 bit platforms (two padding holes).\<close>

abbreviation (input) sizeof_shm_striping_allocator :: int where "sizeof_shm_striping_allocator \<equiv> 56"

definition shm_striping_allocator_reset :: "shm_striping_allocator \<Rightarrow> shm_striping_allocator" where
  "shm_striping_allocator_reset a =
     a\<lparr>sa_last_alloc_time := 0, sa_fail_times := 0, sa_used := 0, sa_free := sa_base a\<rparr>"

text \<open>The parameter \<^verbatim>\<open>total_size\<close> is an \<^verbatim>\<open>int\<close>: the 64 bit striping size passed for it is truncated.\<close>

definition shm_striping_allocator_init ::
  "shm_striping_allocator \<Rightarrow> shm_segment_striping_pair \<Rightarrow> int \<Rightarrow> int \<Rightarrow> shm_striping_allocator" where
  "shm_striping_allocator_init a ssp_index base_offset total_size =
     (let total = int32 total_size in
      shm_striping_allocator_reset
        (a\<lparr>sa_index := ssp_index, sa_base := base_offset, sa_total := total,
           sa_end := base_offset + total\<rparr>))"

definition shm_striping_allocator_alloc ::
  "shm_striping_allocator \<Rightarrow> int \<Rightarrow> int \<Rightarrow> int \<times> shm_striping_allocator" where
  "shm_striping_allocator_alloc a g_current_time sz =
     (if sa_end a - sa_free a < sz then (- 1, a\<lparr>sa_fail_times := sa_fail_times a + 1\<rparr>)
      else (sa_free a,
            a\<lparr>sa_last_alloc_time := g_current_time, sa_used := sa_used a + sz,
              sa_free := sa_free a + sz\<rparr>))"

definition shm_striping_allocator_free ::
  "shm_striping_allocator \<Rightarrow> int \<Rightarrow> int \<times> shm_striping_allocator" where
  "shm_striping_allocator_free a sz = (sa_used a - sz, a\<lparr>sa_used := sa_used a - sz\<rparr>)"

definition shm_striping_allocator_free_size :: "shm_striping_allocator \<Rightarrow> int" where
  "shm_striping_allocator_free_size a = sa_end a - sa_free a"

definition shm_striping_allocator_used_size :: "shm_striping_allocator \<Rightarrow> int" where
  "shm_striping_allocator_used_size a = sa_used a"

section \<open>Blocks of a striping\<close>

text \<open>
  The live blocks of a striping are offset and size pairs. They lie between the base and the
  free offset, do not overlap, and their sizes sum up to the used size.
\<close>

definition block_disjoint :: "int \<times> int \<Rightarrow> int \<times> int \<Rightarrow> bool" where
  "block_disjoint p q \<longleftrightarrow> fst p + snd p \<le> fst q \<or> fst q + snd q \<le> fst p"

definition striping_wf :: "shm_striping_allocator \<Rightarrow> (int \<times> int) list \<Rightarrow> bool" where
  "striping_wf a bs \<longleftrightarrow> 0 \<le> sa_base a \<and> sa_base a \<le> sa_free a \<and> sa_free a \<le> sa_end a
     \<and> list_all (\<lambda>b. 0 < snd b \<and> sa_base a \<le> fst b \<and> fst b + snd b \<le> sa_free a) bs
     \<and> sorted_wrt block_disjoint bs
     \<and> sa_used a = (\<Sum>b\<leftarrow>bs. snd b)"

lemma block_disjoint_sym: "block_disjoint p q \<Longrightarrow> block_disjoint q p"
  by (auto simp: block_disjoint_def)

section \<open>The contract of a bump allocator\<close>

text \<open>
  The laws of the interface: a successful allocation adds one block, a failed one adds none,
  freeing a live block takes it away and reports what is left in use, a reset forgets every block.
\<close>

locale bump_region =
  fixes wf :: "'r \<Rightarrow> (int \<times> int) list \<Rightarrow> bool"
    and used :: "'r \<Rightarrow> int"
    and alloc :: "'r \<Rightarrow> int \<Rightarrow> int \<Rightarrow> int \<times> 'r"
    and free :: "'r \<Rightarrow> int \<Rightarrow> int \<times> 'r"
    and reset :: "'r \<Rightarrow> 'r"
  assumes wf_disjoint: "wf r bs \<Longrightarrow> sorted_wrt block_disjoint bs"
    and wf_used: "wf r bs \<Longrightarrow> used r = (\<Sum>b\<leftarrow>bs. snd b)"
    and wf_size: "wf r bs \<Longrightarrow> b \<in> set bs \<Longrightarrow> 0 < snd b"
    and alloc_some: "wf r bs \<Longrightarrow> 0 < n \<Longrightarrow> fst (alloc r t n) \<noteq> - 1 \<Longrightarrow>
      wf (snd (alloc r t n)) (bs @ [(fst (alloc r t n), n)])"
    and alloc_none: "wf r bs \<Longrightarrow> 0 < n \<Longrightarrow> fst (alloc r t n) = - 1 \<Longrightarrow> wf (snd (alloc r t n)) bs"
    and free_block: "wf r (as @ b # bs) \<Longrightarrow> wf (snd (free r (snd b))) (as @ bs)"
    and free_used: "fst (free r n) = used (snd (free r n))"
    and reset_empty: "wf r bs \<Longrightarrow> wf (reset r) []"
begin

lemma used_nonneg: "wf r bs \<Longrightarrow> 0 \<le> used r"
  using wf_used [of r bs] wf_size [of r bs] by (auto intro!: sum_list_nonneg simp: less_imp_le)

lemma used_0_iff: "wf r bs \<Longrightarrow> (used r \<le> 0) = (bs = [])"
proof (cases bs)
  case (Cons b bs')
  assume wf: "wf r bs"
  have "0 \<le> (\<Sum>b\<leftarrow>bs'. snd b)"
    by (rule sum_list_nonneg_int) (use wf_size [OF wf] Cons in \<open>simp add: less_imp_le\<close>)
  moreover have "0 < snd b" using wf_size [OF wf] Cons by auto
  ultimately show ?thesis using wf_used [OF wf] Cons by simp
qed (simp add: wf_used)

lemma free_reports_empty:
  "wf r (as @ b # bs) \<Longrightarrow> (fst (free r (snd b)) \<le> 0) = (as @ bs = [])"
  using used_0_iff [OF free_block] by (simp add: free_used)

lemma alloc_fresh:
  assumes "wf r bs" and "0 < n" and "fst (alloc r t n) \<noteq> - 1" and "b \<in> set bs"
  shows "block_disjoint b (fst (alloc r t n), n)"
  using wf_disjoint [OF alloc_some [OF assms(1-3)]] assms(4) by (simp add: sorted_wrt_append)

end

interpretation striping: bump_region striping_wf shm_striping_allocator_used_size
  shm_striping_allocator_alloc shm_striping_allocator_free shm_striping_allocator_reset
proof (unfold_locales, goal_cases)
  case (1 r bs)
  then show ?case by (simp add: striping_wf_def)
next
  case (2 r bs)
  then show ?case by (simp add: striping_wf_def shm_striping_allocator_used_size_def)
next
  case (3 r bs b)
  then show ?case by (simp add: striping_wf_def list_all_iff)
next
  case (4 r bs n t)
  then show ?case
    by (auto simp: striping_wf_def shm_striping_allocator_alloc_def list_all_iff sorted_wrt_append
        block_disjoint_def split: if_splits)
next
  case (5 r bs n t)
  then show ?case
    by (auto simp: striping_wf_def shm_striping_allocator_alloc_def split: if_splits)
next
  case (6 r as b bs)
  then show ?case
    by (auto simp: striping_wf_def shm_striping_allocator_free_def sorted_wrt_append)
next
  case (7 r n)
  then show ?case
    by (simp add: shm_striping_allocator_free_def shm_striping_allocator_used_size_def)
next
  case (8 r bs)
  then show ?case
    by (auto simp: striping_wf_def shm_striping_allocator_reset_def)
qed

text \<open>The fields an operation leaves alone.\<close>

lemma striping_frame [frame_simps]:
  "sa_index (snd (shm_striping_allocator_alloc a t n)) = sa_index a"
  "sa_in_which_pool (snd (shm_striping_allocator_alloc a t n)) = sa_in_which_pool a"
  "sa_base (snd (shm_striping_allocator_alloc a t n)) = sa_base a"
  "sa_end (snd (shm_striping_allocator_alloc a t n)) = sa_end a"
  "sa_index (snd (shm_striping_allocator_free a n)) = sa_index a"
  "sa_in_which_pool (snd (shm_striping_allocator_free a n)) = sa_in_which_pool a"
  "sa_base (snd (shm_striping_allocator_free a n)) = sa_base a"
  "sa_end (snd (shm_striping_allocator_free a n)) = sa_end a"
  "sa_index (shm_striping_allocator_reset a) = sa_index a"
  "sa_in_which_pool (shm_striping_allocator_reset a) = sa_in_which_pool a"
  "sa_base (shm_striping_allocator_reset a) = sa_base a"
  "sa_end (shm_striping_allocator_reset a) = sa_end a"
  by (simp_all add: shm_striping_allocator_alloc_def shm_striping_allocator_free_def
      shm_striping_allocator_reset_def)

lemma striping_wf_in_which_pool [simp]: "striping_wf (a\<lparr>sa_in_which_pool := p\<rparr>) bs = striping_wf a bs"
  by (simp add: striping_wf_def)

lemma striping_alloc_range:
  assumes "striping_wf a bs" and "fst (shm_striping_allocator_alloc a t n) \<noteq> - 1"
  shows "sa_base a \<le> fst (shm_striping_allocator_alloc a t n)"
    and "fst (shm_striping_allocator_alloc a t n) + n \<le> sa_end a"
  using assms by (auto simp: striping_wf_def shm_striping_allocator_alloc_def split: if_splits)

lemma striping_wf_init:
  "0 \<le> base \<Longrightarrow> 0 \<le> sz \<Longrightarrow> sz < 2147483648 \<Longrightarrow> striping_wf (shm_striping_allocator_init a p base sz) []"
  by (simp add: striping_wf_def shm_striping_allocator_init_def shm_striping_allocator_reset_def)

section \<open>Properties\<close>

text \<open>
  A striping hands out a block exactly when the size still fits; the block lies inside the
  striping, overlaps no live block, and the striping then accounts for it. A request that does not
  fit changes nothing but the fail counter.
\<close>
theorem striping_alloc_correct:
  assumes "striping_wf a bs" and "0 < n"
  shows "if shm_striping_allocator_free_size a < n
    then shm_striping_allocator_alloc a t n = (- 1, a\<lparr>sa_fail_times := sa_fail_times a + 1\<rparr>)
    else \<exists>off a'. shm_striping_allocator_alloc a t n = (off, a')
      \<and> sa_base a \<le> off \<and> off + n \<le> sa_end a
      \<and> list_all (\<lambda>b. block_disjoint b (off, n)) bs \<and> striping_wf a' (bs @ [(off, n)])"
proof (cases "shm_striping_allocator_free_size a < n")
  case True
  then show ?thesis
    by (simp add: shm_striping_allocator_alloc_def shm_striping_allocator_free_size_def)
next
  case False
  then have ok: "fst (shm_striping_allocator_alloc a t n) \<noteq> - 1"
    using assms(1) by (simp add: shm_striping_allocator_alloc_def shm_striping_allocator_free_size_def
        striping_wf_def)
  with False show ?thesis
    using striping_alloc_range [OF assms(1) ok] striping.alloc_fresh [OF assms(1,2) ok]
      striping.alloc_some [OF assms(1,2) ok]
    by (cases "shm_striping_allocator_alloc a t n") (auto simp: list_all_iff)
qed

theorem striping_alloc_correct_witness:
  "fst (shm_striping_allocator_alloc \<lparr>sa_last_alloc_time = 0, sa_fail_times = 0, sa_in_which_pool = 0,
     sa_index = \<lparr>ssp_segment = 0, ssp_striping = 0\<rparr>, sa_total = 300, sa_used = 80, sa_base = 0,
     sa_free = 200, sa_end = 300\<rparr> 7 80) + 80 \<le> 300"
proof -
  let ?a = "\<lparr>sa_last_alloc_time = 0, sa_fail_times = 0, sa_in_which_pool = 0,
     sa_index = \<lparr>ssp_segment = 0, ssp_striping = 0\<rparr>, sa_total = 300, sa_used = 80, sa_base = 0,
     sa_free = 200, sa_end = 300\<rparr>"
  have "striping_wf ?a [(120, 80)]" by (simp add: striping_wf_def)
  then show ?thesis
    using striping_alloc_correct [of ?a "[(120, 80)]" 80 7]
    by (auto simp: shm_striping_allocator_free_size_def)
qed

text \<open>
  Freeing a live block leaves the other blocks as they are, and the used size reported is
  zero exactly when no block of the striping is live any more, so that a striping is only ever
  reset when it is empty.
\<close>
theorem striping_free_correct:
  assumes "striping_wf a (as @ b # bs)"
  shows "striping_wf (snd (shm_striping_allocator_free a (snd b))) (as @ bs)
    \<and> (fst (shm_striping_allocator_free a (snd b)) = 0) = (as = [] \<and> bs = [])
    \<and> 0 \<le> fst (shm_striping_allocator_free a (snd b))"
proof -
  have wf: "striping_wf (snd (shm_striping_allocator_free a (snd b))) (as @ bs)"
    by (rule striping.free_block [OF assms])
  then have "0 \<le> fst (shm_striping_allocator_free a (snd b))"
    using striping.used_nonneg striping.free_used by metis
  then show ?thesis
    using wf striping.free_reports_empty [OF assms] by auto
qed

theorem striping_free_correct_witness:
  "fst (shm_striping_allocator_free \<lparr>sa_last_alloc_time = 0, sa_fail_times = 0, sa_in_which_pool = 0,
     sa_index = \<lparr>ssp_segment = 0, ssp_striping = 0\<rparr>, sa_total = 300, sa_used = 80, sa_base = 0,
     sa_free = 200, sa_end = 300\<rparr> 80) = 0"
proof -
  let ?a = "\<lparr>sa_last_alloc_time = 0, sa_fail_times = 0, sa_in_which_pool = 0,
     sa_index = \<lparr>ssp_segment = 0, ssp_striping = 0\<rparr>, sa_total = 300, sa_used = 80, sa_base = 0,
     sa_free = 200, sa_end = 300\<rparr>"
  have "striping_wf ?a ([] @ (120, 80) # [])" by (simp add: striping_wf_def)
  then show ?thesis
    using striping_free_correct [of ?a "[]" "(120, 80)" "[]"] by simp
qed

end
