(* ===== verification/ShmTypes.thy ===== *)
theory ShmTypes
  imports Environment ObjectPool StripingAllocator
begin

text \<open>
  The data of \<^verbatim>\<open>src/src/shmcache_types.h\<close>. A C structure is a record with the same fields; a
  structure nested in another one, with no operation of its own, contributes its fields directly.
  An array member or a pointer to an array in shared memory is a list. The record
  \<open>shmcache_context\<close> holds what a process reaches through its \<^verbatim>\<open>struct shmcache_context\<close>: its own
  fields, the shared header \<open>shm_memory_info\<close>, the two allocator queues, the allocators, and the
  entries of the value segments.

  An entry of a value segment is addressed by the pair of its segment index and its offset in that
  segment. Its key and value bytes, which the code stores behind the structure, are fields of the
  entry. That two live entries never share bytes is a theorem of the hash table, not an assumption.
\<close>

section \<open>Configuration\<close>

record shmcache_config =
  cfg_filename :: string
  cfg_min_memory :: int
  cfg_max_memory :: int
  cfg_segment_size :: int
  cfg_max_key_count :: int
  cfg_max_value_size :: int
  cfg_type :: int
  cfg_recycle_key_once :: int
  cfg_recycle_valid_entries :: bool
  cfg_avg_key_ttl :: int
  cfg_discard_memory_size :: int
  cfg_max_fail_times :: int
  cfg_sleep_us_when_recycle_valid_entries :: int
  cfg_read_within_lock :: bool
  cfg_trylock_interval_us :: int
  cfg_detect_deadlock_interval_ms :: int
  cfg_hash_func :: "bytes \<Rightarrow> int"

abbreviation (input) SHMCACHE_MAX_KEY_SIZE :: int where "SHMCACHE_MAX_KEY_SIZE \<equiv> 64"
abbreviation (input) SHMCACHE_STATUS_INIT :: int where "SHMCACHE_STATUS_INIT \<equiv> 0"
abbreviation (input) SHMCACHE_STATUS_NORMAL :: int where "SHMCACHE_STATUS_NORMAL \<equiv> 0x12345678"
abbreviation (input) SHMCACHE_TYPE_SHM :: int where "SHMCACHE_TYPE_SHM \<equiv> 1"
abbreviation (input) SHMCACHE_TYPE_MMAP :: int where "SHMCACHE_TYPE_MMAP \<equiv> 2"
abbreviation (input) SHMCACHE_NEVER_EXPIRED :: int where "SHMCACHE_NEVER_EXPIRED \<equiv> 0"

text \<open>The structure sizes on the 64 bit platforms, and the offset of the list head in the header.\<close>

abbreviation (input) sizeof_shm_hash_entry :: int where "sizeof_shm_hash_entry \<equiv> 64"
abbreviation (input) sizeof_shm_memory_info :: int where "sizeof_shm_memory_info \<equiv> 464"
abbreviation (input) offsetof_hashtable_head :: int where "offsetof_hashtable_head \<equiv> 440"
abbreviation (input) sizeof_shmcache_segment_info :: int where "sizeof_shmcache_segment_info \<equiv> 24"
abbreviation (input) sizeof_shmcache_hash_entry :: int where "sizeof_shmcache_hash_entry \<equiv> 40"

section \<open>Shared memory\<close>

record shm_list =
  sl_prev :: int
  sl_next :: int

record shm_hash_entry =
  he_list :: shm_list
  he_key_len :: int
  he_expires :: int
  he_value_length :: int
  he_value_options :: int
  he_size :: int
  he_index :: shm_segment_striping_pair
  he_offset :: int
  he_ht_next :: int
  he_key :: bytes
  he_data :: bytes

record shm_value_size_info =
  vs_size :: int
  vs_current :: int
  vs_max :: int

record shm_counter =
  ctr_total :: int
  ctr_success :: int

record shm_recycle_stats =
  rs_total :: int
  rs_success :: int
  rs_force :: int
  rs_last_recycle_time :: int

record shm_stats =
  st_set :: shm_counter
  st_get :: shm_counter
  st_del :: shm_counter
  st_incr :: shm_counter
  st_last_clear_time :: int
  st_clear_total :: int
  st_clear_valid :: int
  st_recycle_key :: shm_recycle_stats
  st_recycle_value_striping :: shm_recycle_stats
  st_lock_total :: int
  st_lock_retry :: int
  st_lock_detect_deadlock :: int
  st_lock_unlock_deadlock :: int
  st_lock_last_detect_deadlock_time :: int
  st_lock_last_unlock_deadlock_time :: int
  st_last_get :: shm_counter
  st_last_calc_time :: int
  st_init_time :: int

record shm_memory_usage =
  mu_alloced :: int
  mu_common :: int
  mu_entry :: int
  mu_key :: int
  mu_value :: int

record shm_memory_info =
  mi_size :: int
  mi_status :: int
  mi_init_time :: int
  mi_max_key_count :: int
  mi_lock_pid :: int
  mi_segment :: shm_value_size_info
  mi_striping :: shm_value_size_info
  mi_stats :: shm_stats
  mi_usage :: shm_memory_usage
  mi_head :: shm_list
  mi_capacity :: int
  mi_count :: int
  mi_buckets :: "int list"

section \<open>Process data\<close>

record shmcache_value_info =
  vi_data :: bytes
  vi_options :: int
  vi_expires :: int

record shmcache_segment_info =
  seg_proj_id :: int
  seg_key :: int
  seg_size :: int
  seg_base :: int

text \<open>What the library takes from libfastcommon: the alignment macro, the table of prime capacities
  and the size of a path buffer.\<close>

record fastcommon =
  fc_mem_align :: "int \<Rightarrow> int"
  fc_prime_capacity :: "int \<Rightarrow> int option"
  fc_max_path_size :: nat

record shmcache_context =
  sc_pid :: int
  sc_lock_fd :: int
  sc_detect_deadlock_clocks :: int
  sc_config :: shmcache_config
  sc_memory :: shm_memory_info
  sc_ht_segment :: shmcache_segment_info
  sc_values_count :: int
  sc_values_items :: "shmcache_segment_info list"
  sc_doing :: object_pool
  sc_done :: object_pool
  sc_allocators :: "shm_striping_allocator list"
  sc_allocators_offset :: int
  sc_list_head_offset :: int
  sc_create_segment :: bool
  sc_entries :: "entry_loc \<Rightarrow> shm_hash_entry option"
  sc_g_current_time :: int
  sc_g_schedule_flag :: bool
  sc_fastcommon :: fastcommon
  sc_env :: env

text \<open>A request to the environment made by a process.\<close>

definition sys :: "sysreq \<Rightarrow> shmcache_context \<Rightarrow> int \<times> shmcache_context" where
  "sys r c = (let (v, e) = sysval r (sc_env c) in (v, c\<lparr>sc_env := e\<rparr>))"

abbreviation (input) get_current_time :: "shmcache_context \<Rightarrow> int \<times> shmcache_context" where
  "get_current_time c \<equiv> sys Sys_get_current_time c"

lemma snd_sys: "snd (sys r c) = c\<lparr>sc_env := snd (sysval r (sc_env c))\<rparr>"
  by (simp add: sys_def case_prod_unfold Let_def)

text \<open>The address of a striping allocator in the hash table segment, and back.\<close>

definition allocator_offset :: "shmcache_context \<Rightarrow> nat \<Rightarrow> int" where
  "allocator_offset c i = sc_allocators_offset c + sizeof_shm_striping_allocator * int i"

definition allocator_of_offset :: "shmcache_context \<Rightarrow> int \<Rightarrow> nat" where
  "allocator_of_offset c off = nat ((off - sc_allocators_offset c) div sizeof_shm_striping_allocator)"

lemma allocator_of_offset [simp]: "allocator_of_offset c (allocator_offset c i) = i"
  by (simp add: allocator_offset_def allocator_of_offset_def)

lemma allocator_offset_inj [simp]: "(allocator_offset c i = allocator_offset c j) = (i = j)"
  by (simp add: allocator_offset_def)

end
