(* ===== verification/ShmOpt.thy ===== *)
theory ShmOpt
  imports ShmTypes
begin

text \<open>
  \<^verbatim>\<open>src/src/shm_op_wrapper.c\<close> (mapping, unmapping and removing a segment) and \<^verbatim>\<open>src/src/shmopt.c\<close> with
  \<^verbatim>\<open>shmopt.h\<close> (creating and opening the value segments). An address is an integer, 0 for \<^verbatim>\<open>NULL\<close>
  and -1 for \<^verbatim>\<open>MAP_FAILED\<close>, which only \<^verbatim>\<open>shm_do_shmmap\<close> checks, and the failed \<^verbatim>\<open>shmat\<close>. The file mode mask around \<^verbatim>\<open>open\<close> and the
  log messages are left out.
\<close>

section \<open>Decimal printing\<close>

text \<open>The \<^verbatim>\<open>%d\<close> and \<^verbatim>\<open>PRId64\<close> conversions.\<close>

fun show_nat :: "nat \<Rightarrow> string" where
  "show_nat n = (if n < 10 then [char_of (48 + n)] else show_nat (n div 10) @ [char_of (48 + n mod 10)])"

declare show_nat.simps [simp del]

definition show_int :: "int \<Rightarrow> string" where
  "show_int i = (if i < 0 then CHR ''-'' # show_nat (nat (- i)) else show_nat (nat i))"

section \<open>Mapping a segment\<close>

definition SHM_GET_MMAP_FILENAME :: "nat \<Rightarrow> string \<Rightarrow> int \<Rightarrow> string" where
  "SHM_GET_MMAP_FILENAME max_path filename proj_id =
     take (max_path - 1) (filename @ ''.'' @ show_int (proj_id - 1))"

text \<open>The part of \<^verbatim>\<open>shm_do_mmap\<close> after the file is open.\<close>

definition shm_do_mmap_fd :: "int \<Rightarrow> int \<Rightarrow> bool \<Rightarrow> env \<Rightarrow> (int \<times> int) \<times> env" where
  "shm_do_mmap_fd fd sz need_truncate e =
     (let ((r, err), e) = (if need_truncate then syscall (Sys_ftruncate fd sz) e else ((0, 0), e)) in
      if r \<noteq> 0 then
        (let (_, e) = syscall (Sys_close fd) e in ((0, errno_or err EPERM), e))
      else
        (let ((addr, _), e) = syscall (Sys_mmap sz fd) e;
             (_, e) = syscall (Sys_close fd) e
         in ((addr, 0), e)))"

definition shm_do_mmap :: "nat \<Rightarrow> string \<Rightarrow> int \<Rightarrow> int \<Rightarrow> bool \<Rightarrow> env \<Rightarrow> (int \<times> int) \<times> env" where
  "shm_do_mmap max_path filename proj_id sz create_segment e =
     (let true_filename = SHM_GET_MMAP_FILENAME max_path filename proj_id;
          ((fd, err), e) = syscall (Sys_open true_filename False) e in
      if 0 \<le> fd then
        (let ((st_size, err), e) = syscall (Sys_fstat_size fd) e in
         if st_size < 0 then ((0, errno_or err EPERM), e)
         else shm_do_mmap_fd fd sz (st_size < sz) e)
      else if \<not> (create_segment \<and> err = ENOENT) then ((0, errno_or err EPERM), e)
      else
        (let ((fd, err), e) = syscall (Sys_open true_filename True) e in
         if fd < 0 then ((0, errno_or err EPERM), e)
         else shm_do_mmap_fd fd sz True e))"

definition shm_do_shmmap :: "int \<Rightarrow> int \<Rightarrow> bool \<Rightarrow> env \<Rightarrow> (int \<times> int) \<times> env" where
  "shm_do_shmmap key sz create_segment e =
     (let ((shmid, err), e) = (if create_segment then syscall (Sys_shmget key sz True) e
                               else syscall (Sys_shmget key 0 False) e) in
      if shmid < 0 then ((0, errno_or err EPERM), e)
      else
        (let ((addr, err), e) = syscall (Sys_shmat shmid) e in
         if addr = 0 \<or> addr = - 1 then ((0, errno_or err EPERM), e) else ((addr, 0), e)))"

text \<open>The result is an errno and the key, which keeps its old value on failure.\<close>

definition shm_get_key :: "string \<Rightarrow> int \<Rightarrow> int \<Rightarrow> env \<Rightarrow> (int \<times> int) \<times> env" where
  "shm_get_key filename proj_id key e =
     (let ((r, err), e) = syscall (Sys_access filename) e;
          (result, e) =
            (if r \<noteq> 0 then
               (let result = errno_or err ENOENT in
                if result \<noteq> ENOENT then (result, e)
                else
                  (let ((result, _), e) = syscall (Sys_writeToFile filename) e in
                   if result \<noteq> 0 then (result, e)
                   else
                     (let ((r, err), e) = syscall (Sys_chmod filename) e in
                      if r \<noteq> 0 then (errno_or err EFAULT, e) else (0, e))))
             else (0, e)) in
      if result \<noteq> 0 then ((result, key), e)
      else
        (let ((key, err), e) = syscall (Sys_fc_ftok filename proj_id) e in
         if key = - 1 then ((errno_or err EFAULT, key), e) else ((0, key), e)))"

definition shm_mmap ::
  "nat \<Rightarrow> int \<Rightarrow> string \<Rightarrow> int \<Rightarrow> int \<Rightarrow> int \<Rightarrow> bool \<Rightarrow> env \<Rightarrow> (int \<times> int \<times> int) \<times> env" where
  "shm_mmap max_path type filename proj_id sz key create_segment e =
     (let ((err_no, key), e) = shm_get_key filename proj_id key e in
      if err_no \<noteq> 0 then ((0, key, err_no), e)
      else
        (let ((addr, err_no), e) =
           (if type = SHMCACHE_TYPE_MMAP then shm_do_mmap max_path filename proj_id sz create_segment e
            else shm_do_shmmap key sz create_segment e)
         in ((addr, key, err_no), e)))"

definition shm_exists :: "nat \<Rightarrow> int \<Rightarrow> string \<Rightarrow> int \<Rightarrow> env \<Rightarrow> bool \<times> env" where
  "shm_exists max_path type filename proj_id e =
     (let ((result, key), e) = shm_get_key filename proj_id 0 e in
      if result \<noteq> 0 then (False, e)
      else if type = SHMCACHE_TYPE_MMAP then
        (let ((r, _), e) = syscall (Sys_access (SHM_GET_MMAP_FILENAME max_path filename proj_id)) e
         in (r = 0, e))
      else (let ((r, _), e) = syscall (Sys_shmget key 0 False) e in (0 \<le> r, e)))"

definition shm_munmap :: "int \<Rightarrow> int \<Rightarrow> int \<Rightarrow> env \<Rightarrow> int \<times> env" where
  "shm_munmap type addr sz e =
     (let ((r, err), e) =
        (if type = SHMCACHE_TYPE_MMAP then syscall (Sys_munmap addr sz) e
         else syscall (Sys_shmdt addr) e)
      in (if r = 0 then 0 else errno_or err EACCES, e))"

definition shm_remove :: "nat \<Rightarrow> int \<Rightarrow> string \<Rightarrow> int \<Rightarrow> int \<Rightarrow> int \<Rightarrow> env \<Rightarrow> int \<times> env" where
  "shm_remove max_path type filename proj_id sz key e =
     (if type = SHMCACHE_TYPE_MMAP then
        (let ((r, err), e) = syscall (Sys_unlink (SHM_GET_MMAP_FILENAME max_path filename proj_id)) e
         in (if r \<noteq> 0 then errno_or err EPERM else 0, e))
      else
        (let ((shmid, err), e) = syscall (Sys_shmget key 0 False) e in
         if shmid < 0 then (errno_or err EACCES, e)
         else
           (let ((r, err), e) = syscall (Sys_shmctl_rmid shmid) e
            in (if r \<noteq> 0 then errno_or err EACCES else 0, e))))"

section \<open>Value segments\<close>

definition shmopt_init_segment ::
  "shmcache_context \<Rightarrow> shmcache_segment_info \<Rightarrow> int \<Rightarrow> int
   \<Rightarrow> (int \<times> shmcache_segment_info) \<times> shmcache_context" where
  "shmopt_init_segment c segment proj_id sz =
     (let segment = segment\<lparr>seg_proj_id := proj_id\<rparr>;
          ((base, key, result), e) =
            shm_mmap (fc_max_path_size (sc_fastcommon c)) (cfg_type (sc_config c))
              (cfg_filename (sc_config c)) proj_id sz (seg_key segment) (sc_create_segment c) (sc_env c);
          c = c\<lparr>sc_env := e\<rparr>;
          segment = segment\<lparr>seg_base := base, seg_key := key\<rparr> in
      if base = 0 then ((result, segment), c)
      else ((0, segment\<lparr>seg_size := sz\<rparr>), c))"

definition shmopt_init_value_segment :: "shmcache_context \<Rightarrow> int \<Rightarrow> int \<times> shmcache_context" where
  "shmopt_init_value_segment c segment_index =
     (let proj_id = segment_index + 2;
          ((result, segment), c) =
            shmopt_init_segment c (sc_values_items c ! nat segment_index) proj_id
              (vs_size (mi_segment (sc_memory c)))
      in (result, c\<lparr>sc_values_items := (sc_values_items c)[nat segment_index := segment]\<rparr>))"

text \<open>
  The loop of \<^verbatim>\<open>shmopt_create_value_segment\<close>: \<open>n\<close> allocators still to initialise and queue.
  The index pair holds \<^verbatim>\<open>short\<close> values.
\<close>

fun create_striping_loop :: "nat \<Rightarrow> int \<Rightarrow> int \<Rightarrow> shmcache_context \<Rightarrow> shmcache_context" where
  "create_striping_loop 0 segment_index striping_offset c = c"
| "create_striping_loop (Suc n) segment_index striping_offset c =
     (let striping_index = vs_current (mi_striping (sc_memory c));
          c = sc_memory_update (mi_striping_update (vs_current_update (\<lambda>k. k + 1))) c;
          i = nat striping_index;
          index_pair = \<lparr>ssp_segment = int16 segment_index, ssp_striping = int16 striping_index\<rparr>;
          allocator = shm_striping_allocator_init (sc_allocators c ! i) index_pair striping_offset
            (vs_size (mi_striping (sc_memory c)));
          allocator = allocator\<lparr>sa_in_which_pool := POOL_DOING\<rparr>;
          c = c\<lparr>sc_allocators := (sc_allocators c)[i := allocator],
                sc_doing := shm_object_pool_push (sc_doing c) (allocator_offset c i)\<rparr>
      in create_striping_loop n segment_index
           (striping_offset + vs_size (mi_striping (sc_memory c))) c)"

definition shmopt_create_value_segment :: "shmcache_context \<Rightarrow> int \<times> shmcache_context" where
  "shmopt_create_value_segment c =
     (let segment = mi_segment (sc_memory c) in
      if vs_max segment \<le> vs_current segment then (ENOSPC, c)
      else if sc_values_count c \<noteq> vs_current segment then (EINVAL, c)
      else
        (let segment_index = vs_current segment;
             (result, c) = shmopt_init_value_segment c segment_index in
         if result \<noteq> 0 then (result, c)
         else
           (let c = sc_memory_update (mi_segment_update (vs_current_update (\<lambda>k. k + 1))) c;
                striping_count = vs_size segment div vs_size (mi_striping (sc_memory c));
                c = create_striping_loop (nat striping_count) segment_index 0 c;
                c = c\<lparr>sc_values_count := segment_index + 1\<rparr>;
                c = sc_memory_update (mi_usage_update (mu_alloced_update (\<lambda>a. a + vs_size segment))) c
            in (0, c))))"

text \<open>The first argument counts the iterations left: the bound of the loop does not change in it.\<close>

fun open_segments_loop :: "nat \<Rightarrow> int \<Rightarrow> shmcache_context \<Rightarrow> int \<times> shmcache_context" where
  "open_segments_loop 0 segment_index c = (0, c)"
| "open_segments_loop (Suc n) segment_index c =
     (let (result, c) = shmopt_init_value_segment c segment_index in
      if result \<noteq> 0 then (result, c)
      else open_segments_loop n (segment_index + 1) (c\<lparr>sc_values_count := sc_values_count c + 1\<rparr>))"

definition shmopt_open_value_segments :: "shmcache_context \<Rightarrow> int \<times> shmcache_context" where
  "shmopt_open_value_segments c =
     open_segments_loop (nat (vs_current (mi_segment (sc_memory c)) - sc_values_count c))
       (sc_values_count c) c"

definition shmopt_get_value_segment :: "shmcache_context \<Rightarrow> int \<Rightarrow> int \<times> shmcache_context" where
  "shmopt_get_value_segment c index =
     (if index < sc_values_count c then (seg_base (sc_values_items c ! nat index), c)
      else if index < vs_current (mi_segment (sc_memory c)) then
        (let (result, c) = shmopt_open_value_segments c in
         if result \<noteq> 0 then (0, c) else (seg_base (sc_values_items c ! nat index), c))
      else (0, c))"

fun remove_all_loop :: "nat \<Rightarrow> int \<Rightarrow> int \<Rightarrow> shmcache_context \<Rightarrow> int \<times> shmcache_context" where
  "remove_all_loop 0 segment_index result c = (result, c)"
| "remove_all_loop (Suc n) segment_index result c =
     (let (result, c) = shmopt_init_value_segment c segment_index in
      if result \<noteq> 0 then (result, c)
      else
        (let segment = sc_values_items c ! nat segment_index;
             (r, e) = shm_remove (fc_max_path_size (sc_fastcommon c)) (cfg_type (sc_config c))
               (cfg_filename (sc_config c)) (seg_proj_id segment) (seg_size segment) (seg_key segment)
               (sc_env c)
         in remove_all_loop n (segment_index + 1) (if r \<noteq> 0 then r else result) (c\<lparr>sc_env := e\<rparr>)))"

definition shmopt_remove_all :: "shmcache_context \<Rightarrow> int \<times> shmcache_context" where
  "shmopt_remove_all c =
     (let (result, e) = shm_remove (fc_max_path_size (sc_fastcommon c)) (cfg_type (sc_config c))
            (cfg_filename (sc_config c)) (seg_proj_id (sc_ht_segment c)) (seg_size (sc_ht_segment c))
            (seg_key (sc_ht_segment c)) (sc_env c)
      in remove_all_loop (nat (vs_current (mi_segment (sc_memory c)))) 0 result (c\<lparr>sc_env := e\<rparr>))"

section \<open>Segments that are open\<close>

text \<open>An address that can be used, and a process whose segments up to \<^verbatim>\<open>segments.values.count\<close> all have one.\<close>

definition mapped :: "int \<Rightarrow> bool" where
  "mapped base \<longleftrightarrow> base \<noteq> 0 \<and> base \<noteq> - 1"


definition segments_open :: "shmcache_context \<Rightarrow> bool" where
  "segments_open c \<longleftrightarrow> 0 \<le> sc_values_count c \<and> nat (sc_values_count c) \<le> length (sc_values_items c)
     \<and> list_all (\<lambda>s. mapped (seg_base s)) (take (nat (sc_values_count c)) (sc_values_items c))"

lemma segments_open_base:
  "segments_open c \<Longrightarrow> 0 \<le> i \<Longrightarrow> i < sc_values_count c \<Longrightarrow> mapped (seg_base (sc_values_items c ! nat i))"
  by (auto simp: segments_open_def list_all_length dest!: spec [of _ "nat i"])

lemma get_value_segment_open:
  "segments_open c \<Longrightarrow> 0 \<le> i \<Longrightarrow> i < sc_values_count c \<Longrightarrow>
   shmopt_get_value_segment c i = (seg_base (sc_values_items c ! nat i), c)"
  by (simp add: shmopt_get_value_segment_def)

end
