(* ===== verification/EntryPtr.thy ===== *)
theory EntryPtr
  imports ShmOpt
begin

text \<open>
  The 64 bit offsets that link the entries of the value segments, from
  \<^verbatim>\<open>union shm_hentry_offset\<close> and the inline functions of \<^verbatim>\<open>src/src/shm_value_allocator.h\<close>: a signed
  16 bit segment index in the low bits (with the bit \<^verbatim>\<open>0x4000\<close> set, so that no entry offset is
  zero) and a signed 48 bit offset above it.
\<close>

section \<open>The packed offset\<close>

definition hentry_pack :: "int \<Rightarrow> int \<Rightarrow> int" where
  "hentry_pack index offset = signed_take_bit 63 (take_bit 16 index + 2 ^ 16 * take_bit 48 offset)"

definition hentry_index :: "int \<Rightarrow> int" where
  "hentry_index offset = signed_take_bit 15 offset"

definition hentry_offset :: "int \<Rightarrow> int" where
  "hentry_offset offset = signed_take_bit 47 (drop_bit 16 offset)"

definition shm_get_hentry_offset :: "shm_hash_entry \<Rightarrow> int" where
  "shm_get_hentry_offset entry =
     hentry_pack (ssp_segment (he_index entry) OR 0x4000) (he_offset entry)"

text \<open>The address that an offset names, and the offset of an address.\<close>

definition hentry_loc :: "int \<Rightarrow> entry_loc" where
  "hentry_loc offset = (hentry_index offset AND 0xFF, hentry_offset offset)"

definition loc_offset :: "entry_loc \<Rightarrow> int" where
  "loc_offset l = hentry_pack (fst l OR 0x4000) (snd l)"

text \<open>The addresses that the packed form can hold.\<close>

definition loc_ok :: "entry_loc \<Rightarrow> bool" where
  "loc_ok l \<longleftrightarrow> 0 \<le> fst l \<and> fst l < 256 \<and> 0 \<le> snd l \<and> snd l < 2 ^ 47"

lemma or_0x4000:
  assumes "0 \<le> s" and "s < 256"
  shows "s OR 0x4000 = s + (0x4000 :: int)"
proof -
  have "\<not> bit s 14"
    using assms by (simp add: bit_iff_odd div_pos_pos_trivial)
  then have "s AND 2 ^ 14 = 0"
    by (simp only: and_exp_eq_0_iff_not_bit not_False_eq_True)
  then show ?thesis
    using plus_and_or [of s "2 ^ 14"] by simp
qed

lemma loc_offset_eq:
  assumes "loc_ok l"
  shows "loc_offset l = fst l + 0x4000 + 2 ^ 16 * snd l"
proof -
  have "take_bit 16 (fst l + 0x4000) = fst l + (0x4000 :: int)" "take_bit 48 (snd l) = snd l"
    using assms by (simp_all add: loc_ok_def take_bit_int_eq_self)
  moreover have "signed_take_bit 63 (fst l + 0x4000 + 2 ^ 16 * snd l) = fst l + 0x4000 + 2 ^ 16 * snd l"
    using assms by (intro signed_take_bit_int_eq_self) (simp_all add: loc_ok_def)
  ultimately show ?thesis
    using assms by (simp add: loc_offset_def hentry_pack_def or_0x4000 loc_ok_def)
qed

lemma loc_offset_pos: "loc_ok l \<Longrightarrow> 0 < loc_offset l"
  by (simp add: loc_offset_eq) (simp add: loc_ok_def)

lemma and_0xFF: "x AND 0xFF = take_bit 8 (x :: int)"
  by (simp add: take_bit_eq_mask mask_eq_exp_minus_1)

lemma hentry_loc_eq: "hentry_loc x = (x mod 256, signed_take_bit 47 (x div 2 ^ 16))"
proof -
  have "hentry_index x AND 0xFF = take_bit 8 x"
    by (simp add: hentry_index_def and_0xFF take_bit_signed_take_bit)
  then show ?thesis
    by (simp add: hentry_loc_def hentry_offset_def drop_bit_eq_div take_bit_eq_mod)
qed

text \<open>The address of a packed offset is the address it was made from.\<close>

lemma hentry_loc_loc_offset [simp]:
  assumes "loc_ok l"
  shows "hentry_loc (loc_offset l) = l"
proof -
  have bounds: "0 \<le> fst l" "fst l < 256" "0 \<le> snd l" "snd l < 2 ^ 47"
    using assms by (auto simp: loc_ok_def)
  let ?x = "fst l + 0x4000 + 2 ^ 16 * snd l"
  have "?x = fst l + 256 * (64 + 256 * snd l)" by simp
  then have "?x mod 256 = fst l"
    using bounds by (simp only: mod_mult_self2) simp
  moreover have "?x div 2 ^ 16 = snd l"
    using bounds by simp
  moreover have "signed_take_bit 47 (snd l) = snd l"
    using bounds by (intro signed_take_bit_int_eq_self) simp_all
  ultimately show ?thesis
    using assms by (simp add: hentry_loc_eq loc_offset_eq prod_eq_iff)
qed

lemma loc_offset_inj: "loc_ok l \<Longrightarrow> loc_ok l' \<Longrightarrow> (loc_offset l = loc_offset l') = (l = l')"
  by (metis hentry_loc_loc_offset)

lemma loc_offset_get:
  "he_index e = \<lparr>ssp_segment = fst l, ssp_striping = j\<rparr> \<Longrightarrow> he_offset e = snd l \<Longrightarrow>
   shm_get_hentry_offset e = loc_offset l"
  by (simp add: shm_get_hentry_offset_def loc_offset_def)

text \<open>The offset of the list head, made by \<^verbatim>\<open>shm_list_set\<close>, differs from every entry offset.\<close>

definition head_offset :: int where
  "head_offset = hentry_pack (- 1) offsetof_hashtable_head"

lemma head_offset_eq: "head_offset = 28901375"
  by (simp add: head_offset_def hentry_pack_def take_bit_minus_one_eq_mask mask_eq_exp_minus_1)

lemma loc_offset_not_head:
  assumes "loc_ok l"
  shows "loc_offset l \<noteq> head_offset"
proof
  assume "loc_offset l = head_offset"
  then have "(fst l + 0x4000 + 2 ^ 16 * snd l) mod 2 ^ 16 = 28901375 mod (2 ^ 16 :: int)"
    using assms by (simp only: loc_offset_eq head_offset_eq)
  then have "(fst l + 0x4000) mod 2 ^ 16 = (65535 :: int)"
    by (simp only: mod_mult_self2) simp
  then show False
    using assms by (simp add: loc_ok_def)
qed

section \<open>Pointers\<close>

text \<open>
  A pointer to an entry is its address, or nothing when it cannot be dereferenced: \<^verbatim>\<open>NULL\<close>, or a
  pointer into a segment whose mapping failed (no caller compares it with \<^verbatim>\<open>NULL\<close>). Taking it may open value segments,
  so the context is passed through.
\<close>

definition shm_get_hentry_ptr :: "shmcache_context \<Rightarrow> int \<Rightarrow> entry_loc option \<times> shmcache_context" where
  "shm_get_hentry_ptr c offset =
     (let (base, c) = shmopt_get_value_segment c (hentry_index offset AND 0xFF) in
      (if mapped base then Some (hentry_index offset AND 0xFF, hentry_offset offset) else None, c))"

text \<open>Reading and writing through an entry pointer; \<^const>\<open>None\<close> is the invalid access.\<close>

definition hentry_read :: "shmcache_context \<Rightarrow> entry_loc option \<Rightarrow> shm_hash_entry option" where
  "hentry_read c p = Option.bind p (sc_entries c)"

definition hentry_write ::
  "(shm_hash_entry \<Rightarrow> shm_hash_entry) \<Rightarrow> shmcache_context \<Rightarrow> entry_loc option \<Rightarrow> shmcache_context option" where
  "hentry_write f c p =
     (case p of None \<Rightarrow> None
      | Some l \<Rightarrow> (case sc_entries c l of None \<Rightarrow> None
                 | Some e \<Rightarrow> Some (c\<lparr>sc_entries := (sc_entries c)(l \<mapsto> f e)\<rparr>)))"

text \<open>
  \<^verbatim>\<open>shm_get_value_ptr\<close>: the value bytes lie behind the key in the entry's own block, so the pointer
  is the entry's block, or \<^verbatim>\<open>NULL\<close> when its segment cannot be opened.
\<close>

definition shm_get_value_ptr :: "shmcache_context \<Rightarrow> shm_hash_entry \<Rightarrow> entry_loc option \<times> shmcache_context" where
  "shm_get_value_ptr c entry =
     (let (base, c) = shmopt_get_value_segment c (ssp_segment (he_index entry)) in
      (if mapped base then Some (ssp_segment (he_index entry), he_offset entry) else None, c))"

lemma shm_get_hentry_ptr_loc:
  assumes "segments_open c" and "loc_ok l" and "fst l < sc_values_count c"
  shows "shm_get_hentry_ptr c (loc_offset l) = (Some l, c)"
proof -
  have l: "(hentry_index (loc_offset l) AND 0xFF, hentry_offset (loc_offset l)) = l"
    using hentry_loc_loc_offset [OF assms(2)] by (simp add: hentry_loc_def)
  then have "hentry_index (loc_offset l) AND 0xFF = fst l" by (metis fst_conv)
  moreover have "0 \<le> fst l" using assms(2) by (simp add: loc_ok_def)
  ultimately show ?thesis
    using l get_value_segment_open [OF assms(1), of "fst l"] segments_open_base [OF assms(1), of "fst l"] assms(3)
    by (simp add: shm_get_hentry_ptr_def)
qed

end
