(* ===== verification/ShmList.thy ===== *)
theory ShmList
  imports EntryPtr
begin

text \<open>
  \<^verbatim>\<open>src/src/shm_list.h\<close>: the circular doubly linked list of all entries in insertion order, which the
  recycling walks. Its links are packed offsets, its head lives in the shared header.
  The abstraction is the list of the entries' addresses; every operation is shown to do on that
  list what its name says.
\<close>

section \<open>List operations\<close>

datatype list_ptr = Head_Ptr | Entry_Ptr entry_loc

definition shm_list_ptr :: "shmcache_context \<Rightarrow> int \<Rightarrow> list_ptr option \<times> shmcache_context" where
  "shm_list_ptr c obj_offset =
     (if obj_offset = sc_list_head_offset c then (Some Head_Ptr, c)
      else (let (p, c) = shm_get_hentry_ptr c obj_offset in (map_option Entry_Ptr p, c)))"

definition list_read :: "shmcache_context \<Rightarrow> list_ptr option \<Rightarrow> shm_list option" where
  "list_read c p =
     (case p of None \<Rightarrow> None
      | Some Head_Ptr \<Rightarrow> Some (mi_head (sc_memory c))
      | Some (Entry_Ptr l) \<Rightarrow> map_option he_list (sc_entries c l))"

definition list_write ::
  "(shm_list \<Rightarrow> shm_list) \<Rightarrow> shmcache_context \<Rightarrow> list_ptr option \<Rightarrow> shmcache_context option" where
  "list_write f c p =
     (case p of None \<Rightarrow> None
      | Some Head_Ptr \<Rightarrow> Some (sc_memory_update (mi_head_update f) c)
      | Some (Entry_Ptr l) \<Rightarrow> hentry_write (he_list_update f) c (Some l))"

definition shm_list_set :: "shmcache_context \<Rightarrow> shmcache_context" where
  "shm_list_set c = c\<lparr>sc_list_head_offset := hentry_pack (- 1) offsetof_hashtable_head\<rparr>"

definition shm_list_init :: "shmcache_context \<Rightarrow> shmcache_context" where
  "shm_list_init c =
     sc_memory_update (mi_head_update
       (\<lambda>_. \<lparr>sl_prev = sc_list_head_offset c, sl_next = sc_list_head_offset c\<rparr>)) c"

definition SHM_LIST_ADD_TO_TAIL ::
  "shmcache_context \<Rightarrow> list_ptr option \<Rightarrow> int \<Rightarrow> shmcache_context option" where
  "SHM_LIST_ADD_TO_TAIL c node obj_offset = do {
     c \<leftarrow> list_write (sl_next_update (\<lambda>_. sc_list_head_offset c)) c node;
     c \<leftarrow> list_write (sl_prev_update (\<lambda>_. sl_prev (mi_head (sc_memory c)))) c node;
     let (p, c) = shm_list_ptr c (sl_prev (mi_head (sc_memory c)));
     c \<leftarrow> list_write (sl_next_update (\<lambda>_. obj_offset)) c p;
     Some (sc_memory_update (mi_head_update (sl_prev_update (\<lambda>_. obj_offset))) c)
   }"

definition shm_list_add_tail :: "shmcache_context \<Rightarrow> int \<Rightarrow> shmcache_context option" where
  "shm_list_add_tail c obj_offset =
     (let (node, c) = shm_list_ptr c obj_offset in SHM_LIST_ADD_TO_TAIL c node obj_offset)"

text \<open>The two statements that take a node out of its neighbours' links.\<close>

definition list_unlink :: "shmcache_context \<Rightarrow> list_ptr option \<Rightarrow> shmcache_context option" where
  "list_unlink c node = do {
     n \<leftarrow> list_read c node;
     let (p, c) = shm_list_ptr c (sl_prev n);
     c \<leftarrow> list_write (sl_next_update (\<lambda>_. sl_next n)) c p;
     n \<leftarrow> list_read c node;
     let (q, c) = shm_list_ptr c (sl_next n);
     list_write (sl_prev_update (\<lambda>_. sl_prev n)) c q
   }"

definition shm_list_delete :: "shmcache_context \<Rightarrow> int \<Rightarrow> shmcache_context option" where
  "shm_list_delete c obj_offset =
     (let (node, c) = shm_list_ptr c obj_offset in do {
        n \<leftarrow> list_read c node;
        if sl_next n = obj_offset then Some c
        else do {
          c \<leftarrow> list_unlink c node;
          list_write (\<lambda>_. \<lparr>sl_prev = obj_offset, sl_next = obj_offset\<rparr>) c node
        }
      })"

definition shm_list_move_tail :: "shmcache_context \<Rightarrow> int \<Rightarrow> shmcache_context option" where
  "shm_list_move_tail c obj_offset =
     (let (node, c) = shm_list_ptr c obj_offset in do {
        c \<leftarrow> list_unlink c node;
        SHM_LIST_ADD_TO_TAIL c node obj_offset
      })"

definition shm_list_empty :: "shmcache_context \<Rightarrow> bool" where
  "shm_list_empty c \<longleftrightarrow> sl_next (mi_head (sc_memory c)) = sc_list_head_offset c"

definition shm_list_first :: "shmcache_context \<Rightarrow> int" where
  "shm_list_first c =
     (if sl_next (mi_head (sc_memory c)) = sc_list_head_offset c then - 1
      else sl_next (mi_head (sc_memory c)))"

definition shm_list_next :: "shmcache_context \<Rightarrow> int \<Rightarrow> (int \<times> shmcache_context) option" where
  "shm_list_next c current_offset =
     (let (node, c) = shm_list_ptr c current_offset in do {
        n \<leftarrow> list_read c node;
        Some (if sl_next n = sc_list_head_offset c then - 1 else sl_next n, c)
      })"

partial_function (option) list_count_loop ::
  "shmcache_context \<Rightarrow> int \<Rightarrow> int \<Rightarrow> (int \<times> shmcache_context) option" where [code]:
  "list_count_loop c offset count =
     (if offset = sc_list_head_offset c then Some (count, c)
      else (let (p, c) = shm_list_ptr c offset in do {
        n \<leftarrow> list_read c p;
        list_count_loop c (sl_next n) (count + 1)
      }))"

definition shm_list_count :: "shmcache_context \<Rightarrow> (int \<times> shmcache_context) option" where
  "shm_list_count c = list_count_loop c (sl_next (mi_head (sc_memory c))) 0"

section \<open>Nodes and their updates\<close>

definition loc_live :: "shmcache_context \<Rightarrow> entry_loc \<Rightarrow> bool" where
  "loc_live c l \<longleftrightarrow> loc_ok l \<and> fst l < sc_values_count c \<and> sc_entries c l \<noteq> None"

definition ctx_ok :: "shmcache_context \<Rightarrow> bool" where
  "ctx_ok c \<longleftrightarrow> segments_open c \<and> sc_list_head_offset c = head_offset"

abbreviation entry :: "shmcache_context \<Rightarrow> entry_loc \<Rightarrow> shm_hash_entry" where
  "entry c l \<equiv> the (sc_entries c l)"

definition upd_entry :: "(shm_hash_entry \<Rightarrow> shm_hash_entry) \<Rightarrow> shmcache_context \<Rightarrow> entry_loc \<Rightarrow> shmcache_context" where
  "upd_entry f c l = c\<lparr>sc_entries := (sc_entries c)(l := map_option f (sc_entries c l))\<rparr>"

fun ptr_off :: "list_ptr \<Rightarrow> int" where
  "ptr_off Head_Ptr = head_offset"
| "ptr_off (Entry_Ptr l) = loc_offset l"

fun ptr_ok :: "shmcache_context \<Rightarrow> list_ptr \<Rightarrow> bool" where
  "ptr_ok c Head_Ptr = True"
| "ptr_ok c (Entry_Ptr l) = loc_live c l"

fun node :: "shmcache_context \<Rightarrow> list_ptr \<Rightarrow> shm_list" where
  "node c Head_Ptr = mi_head (sc_memory c)"
| "node c (Entry_Ptr l) = he_list (entry c l)"

fun set_node :: "(shm_list \<Rightarrow> shm_list) \<Rightarrow> shmcache_context \<Rightarrow> list_ptr \<Rightarrow> shmcache_context" where
  "set_node f c Head_Ptr = sc_memory_update (mi_head_update f) c"
| "set_node f c (Entry_Ptr l) = upd_entry (he_list_update f) c l"

lemma ptr_off_inj: "ptr_ok c p \<Longrightarrow> ptr_ok c q \<Longrightarrow> (ptr_off p = ptr_off q) = (p = q)"
  by (cases p; cases q)
    (auto simp: loc_live_def loc_offset_inj loc_offset_not_head loc_offset_not_head [symmetric])

lemma loc_offset_ne_head: "loc_live c l \<Longrightarrow> loc_offset l \<noteq> head_offset"
  by (simp add: loc_live_def loc_offset_not_head)

lemma get_hentry_ptr_live:
  "ctx_ok c \<Longrightarrow> loc_live c l \<Longrightarrow> shm_get_hentry_ptr c (loc_offset l) = (Some l, c)"
  by (simp add: ctx_ok_def loc_live_def shm_get_hentry_ptr_loc)

lemma list_ptr_ok: "ctx_ok c \<Longrightarrow> ptr_ok c p \<Longrightarrow> shm_list_ptr c (ptr_off p) = (Some p, c)"
  by (cases p) (simp_all add: shm_list_ptr_def ctx_ok_def loc_offset_ne_head
      get_hentry_ptr_live [unfolded ctx_ok_def])

lemma list_read_ok: "ptr_ok c p \<Longrightarrow> list_read c (Some p) = Some (node c p)"
  by (cases p) (auto simp: list_read_def loc_live_def)

lemma hentry_write_live: "loc_live c l \<Longrightarrow> hentry_write f c (Some l) = Some (upd_entry f c l)"
  by (auto simp: hentry_write_def upd_entry_def loc_live_def)

lemma hentry_read_live: "loc_live c l \<Longrightarrow> hentry_read c (Some l) = Some (entry c l)"
  by (auto simp: hentry_read_def loc_live_def)

lemma list_write_ok: "ptr_ok c p \<Longrightarrow> list_write f c (Some p) = Some (set_node f c p)"
  by (cases p) (simp_all add: list_write_def hentry_write_live)

lemma entry_upd_entry [simp]:
  "sc_entries c l \<noteq> None \<Longrightarrow> entry (upd_entry f c l) l' = (if l' = l then f (entry c l) else entry c l')"
  by (auto simp: upd_entry_def)

lemma loc_live_upd_entry [simp]: "loc_live (upd_entry f c l) l' = loc_live c l'"
  by (auto simp: loc_live_def upd_entry_def)

lemma ptr_ok_set_node [simp]: "ptr_ok (set_node f c p) q = ptr_ok c q"
  by (cases p; cases q) (auto simp: loc_live_def upd_entry_def)

lemma ctx_ok_set_node [simp]: "ctx_ok (set_node f c p) = ctx_ok c"
  by (cases p) (auto simp: ctx_ok_def segments_open_def upd_entry_def)

lemma head_offset_set_node [simp]: "sc_list_head_offset (set_node f c p) = sc_list_head_offset c"
  by (cases p) (simp_all add: upd_entry_def)

lemma node_set_node [simp]:
  "ptr_ok c p \<Longrightarrow> node (set_node f c p) q = (if q = p then f (node c p) else node c q)"
  by (cases p; cases q) (auto simp: loc_live_def upd_entry_def)

declare node.simps [simp del] set_node.simps [simp del] ptr_ok.simps [simp del] ptr_off.simps [simp del]

lemma mi_head_node: "mi_head (sc_memory c) = node c Head_Ptr"
  by (simp add: node.simps)

lemma ptr_ok_Head [simp]: "ptr_ok c Head_Ptr"
  by (simp add: ptr_ok.simps)

section \<open>The list as a sequence of addresses\<close>

definition edge :: "shmcache_context \<Rightarrow> list_ptr \<Rightarrow> list_ptr \<Rightarrow> bool" where
  "edge c p q \<longleftrightarrow> sl_next (node c p) = ptr_off q \<and> sl_prev (node c q) = ptr_off p"

definition dlist :: "shmcache_context \<Rightarrow> entry_loc list \<Rightarrow> bool" where
  "dlist c L \<longleftrightarrow> distinct L \<and> list_all (loc_live c) L
     \<and> successively (edge c) (Head_Ptr # map Entry_Ptr L @ [Head_Ptr])"

lemma successively_ends:
  "successively P xs \<Longrightarrow> (\<And>a b. a \<in> set (butlast xs) \<Longrightarrow> b \<in> set (tl xs) \<Longrightarrow> P a b \<Longrightarrow> Q a b)
   \<Longrightarrow> successively Q xs"
proof (induction P xs rule: successively.induct)
  case (3 P x y xs)
  have "successively Q (y # xs)"
    using "3.prems" by (intro "3.IH") (auto split: if_splits)
  then show ?case using "3.prems" by auto
qed auto

lemma distinct_last_notin: "distinct xs \<Longrightarrow> xs \<noteq> [] \<Longrightarrow> last xs \<notin> set (butlast xs)"
  by (induction xs) auto

lemma distinct_hd_notin: "distinct xs \<Longrightarrow> xs \<noteq> [] \<Longrightarrow> hd xs \<notin> set (tl xs)"
  by (cases xs) auto

lemma successively_snoc2:
  "A \<noteq> [] \<Longrightarrow> successively P (A @ [x]) = (successively P A \<and> P (last A) x)"
  by (simp add: successively_append_iff)

lemma successively_mid:
  "A \<noteq> [] \<Longrightarrow> B \<noteq> [] \<Longrightarrow> successively P (A @ x # B)
   = (successively P A \<and> P (last A) x \<and> P x (hd B) \<and> successively P B)"
  by (cases B) (auto simp: successively_append_iff)

lemma successively_join:
  "A \<noteq> [] \<Longrightarrow> B \<noteq> [] \<Longrightarrow> successively P (A @ B) = (successively P A \<and> P (last A) (hd B) \<and> successively P B)"
  by (auto simp: successively_append_iff)

lemma dlist_live: "dlist c L \<Longrightarrow> l \<in> set L \<Longrightarrow> loc_live c l"
  by (simp add: dlist_def list_all_iff)

lemma dlist_distinct: "dlist c L \<Longrightarrow> distinct L"
  by (simp add: dlist_def)

text \<open>The list only depends on the links and on which addresses are live.\<close>

lemma dlist_cong:
  assumes "dlist c L" and "\<And>l. l \<in> set L \<Longrightarrow> loc_live c' l"
    and "node c' Head_Ptr = node c Head_Ptr"
    and "\<And>l. l \<in> set L \<Longrightarrow> he_list (entry c' l) = he_list (entry c l)"
  shows "dlist c' L"
proof -
  have "node c' p = node c p" if "p \<in> set (Head_Ptr # map Entry_Ptr L @ [Head_Ptr])" for p
    using that assms(3,4) by (auto simp: node.simps)
  then have "edge c' a b = edge c a b"
    if "a \<in> set (Head_Ptr # map Entry_Ptr L @ [Head_Ptr])" "b \<in> set (Head_Ptr # map Entry_Ptr L @ [Head_Ptr])" for a b
    using that by (simp only: edge_def)
  then have "successively (edge c') (Head_Ptr # map Entry_Ptr L @ [Head_Ptr])"
    using assms(1) unfolding dlist_def
    by (metis (no_types, lifting) in_set_butlastD list.set_sel(2) successively_ends tl_Nil empty_iff list.set(1))
  then show ?thesis using assms(1,2) by (simp add: dlist_def list_all_iff)
qed

subsection \<open>Initialisation and traversal\<close>

lemma dlist_init: "ctx_ok c \<Longrightarrow> dlist (shm_list_init c) []"
  by (simp add: dlist_def edge_def node.simps ptr_off.simps shm_list_init_def ctx_ok_def)

lemma dlist_first:
  assumes "ctx_ok c" and "dlist c L"
  shows "shm_list_first c = (case L of [] \<Rightarrow> - 1 | l # _ \<Rightarrow> loc_offset l)"
  using assms by (cases L)
    (auto simp: shm_list_first_def mi_head_node dlist_def edge_def ptr_off.simps ctx_ok_def
      dest: loc_offset_ne_head)

lemma dlist_next:
  assumes "ctx_ok c" and "dlist c (A @ l # B)"
  shows "shm_list_next c (loc_offset l) = Some (case B of [] \<Rightarrow> - 1 | m # _ \<Rightarrow> loc_offset m, c)"
proof -
  have l: "ptr_ok c (Entry_Ptr l)"
    using assms(2) by (simp add: dlist_def ptr_ok.simps)
  have "edge c (Entry_Ptr l) (hd (map Entry_Ptr B @ [Head_Ptr]))"
    using assms(2) successively_mid [of "Head_Ptr # map Entry_Ptr A" "map Entry_Ptr B @ [Head_Ptr]" "edge c" "Entry_Ptr l"]
    by (simp add: dlist_def)
  then have "sl_next (node c (Entry_Ptr l)) = (case B of [] \<Rightarrow> head_offset | m # _ \<Rightarrow> loc_offset m)"
    by (cases B) (simp_all add: edge_def ptr_off.simps)
  then show ?thesis
    using list_ptr_ok [OF assms(1) l] list_read_ok [OF l] assms
    by (cases B)
      (auto simp: shm_list_next_def ptr_off.simps ctx_ok_def dlist_def dest: loc_offset_ne_head)
qed

lemma list_count_loop:
  assumes "ctx_ok c" and "dlist c (A @ B)"
  shows "list_count_loop c (ptr_off (hd (map Entry_Ptr B @ [Head_Ptr]))) n = Some (n + int (length B), c)"
  using assms(2)
proof (induction B arbitrary: A n)
  case Nil
  then show ?case
    using assms(1) by (simp add: list_count_loop.simps ptr_off.simps ctx_ok_def)
next
  case (Cons l B)
  have l: "ptr_ok c (Entry_Ptr l)"
    using Cons.prems by (simp add: dlist_def ptr_ok.simps)
  have "edge c (Entry_Ptr l) (hd (map Entry_Ptr B @ [Head_Ptr]))"
    using Cons.prems successively_mid [of "Head_Ptr # map Entry_Ptr A" "map Entry_Ptr B @ [Head_Ptr]" "edge c" "Entry_Ptr l"]
    by (simp add: dlist_def)
  then have "sl_next (node c (Entry_Ptr l)) = ptr_off (hd (map Entry_Ptr B @ [Head_Ptr]))"
    by (simp add: edge_def)
  moreover have "loc_offset l \<noteq> sc_list_head_offset c"
    using l assms(1) by (auto simp: ctx_ok_def ptr_ok.simps dest: loc_offset_ne_head)
  moreover have "list_count_loop c (ptr_off (hd (map Entry_Ptr B @ [Head_Ptr]))) (n + 1)
      = Some (n + 1 + int (length B), c)"
    using Cons.IH [of "A @ [l]"] Cons.prems by simp
  ultimately show ?case
    using list_ptr_ok [OF assms(1) l] list_read_ok [OF l]
    by (subst list_count_loop.simps) (simp add: ptr_off.simps)
qed

lemma dlist_count:
  assumes "ctx_ok c" and "dlist c L"
  shows "shm_list_count c = Some (int (length L), c)"
proof -
  have "sl_next (mi_head (sc_memory c)) = ptr_off (hd (map Entry_Ptr L @ [Head_Ptr]))"
    using assms(2) by (cases L) (simp_all add: mi_head_node dlist_def edge_def)
  then show ?thesis
    using list_count_loop [OF assms(1), of "[]" L 0] assms(2) by (simp add: shm_list_count_def)
qed

section \<open>Contexts that differ in the links only\<close>

definition blank_list :: "shm_hash_entry \<Rightarrow> shm_hash_entry" where
  "blank_list e = e\<lparr>he_list := \<lparr>sl_prev = 0, sl_next = 0\<rparr>\<rparr>"

definition relinked :: "shmcache_context \<Rightarrow> shmcache_context \<Rightarrow> bool" where
  "relinked c c' \<longleftrightarrow> (\<exists>H E. c' = c\<lparr>sc_memory := (sc_memory c)\<lparr>mi_head := H\<rparr>, sc_entries := E\<rparr>
     \<and> (\<forall>l. map_option blank_list (E l) = map_option blank_list (sc_entries c l)))"

lemma relinked_refl [simp]: "relinked c c"
  unfolding relinked_def by (rule exI [of _ "mi_head (sc_memory c)"], rule exI [of _ "sc_entries c"]) simp

lemma relinked_trans: "relinked c c' \<Longrightarrow> relinked c' c'' \<Longrightarrow> relinked c c''"
  unfolding relinked_def by (clarsimp, metis)

lemma relinked_set_node: "relinked c (set_node f c p)"
proof (cases p)
  case Head_Ptr
  have "sc_memory_update (mi_head_update f) c =
      c\<lparr>sc_memory := (sc_memory c)\<lparr>mi_head := f (mi_head (sc_memory c))\<rparr>, sc_entries := sc_entries c\<rparr>"
    by simp
  then show ?thesis
    unfolding Head_Ptr relinked_def set_node.simps by blast
next
  case (Entry_Ptr l)
  let ?E = "(sc_entries c)(l := map_option (he_list_update f) (sc_entries c l))"
  have "upd_entry (he_list_update f) c l =
      c\<lparr>sc_memory := (sc_memory c)\<lparr>mi_head := mi_head (sc_memory c)\<rparr>, sc_entries := ?E\<rparr>"
    by (simp add: upd_entry_def)
  moreover have "map_option blank_list (?E l') = map_option blank_list (sc_entries c l')" for l'
    by (cases "sc_entries c l") (auto simp: blank_list_def)
  ultimately show ?thesis
    unfolding Entry_Ptr relinked_def set_node.simps by blast
qed

lemma relinked_entries:
  assumes "relinked c c'"
  shows "map_option blank_list (sc_entries c' l) = map_option blank_list (sc_entries c l)"
  using assms by (cases l) (auto simp: relinked_def)

lemma relinked_blank:
  "relinked c c' \<Longrightarrow> sc_entries c l \<noteq> None \<Longrightarrow> blank_list (entry c' l) = blank_list (entry c l)"
  using relinked_entries [of c c' l] by (cases "sc_entries c' l"; cases "sc_entries c l") auto

lemma relinked_fields [frame_simps]:
  assumes "relinked c c'" and "sc_entries c l \<noteq> None"
  shows "he_key_len (entry c' l) = he_key_len (entry c l)"
    and "he_expires (entry c' l) = he_expires (entry c l)"
    and "he_value_length (entry c' l) = he_value_length (entry c l)"
    and "he_value_options (entry c' l) = he_value_options (entry c l)"
    and "he_size (entry c' l) = he_size (entry c l)"
    and "he_index (entry c' l) = he_index (entry c l)"
    and "he_offset (entry c' l) = he_offset (entry c l)"
    and "he_ht_next (entry c' l) = he_ht_next (entry c l)"
    and "he_key (entry c' l) = he_key (entry c l)"
    and "he_data (entry c' l) = he_data (entry c l)"
  using relinked_blank [OF assms] unfolding blank_list_def by (metis shm_hash_entry.select_convs
      shm_hash_entry.surjective shm_hash_entry.update_convs(1))+

lemma relinked_context:
  assumes "relinked c c'"
  obtains H E where "c' = c\<lparr>sc_memory := (sc_memory c)\<lparr>mi_head := H\<rparr>, sc_entries := E\<rparr>"
  using assms by (auto simp: relinked_def)

lemma relinked_None [frame_simps]: "relinked c c' \<Longrightarrow> (sc_entries c' l = None) = (sc_entries c l = None)"
  using relinked_entries [of c c' l] by (metis map_option_is_None)

lemma relinked_live [frame_simps]: "relinked c c' \<Longrightarrow> loc_live c' l = loc_live c l"
  using relinked_None [of c c' l] by (auto simp: loc_live_def elim!: relinked_context)

lemma relinked_ctx_ok [frame_simps]: "relinked c c' \<Longrightarrow> ctx_ok c' = ctx_ok c"
  by (auto simp: ctx_ok_def segments_open_def elim!: relinked_context)

section \<open>The operations on the sequence\<close>

lemma distinct_Head_map: "distinct L \<Longrightarrow> distinct (Head_Ptr # map Entry_Ptr L)"
  by (auto simp: distinct_map inj_on_def)

lemma add_to_tail:
  assumes "ctx_ok c" and "dlist c L" and "loc_live c l" and "l \<notin> set L"
  obtains c' where "SHM_LIST_ADD_TO_TAIL c (Some (Entry_Ptr l)) (loc_offset l) = Some c'"
    "dlist c' (L @ [l])" "relinked c c'"
proof -
  let ?A = "Head_Ptr # map Entry_Ptr L" and ?p = "Entry_Ptr l"
  define q where "q = last ?A"
  have es: "successively (edge c) ?A" "edge c q Head_Ptr"
    using assms(2) successively_snoc2 [of ?A "edge c" Head_Ptr] by (simp_all add: dlist_def q_def)
  have ok: "ptr_ok c ?p" "ptr_ok c q"
    using assms(2,3) by (auto simp: ptr_ok.simps dlist_def list_all_iff q_def last_map)
  have qp: "q \<noteq> ?p"
    using assms(4) by (auto simp: q_def last_map)
  have prev: "sl_prev (node c Head_Ptr) = ptr_off q"
    using es(2) by (simp add: edge_def)
  let ?c1 = "set_node (sl_next_update (\<lambda>_. head_offset)) c ?p"
  let ?c2 = "set_node (sl_prev_update (\<lambda>_. ptr_off q)) ?c1 ?p"
  let ?c3 = "set_node (sl_next_update (\<lambda>_. loc_offset l)) ?c2 q"
  let ?c4 = "set_node (sl_prev_update (\<lambda>_. loc_offset l)) ?c3 Head_Ptr"
  have ho: "sc_list_head_offset c = head_offset"
    using assms(1) by (simp add: ctx_ok_def)
  have run: "SHM_LIST_ADD_TO_TAIL c (Some ?p) (loc_offset l) = Some ?c4"
    using ok prev assms(1)
    by (simp add: SHM_LIST_ADD_TO_TAIL_def list_write_ok list_ptr_ok mi_head_node ho)
      (simp add: set_node.simps)
  have qA: "q \<notin> set (butlast ?A)"
    unfolding q_def
    by (rule distinct_last_notin [OF distinct_Head_map [OF dlist_distinct [OF assms(2)]]]) simp
  have "successively (edge ?c4) ?A"
  proof (rule successively_ends [OF es(1)])
    fix a b assume a: "a \<in> set (butlast ?A)" and b: "b \<in> set (tl ?A)" and e: "edge c a b"
    have "a \<noteq> q" "a \<noteq> ?p" "b \<noteq> ?p" "b \<noteq> Head_Ptr"
      using a qA b assms(4) in_set_butlastD [OF a] by auto
    then show "edge ?c4 a b" using e ok by (auto simp: edge_def)
  qed
  moreover have "edge ?c4 q ?p" "edge ?c4 ?p Head_Ptr"
    using ok qp by (auto simp: edge_def ptr_off.simps)
  ultimately have "successively (edge ?c4) (?A @ ?p # [Head_Ptr])"
    using successively_mid [of ?A "[Head_Ptr]" "edge ?c4" ?p] unfolding q_def by simp
  then have "dlist ?c4 (L @ [l])"
    using assms(2-4) by (simp add: dlist_def list_all_iff flip: ptr_ok.simps(2))
  moreover have "relinked c ?c4"
    by (blast intro: relinked_trans relinked_set_node)
  ultimately show thesis using run that by blast
qed

lemma dlist_add_tail:
  assumes "ctx_ok c" and "dlist c L" and "loc_live c l" and "l \<notin> set L"
  obtains c' where "shm_list_add_tail c (loc_offset l) = Some c'" "dlist c' (L @ [l])" "relinked c c'"
proof -
  have "shm_list_ptr c (loc_offset l) = (Some (Entry_Ptr l), c)"
    using list_ptr_ok [OF assms(1), of "Entry_Ptr l"] assms(3) by (simp add: ptr_ok.simps ptr_off.simps)
  then show thesis
    using add_to_tail [OF assms] that by (auto simp: shm_list_add_tail_def)
qed

lemma list_unlink:
  assumes "ctx_ok c" and "dlist c (A @ l # B)"
  obtains c' where "list_unlink c (Some (Entry_Ptr l)) = Some c'" "dlist c' (A @ B)" "relinked c c'"
    "node c' (Entry_Ptr l) = node c (Entry_Ptr l)"
proof -
  let ?A = "Head_Ptr # map Entry_Ptr A" and ?B = "map Entry_Ptr B @ [Head_Ptr]" and ?p = "Entry_Ptr l"
  define q r where "q = last ?A" and "r = hd ?B"
  have dist: "distinct A" "distinct B" "l \<notin> set A" "l \<notin> set B" "set A \<inter> set B = {}"
    using dlist_distinct [OF assms(2)] by auto
  have es: "successively (edge c) ?A" "edge c q ?p" "edge c ?p r" "successively (edge c) ?B"
    using assms(2) successively_mid [of ?A ?B "edge c" ?p] by (simp_all add: dlist_def q_def r_def)
  have ok: "ptr_ok c ?p" "ptr_ok c q" "ptr_ok c r"
    using assms(2) by (auto simp: ptr_ok.simps dlist_def list_all_iff q_def r_def last_map hd_append hd_map)
  have ne: "q \<noteq> ?p" "r \<noteq> ?p"
    using dist by (auto simp: q_def r_def last_map hd_append hd_map)
  let ?c1 = "set_node (sl_next_update (\<lambda>_. ptr_off r)) c q"
  let ?c2 = "set_node (sl_prev_update (\<lambda>_. ptr_off q)) ?c1 r"
  have np: "sl_prev (node c ?p) = ptr_off q" "sl_next (node c ?p) = ptr_off r"
    using es(2,3) by (auto simp: edge_def)
  have run: "list_unlink c (Some ?p) = Some ?c2"
    using ok ne np assms(1) by (simp add: list_unlink_def list_read_ok list_write_ok list_ptr_ok)
  have qA: "q \<notin> set (butlast ?A)"
    unfolding q_def by (rule distinct_last_notin [OF distinct_Head_map [OF dist(1)]]) simp
  have "distinct ?B" using dist(2) by (auto simp: distinct_map inj_on_def)
  then have rB: "r \<notin> set (tl ?B)"
    unfolding r_def by (rule distinct_hd_notin) simp
  have q_in: "q \<in> set ?A" and r_in: "r \<in> set ?B"
    unfolding q_def r_def by (rule last_in_set, simp) (rule hd_in_set, simp)
  have eA: "successively (edge ?c2) ?A"
  proof (rule successively_ends [OF es(1)])
    fix a b assume a: "a \<in> set (butlast ?A)" and b: "b \<in> set (tl ?A)" and e: "edge c a b"
    have "a \<noteq> q" "b \<noteq> r" using a qA b r_in dist(5) by auto
    then show "edge ?c2 a b" using e ok by (auto simp: edge_def)
  qed
  have eB: "successively (edge ?c2) ?B"
  proof (rule successively_ends [OF es(4)])
    fix a b assume a: "a \<in> set (butlast ?B)" and b: "b \<in> set (tl ?B)" and e: "edge c a b"
    have "a \<noteq> q" "b \<noteq> r" using a q_in b rB dist(5) by auto
    then show "edge ?c2 a b" using e ok by (auto simp: edge_def)
  qed
  have "edge ?c2 q r" using ok by (auto simp: edge_def)
  then have "successively (edge ?c2) (?A @ ?B)"
    using eA eB successively_join [of ?A ?B "edge ?c2"] unfolding q_def r_def by blast
  then have "dlist ?c2 (A @ B)"
    using assms(2) by (simp add: dlist_def list_all_iff flip: ptr_ok.simps(2))
  moreover have "relinked c ?c2"
    by (blast intro: relinked_trans relinked_set_node)
  moreover have "node ?c2 ?p = node c ?p" using ok ne by auto
  ultimately show thesis using run that by blast
qed

lemma dlist_delete:
  assumes "ctx_ok c" and "dlist c (A @ l # B)"
  obtains c' where "shm_list_delete c (loc_offset l) = Some c'" "dlist c' (A @ B)" "relinked c c'"
proof -
  let ?p = "Entry_Ptr l"
  have l: "ptr_ok c ?p" using assms(2) by (simp add: dlist_def ptr_ok.simps)
  have ptr: "shm_list_ptr c (loc_offset l) = (Some ?p, c)"
    using list_ptr_ok [OF assms(1) l] by (simp add: ptr_off.simps)
  have "edge c ?p (hd (map Entry_Ptr B @ [Head_Ptr]))"
    using assms(2) successively_mid [of "Head_Ptr # map Entry_Ptr A" "map Entry_Ptr B @ [Head_Ptr]" "edge c" ?p]
    by (simp add: dlist_def)
  moreover have "hd (map Entry_Ptr B @ [Head_Ptr]) \<noteq> ?p" "ptr_ok c (hd (map Entry_Ptr B @ [Head_Ptr]))"
    using assms(2) by (cases B; auto simp: dlist_def ptr_ok.simps)+
  ultimately have next_ne: "sl_next (node c ?p) \<noteq> loc_offset l"
    using ptr_off_inj [of c _ ?p] l by (simp add: edge_def ptr_off.simps)
  obtain c1 where c1: "list_unlink c (Some ?p) = Some c1" "dlist c1 (A @ B)" "relinked c c1"
    using list_unlink [OF assms] by metis
  let ?c2 = "set_node (\<lambda>_. \<lparr>sl_prev = loc_offset l, sl_next = loc_offset l\<rparr>) c1 ?p"
  have ok1: "ptr_ok c1 ?p"
    using l relinked_live [OF c1(3)] by (simp add: ptr_ok.simps)
  have "shm_list_delete c (loc_offset l) = Some ?c2"
    using next_ne ok1 by (simp add: shm_list_delete_def ptr list_read_ok l c1(1) list_write_ok)
  moreover have "dlist ?c2 (A @ B)"
  proof (rule dlist_cong [OF c1(2)])
    fix m assume m: "m \<in> set (A @ B)"
    then have "m \<noteq> l" using dlist_distinct [OF assms(2)] by auto
    then show "he_list (entry ?c2 m) = he_list (entry c1 m)"
      using ok1 node_set_node [OF ok1, of _ "Entry_Ptr m"] by (simp add: node.simps)
    show "loc_live ?c2 m" using dlist_live [OF c1(2) m] by (simp flip: ptr_ok.simps(2))
  qed (use ok1 in simp)
  moreover have "relinked c ?c2"
    using c1(3) relinked_set_node relinked_trans by blast
  ultimately show thesis using that by blast
qed

lemma dlist_move_tail:
  assumes "ctx_ok c" and "dlist c (A @ l # B)"
  obtains c' where "shm_list_move_tail c (loc_offset l) = Some c'" "dlist c' (A @ B @ [l])" "relinked c c'"
proof -
  have l: "loc_live c l" using assms(2) by (simp add: dlist_def)
  have ptr: "shm_list_ptr c (loc_offset l) = (Some (Entry_Ptr l), c)"
    using list_ptr_ok [OF assms(1), of "Entry_Ptr l"] l by (simp add: ptr_ok.simps ptr_off.simps)
  obtain c1 where c1: "list_unlink c (Some (Entry_Ptr l)) = Some c1" "dlist c1 (A @ B)" "relinked c c1"
    using list_unlink [OF assms] by metis
  have "ctx_ok c1" "loc_live c1 l" "l \<notin> set (A @ B)"
    using assms l dlist_distinct [OF assms(2)] relinked_ctx_ok [OF c1(3)] relinked_live [OF c1(3)] by auto
  then obtain c2 where "SHM_LIST_ADD_TO_TAIL c1 (Some (Entry_Ptr l)) (loc_offset l) = Some c2"
    "dlist c2 ((A @ B) @ [l])" "relinked c1 c2"
    using add_to_tail c1(2) by blast
  then show thesis
    using that c1 relinked_trans by (auto simp: shm_list_move_tail_def ptr)
qed

end
