(* ===== verification/ValueAllocator.thy ===== *)
theory ValueAllocator
  imports ShmList
begin

text \<open>
  The part of \<^verbatim>\<open>src/src/shm_value_allocator.c\<close> below the hash table: taking a block from the
  allocators of the doing queue, giving one back, and moving an emptied allocator from the done
  queue to the doing queue. A pointer to an allocator is its index in the allocator array.
\<close>

section \<open>Allocation\<close>

definition set_allocator :: "shmcache_context \<Rightarrow> nat \<Rightarrow> shm_striping_allocator \<Rightarrow> shmcache_context" where
  "set_allocator c i a = c\<lparr>sc_allocators := (sc_allocators c)[i := a]\<rparr>"

text \<open>What a block that was never used holds: the segments start out zeroed.\<close>

definition zero_entry :: shm_hash_entry where
  "zero_entry = \<lparr>he_list = \<lparr>sl_prev = 0, sl_next = 0\<rparr>, he_key_len = 0, he_expires = 0,
     he_value_length = 0, he_value_options = 0, he_size = 0,
     he_index = \<lparr>ssp_segment = 0, ssp_striping = 0\<rparr>, he_offset = 0, he_ht_next = 0,
     he_key = [], he_data = []\<rparr>"

definition old_entry :: "shmcache_context \<Rightarrow> entry_loc \<Rightarrow> shm_hash_entry" where
  "old_entry c l = (case sc_entries c l of Some e \<Rightarrow> e | None \<Rightarrow> zero_entry)"

definition shm_value_striping_alloc ::
  "shmcache_context \<Rightarrow> nat \<Rightarrow> int \<Rightarrow> (entry_loc option \<times> shmcache_context) option" where
  "shm_value_striping_alloc c i sz =
     (let (offset, a) = shm_striping_allocator_alloc (sc_allocators c ! i) (sc_g_current_time c) sz;
          c = set_allocator c i a in
      if offset < 0 then Some (None, c)
      else
        (let (base, c) = shmopt_get_value_segment c (ssp_segment (sa_index a)) in
         if base = 0 then Some (None, c)
         else if \<not> mapped base then None
         else
           (let l = (ssp_segment (sa_index a), offset);
                e = (old_entry c l)\<lparr>he_offset := offset, he_index := sa_index a, he_size := sz\<rparr>
            in Some (Some l, c\<lparr>sc_entries := (sc_entries c)(l \<mapsto> e)\<rparr>))))"

text \<open>
  An allocator that is nearly full is taken out of the doing queue; it goes to the done queue only
  if the queue reports the offset that was asked for.
\<close>

definition discard_allocator :: "shmcache_context \<Rightarrow> nat \<Rightarrow> int \<Rightarrow> shmcache_context option" where
  "discard_allocator c i allocator_off =
     (let a = sc_allocators c ! i in
      if shm_striping_allocator_free_size a \<le> cfg_discard_memory_size (sc_config c)
         \<or> sa_fail_times a > cfg_max_fail_times (sc_config c)
      then do {
        (removed_offset, doing) \<leftarrow> shm_object_pool_remove (sc_doing c);
        let c = c\<lparr>sc_doing := doing\<rparr>;
        Some (if removed_offset = allocator_off
              then (set_allocator c i (a\<lparr>sa_in_which_pool := POOL_DONE\<rparr>))
                     \<lparr>sc_done := shm_object_pool_push (sc_done c) allocator_off\<rparr>
              else c)
      }
      else Some c)"

partial_function (option) do_alloc_loop ::
  "int \<Rightarrow> int \<Rightarrow> shmcache_context \<Rightarrow> (entry_loc option \<times> shmcache_context) option" where [code]:
  "do_alloc_loop sz allocator_off c =
     (if allocator_off > 0 then
        (let i = allocator_of_offset c allocator_off in do {
           (p, c) \<leftarrow> shm_value_striping_alloc c i sz;
           case p of
             Some l \<Rightarrow> Some (Some l, sc_memory_update (mi_usage_update (mu_entry_update (\<lambda>u. u + sz))) c)
           | None \<Rightarrow> do {
               c \<leftarrow> discard_allocator c i allocator_off;
               let (allocator_off, doing) = shm_object_pool_next (sc_doing c);
               do_alloc_loop sz allocator_off (c\<lparr>sc_doing := doing\<rparr>)
             }
         })
      else Some (None, c))"

definition shm_value_allocator_do_alloc ::
  "shmcache_context \<Rightarrow> int \<Rightarrow> (entry_loc option \<times> shmcache_context) option" where
  "shm_value_allocator_do_alloc c sz =
     (let (allocator_off, doing) = shm_object_pool_first (sc_doing c) in
      do_alloc_loop sz allocator_off (c\<lparr>sc_doing := doing\<rparr>))"

section \<open>Giving a block back\<close>

definition shm_value_allocator_do_recycle :: "shmcache_context \<Rightarrow> nat \<Rightarrow> (int \<times> shmcache_context) option" where
  "shm_value_allocator_do_recycle c i =
     (let a = sc_allocators c ! i in
      if sa_in_which_pool a = POOL_DONE then do {
        (r, done_pool) \<leftarrow> shm_object_pool_remove_by (sc_done c) (allocator_offset c i);
        let c = c\<lparr>sc_done := done_pool\<rparr>;
        Some (if r \<ge> 0
              then (0, (set_allocator c i (a\<lparr>sa_in_which_pool := POOL_DOING\<rparr>))
                         \<lparr>sc_doing := shm_object_pool_push (sc_doing c) (allocator_offset c i)\<rparr>)
              else (EFAULT, c))
      }
      else Some (0, c))"

text \<open>The flag \<^verbatim>\<open>*recycled\<close> is passed in and returned with the result.\<close>

definition shm_value_allocator_free ::
  "shmcache_context \<Rightarrow> shm_hash_entry \<Rightarrow> bool \<Rightarrow> (int \<times> bool \<times> shmcache_context) option" where
  "shm_value_allocator_free c e recycled =
     (let i = nat (ssp_striping (he_index e));
          (used, a) = shm_striping_allocator_free (sc_allocators c ! i) (he_size e);
          c = set_allocator c i a;
          c = sc_memory_update (mi_usage_update (mu_entry_update (\<lambda>u. u - he_size e))) c in
      if used \<le> 0 then do {
        (result, c) \<leftarrow> shm_value_allocator_do_recycle (set_allocator c i (shm_striping_allocator_reset a)) i;
        Some (result, True, c)
      }
      else Some (0, recycled, c))"

end
