(* ===== verification/HashTable.thy ===== *)
theory HashTable
  imports ValueAllocator
begin

text \<open>
  \<^verbatim>\<open>src/src/shm_hashtable.c\<close> and \<^verbatim>\<open>shm_hashtable.h\<close> without \<^verbatim>\<open>shm_ht_set\<close>, which calls the recycling:
  lookup, deletion, change of the expiry time, clearing, key matching and listing. A chain starts
  in its bucket, follows \<^verbatim>\<open>ht_next\<close> and ends with an offset that is not positive.
\<close>

section \<open>Macros and small functions\<close>

definition HT_CALC_EXPIRES :: "int \<Rightarrow> int \<Rightarrow> int" where
  "HT_CALC_EXPIRES current_time ttl =
     (if ttl = SHMCACHE_NEVER_EXPIRED then 0 else current_time + ttl)"

definition HT_ENTRY_IS_VALID :: "shm_hash_entry \<Rightarrow> int \<Rightarrow> bool" where
  "HT_ENTRY_IS_VALID e current_time \<longleftrightarrow> he_expires e = 0 \<or> he_expires e \<ge> current_time"

text \<open>The macro applied to \<^verbatim>\<open>get_current_time()\<close>, which is only called for an entry that can expire.\<close>

definition entry_is_valid_now :: "shmcache_context \<Rightarrow> shm_hash_entry \<Rightarrow> bool \<times> shmcache_context" where
  "entry_is_valid_now c e =
     (if he_expires e = 0 then (True, c)
      else (let (t, c) = get_current_time c in (he_expires e \<ge> t, c)))"

definition HT_GET_BUCKET_INDEX :: "shmcache_context \<Rightarrow> bytes \<Rightarrow> nat" where
  "HT_GET_BUCKET_INDEX c key =
     nat ((cfg_hash_func (sc_config c) key mod 2 ^ 32) mod mi_capacity (sc_memory c))"

definition HT_KEY_EQUALS :: "shm_hash_entry \<Rightarrow> bytes \<Rightarrow> bool" where
  "HT_KEY_EQUALS e key \<longleftrightarrow> he_key_len e = int (length key) \<and> take (length key) (he_key e) = key"

definition shm_ht_get_memory_size :: "int \<Rightarrow> int" where
  "shm_ht_get_memory_size capacity = 8 * capacity"

definition shm_ht_get_capacity :: "fastcommon \<Rightarrow> int \<Rightarrow> int" where
  "shm_ht_get_capacity fc max_count =
     (case fc_prime_capacity fc max_count of None \<Rightarrow> max_count | Some capacity \<Rightarrow> capacity)"

definition shm_ht_init :: "shmcache_context \<Rightarrow> int \<Rightarrow> shmcache_context" where
  "shm_ht_init c capacity = sc_memory_update (mi_count_update (\<lambda>_. 0) \<circ> mi_capacity_update (\<lambda>_. capacity)) c"

definition shm_ht_count :: "shmcache_context \<Rightarrow> int" where
  "shm_ht_count c = mi_count (sc_memory c)"

section \<open>The chain walk\<close>

text \<open>
  The loop that \<^verbatim>\<open>shm_ht_set\<close>, \<^verbatim>\<open>shm_ht_get\<close>, \<^verbatim>\<open>shm_ht_delete_ex\<close> and \<^verbatim>\<open>shm_ht_set_expires\<close> share: it
  returns the offset, the entry and the previous entry where the key was found, or an offset that
  is not positive and the last entry of the chain.
\<close>

partial_function (option) ht_search ::
  "shmcache_context \<Rightarrow> bytes \<Rightarrow> int \<Rightarrow> entry_loc option
   \<Rightarrow> (int \<times> entry_loc option \<times> entry_loc option \<times> shmcache_context) option" where [code]:
  "ht_search c key entry_offset previous =
     (if entry_offset > 0 then
        (let (p, c) = shm_get_hentry_ptr c entry_offset in do {
           e \<leftarrow> hentry_read c p;
           if HT_KEY_EQUALS e key then Some (entry_offset, p, previous, c)
           else ht_search c key (he_ht_next e) p
         })
      else Some (entry_offset, None, previous, c))"

definition ht_lookup ::
  "shmcache_context \<Rightarrow> bytes \<Rightarrow> (int \<times> entry_loc option \<times> entry_loc option \<times> shmcache_context) option" where
  "ht_lookup c key = ht_search c key (mi_buckets (sc_memory c) ! HT_GET_BUCKET_INDEX c key) None"

section \<open>Lookup\<close>

text \<open>
  The result and what is stored through the \<^verbatim>\<open>value\<close> pointer: nothing when the key is not found.
  The data of a value whose segment cannot be opened is a null pointer, shown as no bytes.
\<close>

definition shm_ht_get ::
  "shmcache_context \<Rightarrow> bytes \<Rightarrow> (int \<times> shmcache_value_info option \<times> shmcache_context) option" where
  "shm_ht_get c key = do {
     (entry_offset, p, _, c) \<leftarrow> ht_lookup c key;
     if entry_offset > 0 then do {
       e \<leftarrow> hentry_read c p;
       let (data, c) = shm_get_value_ptr c e;
       let value = \<lparr>vi_data = (if data = None then [] else take (nat (he_value_length e)) (he_data e)),
                    vi_options = he_value_options e, vi_expires = he_expires e\<rparr>;
       let (valid, c) = entry_is_valid_now c e;
       Some (if valid then 0 else ETIMEDOUT, Some value, c)
     }
     else Some (ENOENT, None, c)
   }"

section \<open>Deletion\<close>

definition shm_ht_free_entry ::
  "shmcache_context \<Rightarrow> entry_loc option \<Rightarrow> int \<Rightarrow> bool \<Rightarrow> (bool \<times> shmcache_context) option" where
  "shm_ht_free_entry c p entry_offset recycled = do {
     e \<leftarrow> hentry_read c p;
     let c = sc_memory_update (mi_count_update (\<lambda>n. n - 1)) c;
     let c = sc_memory_update (mi_usage_update (mu_value_update (\<lambda>v. v - he_value_length e))) c;
     let c = sc_memory_update (mi_usage_update (mu_key_update (\<lambda>k. k - he_key_len e))) c;
     c \<leftarrow> shm_list_delete c entry_offset;
     e \<leftarrow> hentry_read c p;
     (_, recycled, c) \<leftarrow> shm_value_allocator_free c e recycled;
     c \<leftarrow> hentry_write (he_ht_next_update (\<lambda>_. 0)) c p;
     Some (recycled, c)
   }"

definition set_bucket :: "shmcache_context \<Rightarrow> nat \<Rightarrow> int \<Rightarrow> shmcache_context" where
  "set_bucket c index offset = sc_memory_update (mi_buckets_update (\<lambda>b. b[index := offset])) c"

definition shm_ht_delete_ex ::
  "shmcache_context \<Rightarrow> bytes \<Rightarrow> bool \<Rightarrow> (int \<times> bool \<times> shmcache_context) option" where
  "shm_ht_delete_ex c key recycled = do {
     let index = HT_GET_BUCKET_INDEX c key;
     (entry_offset, p, previous, c) \<leftarrow> ht_lookup c key;
     if entry_offset > 0 then do {
       e \<leftarrow> hentry_read c p;
       c \<leftarrow> (if previous \<noteq> None
             then hentry_write (he_ht_next_update (\<lambda>_. he_ht_next e)) c previous
             else Some (set_bucket c index (he_ht_next e)));
       (recycled, c) \<leftarrow> shm_ht_free_entry c p entry_offset recycled;
       Some (0, recycled, c)
     }
     else Some (ENOENT, recycled, c)
   }"

definition shm_ht_delete :: "shmcache_context \<Rightarrow> bytes \<Rightarrow> (int \<times> shmcache_context) option" where
  "shm_ht_delete c key = do {
     (result, _, c) \<leftarrow> shm_ht_delete_ex c key False;
     Some (result, c)
   }"

section \<open>Expiry time\<close>

definition shm_ht_set_expires ::
  "shmcache_context \<Rightarrow> bytes \<Rightarrow> int \<Rightarrow> (int \<times> shmcache_context) option" where
  "shm_ht_set_expires c key expires = do {
     (entry_offset, p, _, c) \<leftarrow> ht_lookup c key;
     if entry_offset > 0 then do {
       e \<leftarrow> hentry_read c p;
       let (valid, c) = entry_is_valid_now c e;
       if valid then do {
         c \<leftarrow> hentry_write (he_expires_update (\<lambda>_. expires)) c p;
         Some (0, c)
       }
       else Some (ETIMEDOUT, c)
     }
     else Some (ENOENT, c)
   }"

section \<open>Clearing\<close>

text \<open>The loop over the allocators: \<open>n\<close> of them still to do, \<open>i\<close> the next one.\<close>

fun clear_allocators_loop :: "nat \<Rightarrow> nat \<Rightarrow> shmcache_context \<Rightarrow> shmcache_context" where
  "clear_allocators_loop 0 i c = c"
| "clear_allocators_loop (Suc n) i c =
     (let a = shm_striping_allocator_reset (sc_allocators c ! i);
          c = set_allocator c i (a\<lparr>sa_in_which_pool := POOL_DOING\<rparr>);
          c = c\<lparr>sc_doing := shm_object_pool_push (sc_doing c) (allocator_offset c i)\<rparr>
      in clear_allocators_loop n (Suc i) c)"

definition shm_ht_clear :: "shmcache_context \<Rightarrow> int \<times> shmcache_context" where
  "shm_ht_clear c =
     (let (t, c) = get_current_time c;
          c = sc_memory_update (mi_stats_update (st_last_clear_time_update (\<lambda>_. t) \<circ> st_last_calc_time_update (\<lambda>_. t))) c;
          ht_count = mi_count (sc_memory c);
          c = sc_memory_update (mi_buckets_update (\<lambda>_. replicate (nat (mi_capacity (sc_memory c))) 0)) c;
          c = sc_memory_update (mi_count_update (\<lambda>_. 0)) c;
          c = shm_list_init c;
          c = c\<lparr>sc_doing := shm_object_pool_init_empty (sc_doing c),
                sc_done := shm_object_pool_init_empty (sc_done c)\<rparr>;
          c = clear_allocators_loop (nat (vs_current (mi_striping (sc_memory c)))) 0 c;
          c = sc_memory_update (mi_usage_update
                (mu_key_update (\<lambda>_. 0) \<circ> mu_value_update (\<lambda>_. 0) \<circ> mu_entry_update (\<lambda>_. 0))) c
      in (ht_count, c))"

section \<open>Key matching and listing\<close>

record shmcache_match_key_info =
  mk_key :: bytes
  mk_op_type :: int

abbreviation (input) SHMCACHE_MATCH_KEY_OP_EXACT :: int where "SHMCACHE_MATCH_KEY_OP_EXACT \<equiv> 0"
abbreviation (input) SHMCACHE_MATCH_KEY_OP_LEFT :: int where "SHMCACHE_MATCH_KEY_OP_LEFT \<equiv> 1"
abbreviation (input) SHMCACHE_MATCH_KEY_OP_RIGHT :: int where "SHMCACHE_MATCH_KEY_OP_RIGHT \<equiv> 2"
abbreviation (input) SHMCACHE_MATCH_KEY_OP_ANYWHERE :: int where "SHMCACHE_MATCH_KEY_OP_ANYWHERE \<equiv> 3"

text \<open>The search from \<open>start\<close>, with \<open>n\<close> start positions left.\<close>

fun match_anywhere_loop :: "nat \<Rightarrow> nat \<Rightarrow> bytes \<Rightarrow> bytes \<Rightarrow> bool" where
  "match_anywhere_loop 0 start key entry_key = False"
| "match_anywhere_loop (Suc n) start key entry_key =
     (if take (length key) (drop start entry_key) = key then True
      else match_anywhere_loop n (Suc start) key entry_key)"

definition shm_ht_match_key :: "shmcache_match_key_info \<Rightarrow> shm_hash_entry \<Rightarrow> bool" where
  "shm_ht_match_key key_info e =
     (let key = mk_key key_info; len = length key in
      if he_key_len e < int len then False
      else if mk_op_type key_info = SHMCACHE_MATCH_KEY_OP_EXACT then
        int len = he_key_len e \<and> take len (he_key e) = key
      else if mk_op_type key_info = SHMCACHE_MATCH_KEY_OP_LEFT then
        take len (he_key e) = key
      else if mk_op_type key_info = SHMCACHE_MATCH_KEY_OP_RIGHT then
        take len (drop (nat (he_key_len e - int len)) (he_key e)) = key
      else if mk_op_type key_info = SHMCACHE_MATCH_KEY_OP_ANYWHERE then
        match_anywhere_loop (nat (he_key_len e - int len + 1)) 0 key (he_key e)
      else False)"

definition HT_KEY_MATCHED :: "shmcache_match_key_info option \<Rightarrow> shm_hash_entry \<Rightarrow> bool" where
  "HT_KEY_MATCHED key_info e = (case key_info of None \<Rightarrow> True | Some k \<Rightarrow> shm_ht_match_key k e)"

partial_function (option) to_array_skip ::
  "shmcache_context \<Rightarrow> shmcache_match_key_info option \<Rightarrow> int \<Rightarrow> int \<Rightarrow> int \<Rightarrow> int
   \<Rightarrow> (int \<times> shmcache_context) option" where [code]:
  "to_array_skip c key_info current_time offset i entry_offset =
     (if entry_offset > 0 \<and> i < offset then
        (let (p, c) = shm_get_hentry_ptr c entry_offset in do {
           src \<leftarrow> hentry_read c p;
           let i = (if HT_ENTRY_IS_VALID src current_time \<and> HT_KEY_MATCHED key_info src then i + 1 else i);
           (entry_offset, c) \<leftarrow> shm_list_next c entry_offset;
           to_array_skip c key_info current_time offset i entry_offset
         })
      else Some (entry_offset, c))"

text \<open>
  The copying loop. Each row is copied into memory of its own; when that allocation fails, the
  rows so far are freed and the array is empty.
\<close>

partial_function (option) to_array_collect ::
  "shmcache_context \<Rightarrow> shmcache_match_key_info option \<Rightarrow> int \<Rightarrow> int \<Rightarrow> int
   \<Rightarrow> (bytes \<times> shmcache_value_info) list
   \<Rightarrow> (int \<times> (bytes \<times> shmcache_value_info) list \<times> shmcache_context) option" where [code]:
  "to_array_collect c key_info current_time row_count entry_offset rows =
     (if entry_offset > 0 then
        (let (p, c) = shm_get_hentry_ptr c entry_offset in do {
           src \<leftarrow> hentry_read c p;
           if \<not> (HT_ENTRY_IS_VALID src current_time \<and> HT_KEY_MATCHED key_info src) then do {
             (entry_offset, c) \<leftarrow> shm_list_next c entry_offset;
             to_array_collect c key_info current_time row_count entry_offset rows
           }
           else (let (data, c) = sys (Sys_malloc (he_key_len src + he_value_length src)) c in
             if data = 0 then Some (ENOMEM, [], c)
             else (let (value_data, c) = shm_get_value_ptr c src in do {
               src \<leftarrow> (if value_data = None then None else Some src);
               let row = (take (nat (he_key_len src)) (he_key src),
                 \<lparr>vi_data = take (nat (he_value_length src)) (he_data src),
                  vi_options = he_value_options src, vi_expires = he_expires src\<rparr>);
               (entry_offset, c) \<leftarrow> shm_list_next c entry_offset;
               let rows = rows @ [row];
               if int (length rows) = row_count then Some (0, rows, c)
               else to_array_collect c key_info current_time row_count entry_offset rows
             }))
         })
      else Some (0, rows, c))"

definition shm_ht_to_array_ex ::
  "shmcache_context \<Rightarrow> shmcache_match_key_info option \<Rightarrow> int \<Rightarrow> int
   \<Rightarrow> (int \<times> (bytes \<times> shmcache_value_info) list \<times> shmcache_context) option" where
  "shm_ht_to_array_ex c key_info offset count =
     (if offset < 0 then Some (EINVAL, [], c)
      else
        (let row_count = mi_count (sc_memory c) - offset;
             row_count = (if count > 0 \<and> count < row_count then count else row_count) in
         if row_count \<le> 0 then Some (0, [], c)
         else
           (let (entries, c) = sys (Sys_malloc (sizeof_shmcache_hash_entry * row_count)) c in
            if entries = 0 then Some (ENOMEM, [], c)
            else
              (let (t, c) = sys Sys_time c; current_time = int32 t in do {
                 (entry_offset, c) \<leftarrow> to_array_skip c key_info current_time offset 0 (shm_list_first c);
                 to_array_collect c key_info current_time row_count entry_offset []
               }))))"

definition shm_ht_to_array ::
  "shmcache_context \<Rightarrow> (int \<times> (bytes \<times> shmcache_value_info) list \<times> shmcache_context) option" where
  "shm_ht_to_array c = shm_ht_to_array_ex c None 0 0"

end
