(* ===== verification/CacheSet.thy ===== *)
theory CacheSet
  imports HashTable
begin

text \<open>
  The recycling half of \<^verbatim>\<open>src/src/shm_value_allocator.c\<close> and \<^verbatim>\<open>shm_ht_set\<close> of \<^verbatim>\<open>shm_hashtable.c\<close>. They
  are mutually recursive: a set may have to allocate, an allocation may have to rearrange the whole
  memory, and a rearrangement sets every entry again. The functions take the recursive call as
  their argument, and the knot is tied with a bound on the depth of nested rearrangements; that the
  bound is never reached is a theorem.
\<close>

section \<open>Recycling\<close>

datatype recycle_kind = Recycle_Key | Recycle_Value_Striping

fun recycle_stats_update :: "recycle_kind \<Rightarrow> (shm_recycle_stats \<Rightarrow> shm_recycle_stats) \<Rightarrow> shm_stats \<Rightarrow> shm_stats" where
  "recycle_stats_update Recycle_Key f = st_recycle_key_update f"
| "recycle_stats_update Recycle_Value_Striping f = st_recycle_value_striping_update f"

partial_function (option) recycle_loop ::
  "int \<Rightarrow> shmcache_context \<Rightarrow> int \<Rightarrow> bool \<Rightarrow> int \<Rightarrow> int
   \<Rightarrow> (int \<times> int \<times> int \<times> shmcache_context) option" where [code]:
  "recycle_loop recycle_keys_once c entry_offset recycled clear_count valid_count =
     (if entry_offset > 0 then
        (let (p, c) = shm_get_hentry_ptr c entry_offset in do {
           e \<leftarrow> hentry_read c p;
           let key = take (nat (he_key_len e)) (he_key e);
           let valid = HT_ENTRY_IS_VALID e (sc_g_current_time c);
           if valid \<and> \<not> cfg_recycle_valid_entries (sc_config c) then do {
             (entry_offset, c) \<leftarrow> shm_list_next c entry_offset;
             recycle_loop recycle_keys_once c entry_offset recycled clear_count valid_count
           }
           else do {
             let current_offset = entry_offset;
             (entry_offset, c) \<leftarrow> shm_list_next c entry_offset;
             (r, recycled, c) \<leftarrow> shm_ht_delete_ex c key recycled;
             (recycled, c) \<leftarrow> (if r \<noteq> 0 then shm_ht_free_entry c p current_offset recycled
                               else Some (recycled, c));
             let clear_count = clear_count + 1;
             let valid_count = (if valid then valid_count + 1 else valid_count);
             if recycle_keys_once > 0 then
               (if clear_count \<ge> recycle_keys_once then Some (0, clear_count, valid_count, c)
                else recycle_loop recycle_keys_once c entry_offset recycled clear_count valid_count)
             else if recycled then
               Some (0, clear_count, valid_count, snd (sys Sys_get_current_time_us c))
             else recycle_loop recycle_keys_once c entry_offset recycled clear_count valid_count
           }
         })
      else Some (ENOMEM, clear_count, valid_count, c))"

definition recycle_sleep :: "shmcache_context \<Rightarrow> shmcache_context" where
  "recycle_sleep c =
     (if cfg_sleep_us_when_recycle_valid_entries (sc_config c) > 0
      then snd (sys (Sys_usleep (cfg_sleep_us_when_recycle_valid_entries (sc_config c))) c) else c)"

definition shm_value_allocator_recycle ::
  "shmcache_context \<Rightarrow> recycle_kind \<Rightarrow> int \<Rightarrow> (int \<times> shmcache_context) option" where
  "shm_value_allocator_recycle c kind recycle_keys_once =
     (let (start_time, c) = sys Sys_get_current_time_us c;
          c = c\<lparr>sc_g_current_time := cdiv start_time 1000000\<rparr> in do {
        (result, clear_count, valid_count, c) \<leftarrow>
          recycle_loop recycle_keys_once c (shm_list_first c) False 0 0;
        let c = sc_memory_update (mi_stats_update (st_clear_total_update (\<lambda>n. n + clear_count))) c;
        let c = (if valid_count > 0
                 then sc_memory_update (mi_stats_update (st_clear_valid_update (\<lambda>n. n + valid_count))) c
                 else c);
        let c = sc_memory_update (mi_stats_update (recycle_stats_update kind
                  (rs_last_recycle_time_update (\<lambda>_. sc_g_current_time c) \<circ> rs_total_update (\<lambda>n. n + 1)))) c;
        if result = 0 then
          (let c = sc_memory_update (mi_stats_update (recycle_stats_update kind (rs_success_update (\<lambda>n. n + 1)))) c;
               c = (if valid_count > 0
                    then recycle_sleep (sc_memory_update (mi_stats_update (recycle_stats_update kind
                           (rs_force_update (\<lambda>n. n + 1)))) c)
                    else c)
           in Some (result, c))
        else Some (result, snd (sys Sys_get_current_time_us c))
      })"

section \<open>Rearranging\<close>

type_synonym ht_set_fun =
  "shmcache_context \<Rightarrow> bytes \<Rightarrow> shmcache_value_info \<Rightarrow> (int \<times> shmcache_context) option"

fun rearrange_loop ::
  "ht_set_fun \<Rightarrow> (bytes \<times> shmcache_value_info) list \<Rightarrow> shmcache_context \<Rightarrow> (int \<times> shmcache_context) option" where
  "rearrange_loop ht_set [] c = Some (0, c)"
| "rearrange_loop ht_set ((key, value) # rows) c = do {
     (result, c) \<leftarrow> ht_set c key value;
     if result \<noteq> 0 then Some (result, c) else rearrange_loop ht_set rows c
   }"

definition shm_value_allocator_try_rearrange ::
  "ht_set_fun \<Rightarrow> shmcache_context \<Rightarrow> (int \<times> shmcache_context) option" where
  "shm_value_allocator_try_rearrange ht_set c =
     (let m = sc_memory c; cfg = sc_config c;
          used = mu_common (mi_usage m) + mu_entry (mi_usage m);
          free = mu_alloced (mi_usage m) - used in
      if free < (SHMCACHE_MAX_KEY_SIZE + cfg_max_value_size cfg)
           + (vs_current (mi_striping m) * cfg_discard_memory_size cfg) + vs_size (mi_striping m)
      then Some (ENOSPC, c)
      else
        (let (start_time, c) = sys Sys_get_current_time_us c in do {
           (result, array, c) \<leftarrow> shm_ht_to_array c;
           if result \<noteq> 0 then Some (result, c)
           else
             (let (ht_count, c) = shm_ht_clear c;
                  c = (if ht_count > 0 then recycle_sleep c else c) in do {
                (result, c) \<leftarrow> rearrange_loop ht_set array c;
                Some (if result = 0 then (result, snd (sys Sys_get_current_time_us c))
                      else (result, snd (shm_ht_clear c)))
              })
         }))"

section \<open>Allocation of an entry\<close>

text \<open>Whether the allocation recycles old entries or creates a segment.\<close>

definition alloc_should_recycle :: "shmcache_context \<Rightarrow> bool \<times> shmcache_context" where
  "alloc_should_recycle c =
     (let segment = mi_segment (sc_memory c) in
      if vs_current segment \<ge> vs_max segment then (True, c)
      else
        (let (off, done_pool) = shm_object_pool_first (sc_done c);
             c = c\<lparr>sc_done := done_pool\<rparr> in
         if off > 0 then
           (let a = sc_allocators c ! allocator_of_offset c off; ttl = cfg_avg_key_ttl (sc_config c) in
            (ttl > 0 \<and> sc_g_current_time c - sa_last_alloc_time a \<ge> ttl, c))
         else (False, c)))"

definition shm_value_allocator_alloc ::
  "ht_set_fun \<Rightarrow> shmcache_context \<Rightarrow> int \<Rightarrow> int \<Rightarrow> (entry_loc option \<times> shmcache_context) option" where
  "shm_value_allocator_alloc ht_set c key_len value_len =
     (let align = fc_mem_align (sc_fastcommon c);
          sz = sizeof_shm_hash_entry + align key_len + align value_len in do {
        (p, c) \<leftarrow> shm_value_allocator_do_alloc c sz;
        if p \<noteq> None then Some (p, c)
        else
          (let (recycle, c) = alloc_should_recycle c in do {
             (result, c) \<leftarrow>
               (if recycle then do {
                  (result, c) \<leftarrow> shm_value_allocator_recycle c Recycle_Value_Striping (- 1);
                  if result \<noteq> 0 \<and> \<not> cfg_recycle_valid_entries (sc_config c) then
                    (if vs_current (mi_segment (sc_memory c)) < vs_max (mi_segment (sc_memory c))
                     then Some (shmopt_create_value_segment c)
                     else shm_value_allocator_try_rearrange ht_set c)
                  else Some (result, c)
                }
                else Some (shmopt_create_value_segment c));
             if result = 0 then shm_value_allocator_do_alloc c sz else Some (None, c)
           })
      })"

section \<open>Setting a key\<close>

text \<open>Filling the new entry and linking it into its chain and the list.\<close>

definition ht_set_store ::
  "shmcache_context \<Rightarrow> bytes \<Rightarrow> shmcache_value_info \<Rightarrow> nat \<Rightarrow> entry_loc option \<Rightarrow> entry_loc option
   \<Rightarrow> (int \<times> shmcache_context) option" where
  "ht_set_store c key value index previous new_p = do {
     new \<leftarrow> hentry_read c new_p;
     let new_offset = shm_get_hentry_offset new;
     c \<leftarrow> hentry_write (he_key_len_update (\<lambda>_. int (length key)) \<circ> he_key_update (\<lambda>_. key)) c new_p;
     new \<leftarrow> hentry_read c new_p;
     let (hvalue, c) = shm_get_value_ptr c new;
     c \<leftarrow> (if hvalue = None then None
           else hentry_write (he_expires_update (\<lambda>_. vi_expires value)
                  \<circ> he_value_options_update (\<lambda>_. vi_options value)
                  \<circ> he_value_length_update (\<lambda>_. int (length (vi_data value)))
                  \<circ> he_data_update (\<lambda>_. vi_data value)) c new_p);
     c \<leftarrow> (if previous \<noteq> None
           then hentry_write (he_ht_next_update (\<lambda>_. new_offset)) c previous
           else Some (set_bucket c index new_offset));
     let c = sc_memory_update (mi_count_update (\<lambda>n. n + 1)) c;
     let c = sc_memory_update (mi_usage_update (mu_value_update (\<lambda>v. v + int (length (vi_data value))))) c;
     let c = sc_memory_update (mi_usage_update (mu_key_update (\<lambda>k. k + int (length key)))) c;
     c \<leftarrow> shm_list_add_tail c new_offset;
     Some (0, c)
   }"

text \<open>The part of \<^verbatim>\<open>shm_ht_set\<close> after the entry is allocated.\<close>

definition ht_set_link ::
  "shmcache_context \<Rightarrow> bytes \<Rightarrow> shmcache_value_info \<Rightarrow> entry_loc option \<Rightarrow> (int \<times> shmcache_context) option" where
  "ht_set_link c key value new_p = do {
     let index = HT_GET_BUCKET_INDEX c key;
     (old_offset, old_p, previous, c) \<leftarrow> ht_lookup c key;
     c \<leftarrow> (if old_offset > 0 then do {
             old \<leftarrow> hentry_read c old_p;
             c \<leftarrow> hentry_write (he_ht_next_update (\<lambda>_. he_ht_next old)) c new_p;
             (_, c) \<leftarrow> shm_ht_free_entry c old_p old_offset False;
             Some c
           }
           else hentry_write (he_ht_next_update (\<lambda>_. 0)) c new_p);
     ht_set_store c key value index previous new_p
   }"

text \<open>\<^verbatim>\<open>shm_ht_set\<close> with the function a rearrangement calls back.\<close>

definition ht_set_body :: "ht_set_fun \<Rightarrow> ht_set_fun" where
  "ht_set_body ht_set c key value =
     (if int (length key) > SHMCACHE_MAX_KEY_SIZE then Some (ENAMETOOLONG, c)
      else if int (length (vi_data value)) > cfg_max_value_size (sc_config c) then Some (EINVAL, c)
      else do {
        (result, c) \<leftarrow>
          (if mi_count (sc_memory c) \<ge> cfg_max_key_count (sc_config c)
           then shm_value_allocator_recycle c Recycle_Key (cfg_recycle_key_once (sc_config c))
           else Some (0, c));
        if result \<noteq> 0 then Some (result, c)
        else
          (let c = (if \<not> sc_g_schedule_flag c
                    then (let (t, c) = sys Sys_time c in c\<lparr>sc_g_current_time := t\<rparr>) else c) in do {
             (new_p, c) \<leftarrow>
               shm_value_allocator_alloc ht_set c (int (length key)) (int (length (vi_data value)));
             if new_p = None then Some (ENOMEM, c)
             else ht_set_link c key value new_p
           })
      })"

fun ht_set_depth :: "nat \<Rightarrow> ht_set_fun" where
  "ht_set_depth 0 c key value = None"
| "ht_set_depth (Suc n) c key value = ht_set_body (ht_set_depth n) c key value"

text \<open>A rearrangement re-inserts fewer entries than the table had, so the count bounds the depth.\<close>

definition shm_ht_set :: ht_set_fun where
  "shm_ht_set c key value = ht_set_depth (Suc (Suc (nat (mi_count (sc_memory c))))) c key value"

end
