(* ===== verification/ShmLock.thy ===== *)
theory ShmLock
  imports CacheSet
begin

text \<open>
  \<^verbatim>\<open>src/src/shm_lock.c\<close>: the process shared mutex with the pid of its holder, the lock on the
  configuration file, and the recovery from a holder that died. The mutex is the platform's; its
  answers are answers of the environment. While a process sleeps before the next try, or waits for
  the file lock, the other processes run: what they do to the shared memory meanwhile is the
  argument \<open>others\<close> of the functions.
\<close>

section \<open>Initialisation and the file lock\<close>

definition set_lock_pid :: "int \<Rightarrow> shmcache_context \<Rightarrow> shmcache_context" where
  "set_lock_pid pid = sc_memory_update (mi_lock_pid_update (\<lambda>_. pid))"

definition shm_lock_init :: "shmcache_context \<Rightarrow> int \<times> shmcache_context" where
  "shm_lock_init c =
     (let (result, c) = sys Sys_pthread_mutexattr_init c in
      if result \<noteq> 0 then (result, c)
      else (let (result, c) = sys Sys_pthread_mutexattr_setpshared c in
      if result \<noteq> 0 then (result, c)
      else (let (result, c) = sys Sys_pthread_mutexattr_settype c in
      if result \<noteq> 0 then (result, c)
      else (let (result, c) = sys Sys_pthread_mutex_init c in
      if result \<noteq> 0 then (result, c)
      else (0, set_lock_pid 0 c)))))"

type_synonym interference = "shmcache_context \<Rightarrow> shmcache_context"

definition shm_lock_file :: "interference \<Rightarrow> shmcache_context \<Rightarrow> int \<times> shmcache_context" where
  "shm_lock_file others c =
     (let c = (if sc_lock_fd c > 0 then snd (sys (Sys_close (sc_lock_fd c)) c) else c);
          ((fd, err), e) = syscall (Sys_open_lock (cfg_filename (sc_config c))) (sc_env c);
          c = c\<lparr>sc_lock_fd := fd, sc_env := e\<rparr> in
      if fd < 0 then (errno_or err EPERM, c)
      else
        (let (result, c) = sys (Sys_file_write_lock fd) c;
             c = others c in
         if result \<noteq> 0 then (result, (snd (sys (Sys_close fd) c))\<lparr>sc_lock_fd := - 1\<rparr>)
         else (result, c)))"

definition shm_unlock_file :: "shmcache_context \<Rightarrow> shmcache_context" where
  "shm_unlock_file c = (snd (sys (Sys_close (sc_lock_fd c)) c))\<lparr>sc_lock_fd := - 1\<rparr>"

section \<open>The mutex\<close>

abbreviation (input) lock_stats :: "(shm_stats \<Rightarrow> shm_stats) \<Rightarrow> shmcache_context \<Rightarrow> shmcache_context" where
  "lock_stats f \<equiv> sc_memory_update (mi_stats_update f)"

definition shm_detect_deadlock :: "interference \<Rightarrow> shmcache_context \<Rightarrow> int \<Rightarrow> int \<times> shmcache_context" where
  "shm_detect_deadlock others c last_pid =
     (let (result, c) = shm_lock_file others c in
      if result \<noteq> 0 then (result, c)
      else
        (let c = (if last_pid = mi_lock_pid (sc_memory c) then
             (let c = set_lock_pid 0 c;
                  (ht_count, c) = shm_ht_clear c;
                  c = (if ht_count > 0 then recycle_sleep c else c);
                  (result, c) = sys Sys_pthread_mutex_unlock c in
              if result \<noteq> 0 then c
              else
                (let c = lock_stats (st_lock_unlock_deadlock_update (\<lambda>n. n + 1)) c;
                     (t, c) = get_current_time c
                 in lock_stats (st_lock_last_unlock_deadlock_time_update (\<lambda>_. t)) c))
           else c)
         in (0, shm_unlock_file c)))"

text \<open>The body of the waiting loop: the counter of tries since the holder was last checked is
  passed in and returned.\<close>

definition lock_retry :: "interference \<Rightarrow> shmcache_context \<Rightarrow> int \<Rightarrow> int \<times> shmcache_context" where
  "lock_retry others c clocks =
     (let c = lock_stats (st_lock_retry_update (\<lambda>n. n + 1)) c;
          c = others (snd (sys (Sys_usleep (cfg_trylock_interval_us (sc_config c))) c));
          clocks = clocks + 1;
          pid = mi_lock_pid (sc_memory c) in
      if clocks > sc_detect_deadlock_clocks c \<and> pid > 0 then
        (let ((r, err), e) = syscall (Sys_kill pid) (sc_env c);
             c = c\<lparr>sc_env := e\<rparr> in
         if r \<noteq> 0 \<and> (err = ESRCH \<or> err = ENOENT) then
           (let c = lock_stats (st_lock_detect_deadlock_update (\<lambda>n. n + 1)) c;
                (t, c) = get_current_time c;
                c = lock_stats (st_lock_last_detect_deadlock_time_update (\<lambda>_. t)) c
            in (0, snd (shm_detect_deadlock others c pid)))
         else (0, c))
      else (clocks, c))"

partial_function (option) lock_loop ::
  "interference \<Rightarrow> shmcache_context \<Rightarrow> int \<Rightarrow> (int \<times> shmcache_context) option" where [code]:
  "lock_loop others c clocks =
     (let (result, c) = sys Sys_pthread_mutex_trylock c in
      if result = EBUSY then
        (let (clocks, c) = lock_retry others c clocks in lock_loop others c clocks)
      else if result = 0 then Some (0, set_lock_pid (sc_pid c) c)
      else Some (result, c))"

definition shm_lock :: "interference \<Rightarrow> shmcache_context \<Rightarrow> (int \<times> shmcache_context) option" where
  "shm_lock others c = lock_loop others (lock_stats (st_lock_total_update (\<lambda>n. n + 1)) c) 0"

definition shm_unlock :: "shmcache_context \<Rightarrow> int \<times> shmcache_context" where
  "shm_unlock c = sys Sys_pthread_mutex_unlock (set_lock_pid 0 c)"

end
