(* ===== verification/ShmCache.thy ===== *)
theory ShmCache
  imports ShmLock Complex_Main
begin

text \<open>
  The operations of \<^verbatim>\<open>src/src/shmcache.c\<close> and \<^verbatim>\<open>shmcache.h\<close> that applications call on an open cache.
  The argument \<open>others\<close> is the effect of the other processes while this one waits for a lock
  (theory \<open>ShmLock\<close>). A result \<^const>\<open>None\<close> is a call that never returns. Floating point
  results are exact fractions.
\<close>

section \<open>Counters\<close>

definition count_total :: "shm_counter \<Rightarrow> shm_counter" where
  "count_total s = s\<lparr>ctr_total := ctr_total s + 1\<rparr>"

definition count_result :: "int \<Rightarrow> shm_counter \<Rightarrow> shm_counter" where
  "count_result result s = (if result = 0 then s\<lparr>ctr_success := ctr_success s + 1\<rparr> else s)"

definition zero_counter :: shm_counter where
  "zero_counter = \<lparr>ctr_total = 0, ctr_success = 0\<rparr>"

definition zero_recycle_stats :: shm_recycle_stats where
  "zero_recycle_stats = \<lparr>rs_total = 0, rs_success = 0, rs_force = 0, rs_last_recycle_time = 0\<rparr>"

definition zero_stats :: shm_stats where
  "zero_stats = \<lparr>st_set = zero_counter, st_get = zero_counter, st_del = zero_counter, st_incr = zero_counter,
     st_last_clear_time = 0, st_clear_total = 0, st_clear_valid = 0,
     st_recycle_key = zero_recycle_stats, st_recycle_value_striping = zero_recycle_stats,
     st_lock_total = 0, st_lock_retry = 0, st_lock_detect_deadlock = 0, st_lock_unlock_deadlock = 0,
     st_lock_last_detect_deadlock_time = 0, st_lock_last_unlock_deadlock_time = 0,
     st_last_get = zero_counter, st_last_calc_time = 0, st_init_time = 0\<rparr>"

section \<open>Setting, reading and deleting\<close>

abbreviation (input) SHMCACHE_SERIALIZER_STRING :: int where "SHMCACHE_SERIALIZER_STRING \<equiv> 0x1"
abbreviation (input) SHMCACHE_SERIALIZER_LIST :: int where "SHMCACHE_SERIALIZER_LIST \<equiv> 0x3"
abbreviation (input) SHMCACHE_SERIALIZER_MAP :: int where "SHMCACHE_SERIALIZER_MAP \<equiv> 0x5"
abbreviation (input) SHMCACHE_SERIALIZER_INTEGER :: int where "SHMCACHE_SERIALIZER_INTEGER \<equiv> 0x9"
abbreviation (input) SHMCACHE_SERIALIZER_IGBINARY :: int where "SHMCACHE_SERIALIZER_IGBINARY \<equiv> 0x200"
abbreviation (input) SHMCACHE_SERIALIZER_MSGPACK :: int where "SHMCACHE_SERIALIZER_MSGPACK \<equiv> 0x400"
abbreviation (input) SHMCACHE_SERIALIZER_PHP :: int where "SHMCACHE_SERIALIZER_PHP \<equiv> 0x800"

definition shmcache_set_ex ::
  "interference \<Rightarrow> shmcache_context \<Rightarrow> bytes \<Rightarrow> shmcache_value_info \<Rightarrow> (int \<times> shmcache_context) option" where
  "shmcache_set_ex others c key value = do {
     (result, c) \<leftarrow> shm_lock others c;
     if result \<noteq> 0 then Some (result, c)
     else do {
       let c = lock_stats (st_set_update count_total) c;
       (result, c) \<leftarrow> shm_ht_set c key value;
       let c = lock_stats (st_set_update (count_result result)) c;
       Some (result, snd (shm_unlock c))
     }
   }"

text \<open>\<^verbatim>\<open>HT_CALC_EXPIRES\<close> at the current time, which is only asked for when the value can expire.\<close>

definition calc_expires_now :: "shmcache_context \<Rightarrow> int \<Rightarrow> int \<times> shmcache_context" where
  "calc_expires_now c ttl =
     (if ttl = SHMCACHE_NEVER_EXPIRED then (HT_CALC_EXPIRES 0 ttl, c)
      else (let (t, c) = get_current_time c in (HT_CALC_EXPIRES t ttl, c)))"

definition shmcache_set ::
  "interference \<Rightarrow> shmcache_context \<Rightarrow> bytes \<Rightarrow> bytes \<Rightarrow> int \<Rightarrow> (int \<times> shmcache_context) option" where
  "shmcache_set others c key data ttl =
     (let (expires, c) = calc_expires_now c ttl
      in shmcache_set_ex others c key
           \<lparr>vi_data = data, vi_options = SHMCACHE_SERIALIZER_STRING, vi_expires = expires\<rparr>)"

definition shmcache_get ::
  "interference \<Rightarrow> shmcache_context \<Rightarrow> bytes \<Rightarrow> (int \<times> shmcache_value_info option \<times> shmcache_context) option" where
  "shmcache_get others c key =
     (if cfg_read_within_lock (sc_config c) then do {
        (result, c) \<leftarrow> shm_lock others c;
        if result \<noteq> 0 then Some (result, None, c)
        else do {
          let c = lock_stats (st_get_update count_total) c;
          (result, value, c) \<leftarrow> shm_ht_get c key;
          let c = lock_stats (st_get_update (count_result result)) c;
          Some (result, value, snd (shm_unlock c))
        }
      }
      else do {
        let c = lock_stats (st_get_update count_total) c;
        (result, value, c) \<leftarrow> shm_ht_get c key;
        let c = lock_stats (st_get_update (count_result result)) c;
        Some (result, value, c)
      })"

definition shmcache_delete ::
  "interference \<Rightarrow> shmcache_context \<Rightarrow> bytes \<Rightarrow> (int \<times> shmcache_context) option" where
  "shmcache_delete others c key = do {
     (result, c) \<leftarrow> shm_lock others c;
     if result \<noteq> 0 then Some (result, c)
     else do {
       let c = lock_stats (st_del_update count_total) c;
       (result, c) \<leftarrow> shm_ht_delete c key;
       let c = lock_stats (st_del_update (count_result result)) c;
       Some (result, snd (shm_unlock c))
     }
   }"

section \<open>Expiry times\<close>

definition shmcache_set_ttl ::
  "interference \<Rightarrow> shmcache_context \<Rightarrow> bytes \<Rightarrow> int \<Rightarrow> (int \<times> shmcache_context) option" where
  "shmcache_set_ttl others c key ttl =
     (if ttl < 0 then Some (EINVAL, c)
      else do {
        (result, c) \<leftarrow> shm_lock others c;
        if result \<noteq> 0 then Some (result, c)
        else do {
          let (expires, c) = calc_expires_now c ttl;
          (result, c) \<leftarrow> shm_ht_set_expires c key expires;
          Some (result, snd (shm_unlock c))
        }
      })"

definition shmcache_set_expires ::
  "interference \<Rightarrow> shmcache_context \<Rightarrow> bytes \<Rightarrow> int \<Rightarrow> (int \<times> shmcache_context) option" where
  "shmcache_set_expires others c key expires =
     (let (past, c) = (if expires > 0 then (let (t, c) = get_current_time c in (expires < t, c))
                       else (False, c)) in
      if past then Some (EINVAL, c)
      else do {
        (result, c) \<leftarrow> shm_lock others c;
        if result \<noteq> 0 then Some (result, c)
        else do {
          (result, c) \<leftarrow> shm_ht_set_expires c key expires;
          Some (result, snd (shm_unlock c))
        }
      })"

section \<open>Counters stored as values\<close>

text \<open>The \<^verbatim>\<open>strtoll\<close> of the C library in base 10: the value, and the rest of the string from \<^verbatim>\<open>endptr\<close> on.\<close>

definition isspace :: "char \<Rightarrow> bool" where
  "isspace ch \<longleftrightarrow> ch = CHR '' '' \<or> (9 \<le> (of_char ch :: nat) \<and> (of_char ch :: nat) \<le> 13)"

definition isdigit :: "char \<Rightarrow> bool" where
  "isdigit ch \<longleftrightarrow> 48 \<le> (of_char ch :: nat) \<and> (of_char ch :: nat) \<le> 57"

definition dec_value :: "string \<Rightarrow> int" where
  "dec_value ds = foldl (\<lambda>n ch. 10 * n + (of_char ch - 48)) 0 ds"

definition split_sign :: "string \<Rightarrow> int \<times> string" where
  "split_sign s =
     (case s of [] \<Rightarrow> (1, [])
      | ch # u \<Rightarrow> if ch = CHR ''-'' then (- 1, u) else if ch = CHR ''+'' then (1, u) else (1, s))"

definition strtoll :: "string \<Rightarrow> int \<times> string" where
  "strtoll s =
     (let (sign, u) = split_sign (dropWhile isspace s);
          digits = takeWhile isdigit u in
      if digits = [] then (0, s)
      else (max (- (2 ^ 63)) (min (2 ^ 63 - 1) (sign * dec_value digits)), dropWhile isdigit u))"

text \<open>
  The value that an increment starts from: the errno, and what is stored through \<^verbatim>\<open>new_value\<close>. The
  buffer of 24 bytes is read as a C string, up to its first zero byte.
\<close>

definition incr_old_value :: "bytes \<Rightarrow> int \<times> int option" where
  "incr_old_value data =
     (if length data \<ge> 24 then (EINVAL, None)
      else (let (n, endptr) = strtoll (takeWhile (\<lambda>ch. ch \<noteq> CHR 0x00) data) in
            if endptr \<noteq> [] then (EINVAL, Some n) else (0, Some n)))"

definition incr_locked ::
  "shmcache_context \<Rightarrow> bytes \<Rightarrow> int \<Rightarrow> int \<Rightarrow> (int \<times> int option \<times> shmcache_context) option" where
  "incr_locked c key increment ttl = do {
     (result, value, c) \<leftarrow> shm_ht_get c key;
     let (result, start) = (case value of
         Some v \<Rightarrow> if result = 0 then incr_old_value (vi_data v) else (0, None)
       | None \<Rightarrow> (0, None));
     if result \<noteq> 0 then Some (result, start, c)
     else do {
       let new_value = (case start of Some n \<Rightarrow> int64 (n + increment) | None \<Rightarrow> increment);
       let (expires, c) = calc_expires_now c ttl;
       (result, c) \<leftarrow> shm_ht_set c key
         \<lparr>vi_data = show_int new_value, vi_options = SHMCACHE_SERIALIZER_INTEGER, vi_expires = expires\<rparr>;
       Some (result, Some new_value, c)
     }
   }"

definition shmcache_incr ::
  "interference \<Rightarrow> shmcache_context \<Rightarrow> bytes \<Rightarrow> int \<Rightarrow> int \<Rightarrow> (int \<times> int option \<times> shmcache_context) option" where
  "shmcache_incr others c key increment ttl = do {
     (result, c) \<leftarrow> shm_lock others c;
     if result \<noteq> 0 then Some (result, None, c)
     else do {
       (result, new_value, c) \<leftarrow> incr_locked c key increment ttl;
       let c = lock_stats (st_incr_update (count_result result \<circ> count_total)) c;
       Some (result, new_value, snd (shm_unlock c))
     }
   }"

section \<open>The whole cache\<close>

definition shmcache_remove_all :: "interference \<Rightarrow> shmcache_context \<Rightarrow> int \<times> shmcache_context" where
  "shmcache_remove_all others c =
     (let (result, c) = shm_lock_file others c in
      if result \<noteq> 0 then (result, c)
      else (let (result, c) = shmopt_remove_all c in (result, shm_unlock_file c)))"

definition shmcache_clear :: "interference \<Rightarrow> shmcache_context \<Rightarrow> (int \<times> shmcache_context) option" where
  "shmcache_clear others c = do {
     (result, c) \<leftarrow> shm_lock others c;
     if result \<noteq> 0 then Some (result, c)
     else
       (let (ht_count, c) = shm_ht_clear c;
            c = (if ht_count > 0 then recycle_sleep c else c)
        in Some (0, snd (shm_unlock c)))
   }"

section \<open>Statistics\<close>

record shmcache_stats =
  ss_shm :: shm_stats
  ss_segment_size :: int
  ss_capacity :: int
  ss_count :: int
  ss_max_key_count :: int
  ss_max :: int
  ss_used :: int
  ss_usage :: shm_memory_usage
  ss_ratio :: rat
  ss_get_qps :: rat
  ss_seconds :: int

text \<open>The hit ratio, the queries per second and the seconds since the last calculation, which is
  remembered when it covers at least a second.\<close>

definition stats_hit :: "shmcache_context \<Rightarrow> (rat \<times> rat \<times> int) \<times> shmcache_context" where
  "stats_hit c =
     (let c = (if \<not> sc_g_schedule_flag c
               then (let (t, c) = sys Sys_time c in c\<lparr>sc_g_current_time := t\<rparr>) else c);
          s = mi_stats (sc_memory c);
          seconds = int32 (sc_g_current_time c - st_last_calc_time s);
          total_delta = ctr_total (st_get s) - ctr_total (st_last_get s) in
      if total_delta > 0 then
        (let success_delta = ctr_success (st_get s) - ctr_success (st_last_get s);
             ratio = of_int success_delta / of_int total_delta in
         if seconds > 0 then
           ((ratio, of_int total_delta / of_int seconds, seconds),
            lock_stats (st_last_calc_time_update (\<lambda>_. sc_g_current_time c)
              \<circ> st_last_get_update (\<lambda>_. \<lparr>ctr_total = ctr_total (st_get s), ctr_success = ctr_success (st_get s)\<rparr>)) c)
         else ((ratio, of_int total_delta, seconds), c))
      else ((- 1, 0, seconds), c))"

definition shmcache_stats_ex :: "shmcache_context \<Rightarrow> bool \<Rightarrow> shmcache_stats \<times> shmcache_context" where
  "shmcache_stats_ex c calc_hit_ratio =
     (let m = sc_memory c;
          ((ratio, qps, seconds), c) = (if calc_hit_ratio then stats_hit c else ((- 1, 0, 0), c))
      in (\<lparr>ss_shm = mi_stats m, ss_segment_size = seg_size (sc_ht_segment c),
           ss_capacity = mi_capacity m, ss_count = mi_count m, ss_max_key_count = mi_max_key_count m,
           ss_max = seg_size (sc_ht_segment c) + vs_size (mi_segment m) * vs_max (mi_segment m),
           ss_used = mu_common (mi_usage m) + mu_entry (mi_usage m), ss_usage = mi_usage m,
           ss_ratio = ratio, ss_get_qps = qps, ss_seconds = seconds\<rparr>, c))"

definition shmcache_stats_op :: "shmcache_context \<Rightarrow> shmcache_stats \<times> shmcache_context" where
  "shmcache_stats_op c = shmcache_stats_ex c True"

text \<open>The result of \<^verbatim>\<open>shm_lock\<close> is not looked at.\<close>

definition shmcache_clear_stats :: "interference \<Rightarrow> shmcache_context \<Rightarrow> shmcache_context option" where
  "shmcache_clear_stats others c = do {
     (_, c) \<leftarrow> shm_lock others c;
     let c = lock_stats (\<lambda>_. zero_stats) c;
     let (t, c) = get_current_time c;
     let c = lock_stats (st_init_time_update (\<lambda>_. t) \<circ> st_last_calc_time_update (\<lambda>_. t)) c;
     Some (snd (shm_unlock c))
   }"

definition shmcache_get_serializer_label :: "int \<Rightarrow> string" where
  "shmcache_get_serializer_label serializer =
     (if serializer = SHMCACHE_SERIALIZER_STRING then ''string''
      else if serializer = SHMCACHE_SERIALIZER_LIST then ''list''
      else if serializer = SHMCACHE_SERIALIZER_MAP then ''map''
      else if serializer = SHMCACHE_SERIALIZER_INTEGER then ''integer''
      else if serializer = SHMCACHE_SERIALIZER_MSGPACK then ''msgpack''
      else if serializer = SHMCACHE_SERIALIZER_IGBINARY then ''igbinary''
      else if serializer = SHMCACHE_SERIALIZER_PHP then ''php''
      else ''unkown'')"

definition shmcache_get_last_clear_time :: "shmcache_context \<Rightarrow> int" where
  "shmcache_get_last_clear_time c = st_last_clear_time (mi_stats (sc_memory c))"

definition shmcache_get_init_time :: "shmcache_context \<Rightarrow> int" where
  "shmcache_get_init_time c = mi_init_time (sc_memory c)"

end
