(* ===== verification/ShmInit.thy ===== *)
theory ShmInit
  imports ShmCache
begin

text \<open>
  The first half of \<^verbatim>\<open>src/src/shmcache.c\<close>: the layout of the hash table segment computed from the
  configuration, the initialisation of a process and of the shared memory, loading the
  configuration, and the release of the mappings.

  What a mapped hash table segment holds is given by the argument \<open>img\<close>: for a segment that
  was just created, zeros. The configuration reader, \<^verbatim>\<open>parse_bytes\<close> and the dynamic linker are code
  of libfastcommon and the platform; they are the fields of the argument \<open>ini\<close>.
\<close>

section \<open>Sizes\<close>

definition SHMCACE_MEM_ALIGN :: "int \<Rightarrow> int \<Rightarrow> int" where
  "SHMCACE_MEM_ALIGN x align = (x + (align - 1)) AND NOT (align - 1)"

definition get_value_segment_count_size ::
  "shmcache_context \<Rightarrow> shmcache_config \<Rightarrow> int \<Rightarrow> shm_value_size_info \<times> shmcache_context" where
  "get_value_segment_count_size c config value_max_memory =
     (let (page_size, c) = sys Sys_getpagesize c;
          sz = SHMCACE_MEM_ALIGN (cfg_segment_size config) page_size;
          count = int32 (cdiv value_max_memory sz);
          count = (if count = 0 then 1 else count)
      in (\<lparr>vs_size = sz, vs_current = 0, vs_max = count\<rparr>, c))"

definition striping_mb_count :: "int \<Rightarrow> int" where
  "striping_mb_count segment_size =
     (let mb_count = int32 (cdiv segment_size (128 * 1024 * 1024)) in
      if mb_count = 0 then 1
      else if mb_count > 8 then 8
      else if mb_count > 2 \<and> mb_count < 4 then 2
      else if mb_count > 4 \<and> mb_count < 8 then 4
      else mb_count)"

definition get_value_striping_count_size ::
  "shmcache_context \<Rightarrow> shmcache_config \<Rightarrow> int
   \<Rightarrow> (shm_value_size_info \<times> shm_value_size_info) \<times> shmcache_context" where
  "get_value_striping_count_size c config value_max_memory =
     (let (segment, c) = get_value_segment_count_size c config value_max_memory;
          (page_size, c) = sys Sys_getpagesize c;
          sz = int32 (striping_mb_count (vs_size segment) * 1024 * 1024);
          sz = (if sz < int32 (cfg_max_value_size config * 2) then int32 (cfg_max_value_size config * 2) else sz);
          sz = SHMCACE_MEM_ALIGN sz page_size;
          sz = (if sz > vs_size segment then vs_size segment else sz);
          count = int32 (vs_max segment * cdiv (vs_size segment) sz)
      in ((segment, \<lparr>vs_size = sz, vs_current = 0, vs_max = count\<rparr>), c))"

text \<open>The array \<^verbatim>\<open>ht_offsets\<close>, one field per index macro.\<close>

record ht_offsets =
  off_ht_buckets :: int
  off_ht_pool_queue :: int
  off_va_pool_queue_doing :: int
  off_va_pool_queue_done :: int
  off_va_pool_object :: int

definition shmcache_get_ht_segment_size ::
  "shmcache_context
   \<Rightarrow> (int \<times> shm_value_size_info \<times> shm_value_size_info \<times> int \<times> ht_offsets) \<times> shmcache_context" where
  "shmcache_get_ht_segment_size c =
     (let config = sc_config c;
          ((segment, striping), c) = get_value_striping_count_size c config (cfg_max_memory config);
          ht_capacity = shm_ht_get_capacity (sc_fastcommon c) (cfg_max_key_count config + 1);
          o0 = sizeof_shm_memory_info;
          o1 = o0 + shm_ht_get_memory_size ht_capacity;
          o2 = o1 + shm_object_pool_get_queue_memory_size (cfg_max_key_count config + 1);
          va_pool_queue_memory_size = shm_object_pool_get_queue_memory_size (vs_max striping + 1);
          o3 = o2 + va_pool_queue_memory_size;
          o4 = o3 + va_pool_queue_memory_size;
          total_size = o4 + shm_object_pool_get_object_memory_size sizeof_shm_striping_allocator (vs_max striping);
          ((segment, striping), c) =
            get_value_striping_count_size c config (cfg_max_memory config - total_size)
      in ((total_size, segment, striping, ht_capacity,
           \<lparr>off_ht_buckets = o0, off_ht_pool_queue = o1, off_va_pool_queue_doing = o2,
            off_va_pool_queue_done = o3, off_va_pool_object = o4\<rparr>), c))"

section \<open>Initialising the shared memory\<close>

definition shmcache_set_object_pool_context :: "object_pool \<Rightarrow> int \<Rightarrow> int \<Rightarrow> int \<Rightarrow> bool \<Rightarrow> object_pool" where
  "shmcache_set_object_pool_context op element_size obj_base_offset queue_capacity init_full =
     (let op = op\<lparr>op_element_size := element_size, op_base_offset := obj_base_offset,
                 op_capacity := nat queue_capacity\<rparr>;
          op = shm_object_pool_set op
      in if init_full then shm_object_pool_init_full op else shm_object_pool_init_empty op)"

definition shmcache_do_init :: "shmcache_context \<Rightarrow> ht_offsets \<Rightarrow> int \<times> shmcache_context" where
  "shmcache_do_init c offs =
     (let (result, c) = shm_lock_init c in
      if result \<noteq> 0 then (result, c)
      else
        (let queue_capacity = vs_max (mi_striping (sc_memory c)) + 1
         in (0, c\<lparr>sc_doing := shmcache_set_object_pool_context (sc_doing c) sizeof_shm_striping_allocator
                      (off_va_pool_object offs) queue_capacity False,
                  sc_done := shmcache_set_object_pool_context (sc_done c) sizeof_shm_striping_allocator
                      (off_va_pool_object offs) queue_capacity False\<rparr>)))"

text \<open>The header is set up under the file lock, by the first process that gets it.\<close>

definition lock_init_body ::
  "shmcache_context \<Rightarrow> int \<Rightarrow> shm_value_size_info \<Rightarrow> shm_value_size_info \<Rightarrow> ht_offsets
   \<Rightarrow> int \<times> shmcache_context" where
  "lock_init_body c ht_capacity segment striping offs =
     (if mi_status (sc_memory c) = SHMCACHE_STATUS_NORMAL then (- EEXIST, c)
      else
        (let c = sc_memory_update (mi_segment_update (\<lambda>_. segment) \<circ> mi_striping_update (\<lambda>_. striping)) c;
             c = shm_list_init (shm_ht_init c ht_capacity);
             (result, c) = shmcache_do_init c offs in
         if result \<noteq> 0 then (result, c)
         else
           (let (t, c) = get_current_time c;
                c = sc_memory_update (mi_init_time_update (\<lambda>_. t)
                      \<circ> mi_stats_update (st_init_time_update (\<lambda>_. t) \<circ> st_last_calc_time_update (\<lambda>_. t))) c;
                ht_size = seg_size (sc_ht_segment c);
                c = sc_memory_update (mi_usage_update (mu_alloced_update (\<lambda>_. ht_size) \<circ> mu_common_update (\<lambda>_. ht_size))) c;
                (result, c) = shmopt_create_value_segment c in
            if result \<noteq> 0 then (result, c)
            else
              (0, sc_memory_update (mi_size_update (\<lambda>_. sizeof_shm_memory_info)
                    \<circ> mi_max_key_count_update (\<lambda>_. cfg_max_key_count (sc_config c))
                    \<circ> mi_status_update (\<lambda>_. SHMCACHE_STATUS_NORMAL)) c))))"

definition shmcache_do_lock_init ::
  "interference \<Rightarrow> shmcache_context \<Rightarrow> int \<Rightarrow> shm_value_size_info \<Rightarrow> shm_value_size_info \<Rightarrow> ht_offsets
   \<Rightarrow> int \<times> shmcache_context" where
  "shmcache_do_lock_init others c ht_capacity segment striping offs =
     (let (result, c) = shm_lock_file others c in
      if result \<noteq> 0 then (result, c)
      else
        (let (result, c) = lock_init_body c ht_capacity segment striping offs
         in (result, shm_unlock_file c)))"

definition shmcache_set_obj_allocators :: "shmcache_context \<Rightarrow> ht_offsets \<Rightarrow> shmcache_context" where
  "shmcache_set_obj_allocators c offs =
     c\<lparr>sc_doing := shm_object_pool_set (sc_doing c), sc_done := shm_object_pool_set (sc_done c),
       sc_allocators_offset := off_va_pool_object offs\<rparr>"

section \<open>Checking an existing segment\<close>

definition shmcache_check_segement :: "shm_value_size_info \<Rightarrow> shm_value_size_info \<Rightarrow> int" where
  "shmcache_check_segement shm cfg =
     (if vs_size shm \<noteq> vs_size cfg then EINVAL
      else if vs_max shm \<noteq> vs_max cfg then EINVAL
      else 0)"

definition shmcache_check :: "shmcache_context \<Rightarrow> shm_value_size_info \<Rightarrow> shm_value_size_info \<Rightarrow> int" where
  "shmcache_check c segment striping =
     (let m = sc_memory c in
      if mi_size m \<noteq> sizeof_shm_memory_info then EINVAL
      else if mi_status m \<noteq> SHMCACHE_STATUS_NORMAL then EINVAL
      else if cfg_max_key_count (sc_config c) \<noteq> mi_max_key_count m then EINVAL
      else
        (let result = shmcache_check_segement (mi_segment m) segment in
         if result \<noteq> 0 then result
         else shmcache_check_segement (mi_striping m) striping))"

section \<open>Initialising a process\<close>

text \<open>What the hash table segment and the value segments hold when they are mapped.\<close>

record shm_image =
  im_memory :: shm_memory_info
  im_doing :: object_pool
  im_done :: object_pool
  im_allocators :: "shm_striping_allocator list"
  im_entries :: "entry_loc \<Rightarrow> shm_hash_entry option"

definition zero_segment_info :: shmcache_segment_info where
  "zero_segment_info = \<lparr>seg_proj_id = 0, seg_key = 0, seg_size = 0, seg_base = 0\<rparr>"

text \<open>The \<^verbatim>\<open>memset\<close> of the context and the assignments after it.\<close>

definition init_context :: "shmcache_context \<Rightarrow> shmcache_config \<Rightarrow> bool \<Rightarrow> shmcache_context" where
  "init_context c config create_segment =
     (let (pid, c) = sys Sys_getpid c
      in c\<lparr>sc_pid := pid, sc_lock_fd := - 1, sc_detect_deadlock_clocks := 0, sc_config := config,
           sc_ht_segment := zero_segment_info, sc_values_count := 0, sc_values_items := [],
           sc_create_segment := create_segment\<rparr>)"

definition attach_image :: "shm_image \<Rightarrow> shmcache_context \<Rightarrow> shmcache_context" where
  "attach_image img c =
     c\<lparr>sc_memory := im_memory img, sc_doing := im_doing img, sc_done := im_done img,
       sc_allocators := im_allocators img, sc_entries := im_entries img\<rparr>"

text \<open>
  The loop that creates segments up to \<^verbatim>\<open>min_memory\<close>. The first argument bounds the iterations: each
  one either leaves the loop or uses up one of the segments that may still be created.
\<close>

fun min_memory_loop :: "nat \<Rightarrow> int \<Rightarrow> int \<Rightarrow> shmcache_context \<Rightarrow> int \<times> shmcache_context" where
  "min_memory_loop 0 min_memory result c = (result, c)"
| "min_memory_loop (Suc n) min_memory result c =
     (if seg_size (sc_ht_segment c) + vs_size (mi_segment (sc_memory c)) * vs_current (mi_segment (sc_memory c))
          < min_memory
      then
        (let (result, c) = shmopt_create_value_segment c in
         if result \<noteq> 0 then (result, c)
         else if vs_current (mi_segment (sc_memory c)) \<ge> vs_max (mi_segment (sc_memory c)) then (result, c)
         else min_memory_loop n min_memory result c)
      else (result, c))"

definition init_value_segments ::
  "interference \<Rightarrow> int \<Rightarrow> shmcache_context \<Rightarrow> (int \<times> shmcache_context) option" where
  "init_value_segments others min_memory c =
     (let (result, c) = shmopt_open_value_segments c in
      if result = 0 \<and> vs_current (mi_segment (sc_memory c)) < vs_max (mi_segment (sc_memory c)) then do {
        (_, c) \<leftarrow> shm_lock others c;
        let (result, c) = min_memory_loop
              (Suc (nat (vs_max (mi_segment (sc_memory c)) - vs_current (mi_segment (sc_memory c)))))
              min_memory result c;
        Some (result, snd (shm_unlock c))
      }
      else Some (result, c))"

definition set_deadlock_clocks :: "shmcache_context \<Rightarrow> shmcache_context" where
  "set_deadlock_clocks c =
     (if cfg_trylock_interval_us (sc_config c) > 0
      then c\<lparr>sc_detect_deadlock_clocks := cdiv (int32 (1000 * cfg_detect_deadlock_interval_ms (sc_config c)))
               (cfg_trylock_interval_us (sc_config c))\<rparr>
      else c)"

definition init_attached ::
  "interference \<Rightarrow> bool \<Rightarrow> int \<Rightarrow> shm_value_size_info \<Rightarrow> shm_value_size_info \<Rightarrow> ht_offsets \<Rightarrow> shmcache_context
   \<Rightarrow> (int \<times> shmcache_context) option" where
  "init_attached others create_segment ht_capacity segment striping offs c =
     (if create_segment then
        (let (result, c) = (if mi_status (sc_memory c) = SHMCACHE_STATUS_INIT
                then shmcache_do_lock_init others c ht_capacity segment striping offs else (0, c)) in
         if \<not> (result = 0 \<or> result = - EEXIST) then Some (result, c)
         else map_option (apsnd set_deadlock_clocks)
                (init_value_segments others (cfg_min_memory (sc_config c)) c))
      else Some (0, set_deadlock_clocks c))"

text \<open>A header at a failed mapping cannot be read: the call has no result then.\<close>

definition shmcache_init ::
  "interference \<Rightarrow> shm_image \<Rightarrow> shmcache_context \<Rightarrow> shmcache_config \<Rightarrow> bool \<Rightarrow> bool
   \<Rightarrow> (int \<times> shmcache_context) option" where
  "shmcache_init others img c config create_segment check_segment =
     (let c = init_context c config create_segment;
          ((ht_segment_size, segment, striping, ht_capacity, offs), c) = shmcache_get_ht_segment_size c;
          (ht_segment_exists, e) = shm_exists (fc_max_path_size (sc_fastcommon c)) (cfg_type (sc_config c))
            (cfg_filename (sc_config c)) 1 (sc_env c);
          c = c\<lparr>sc_env := e\<rparr>;
          ((result, ht_segment), c) = shmopt_init_segment c (sc_ht_segment c) 1 ht_segment_size;
          c = c\<lparr>sc_ht_segment := ht_segment\<rparr> in
      if result \<noteq> 0 then Some (result, c)
      else
        (let (items, c) = sys (Sys_malloc (sizeof_shmcache_segment_info * vs_max segment)) c in
         if items = 0 then Some (ENOMEM, c)
         else if \<not> mapped (seg_base ht_segment) then None
         else
           (let c = c\<lparr>sc_values_items := replicate (nat (vs_max segment)) zero_segment_info\<rparr>;
                c = shm_list_set (attach_image img c);
                c = shmcache_set_obj_allocators c offs;
                result = (if ht_segment_exists \<and> check_segment then shmcache_check c segment striping else 0) in
            if result \<noteq> 0 then Some (result, c)
            else init_attached others create_segment ht_capacity segment striping offs c)))"

section \<open>Configuration\<close>

text \<open>
  The configuration file as the reader presents it: the result of loading a file, the string, integer and
  boolean items with their defaults, the size parser, and the hash functions the linker finds.
\<close>

record ini_context =
  ini_load :: "string \<Rightarrow> int"
  ini_str :: "string \<Rightarrow> string option"
  ini_int :: "string \<Rightarrow> int \<Rightarrow> int"
  ini_bool :: "string \<Rightarrow> bool \<Rightarrow> bool"
  ini_parse_bytes :: "string \<Rightarrow> int \<times> int"
  ini_dlopen :: bool
  ini_dlsym :: "string \<Rightarrow> (bytes \<Rightarrow> int) option"
  ini_simple_hash :: "bytes \<Rightarrow> int"

definition shmcache_parse_bytes :: "ini_context \<Rightarrow> string \<Rightarrow> int \<times> int" where
  "shmcache_parse_bytes ini name =
     (case ini_str ini name of None \<Rightarrow> (ENOENT, - 1)
      | Some value \<Rightarrow>
          (let (result, sz) = ini_parse_bytes ini value in
           if result \<noteq> 0 then (result, - 1)
           else if sz \<le> 0 then (EINVAL, - 1)
           else (0, sz)))"

definition shmcache_parse_bytes_with_default :: "ini_context \<Rightarrow> string \<Rightarrow> int \<Rightarrow> int \<times> int" where
  "shmcache_parse_bytes_with_default ini name def_value =
     (case ini_str ini name of None \<Rightarrow> (0, def_value)
      | Some value \<Rightarrow>
          (let (result, sz) = ini_parse_bytes ini value in
           if result \<noteq> 0 then (result, def_value) else (0, sz)))"

definition to_lower :: "char \<Rightarrow> char" where
  "to_lower ch = (if 65 \<le> (of_char ch :: nat) \<and> (of_char ch :: nat) \<le> 90 then char_of ((of_char ch :: nat) + 32) else ch)"

definition strcasecmp_eq :: "string \<Rightarrow> string \<Rightarrow> bool" where
  "strcasecmp_eq a b \<longleftrightarrow> map to_lower a = map to_lower b"

text \<open>The items of the configuration in three groups, in the order of the code. A group returns the errno
  that ends the loading, and the configuration as far as it was filled.\<close>

definition load_config_memory ::
  "ini_context \<Rightarrow> fastcommon \<Rightarrow> shmcache_config \<Rightarrow> int \<times> shmcache_config" where
  "load_config_memory ini fc config =
     (let (result, type) = (case ini_str ini ''type'' of
            None \<Rightarrow> (0, SHMCACHE_TYPE_MMAP)
          | Some t \<Rightarrow> if strcasecmp_eq t ''shm'' then (0, SHMCACHE_TYPE_SHM)
                      else if strcasecmp_eq t ''mmap'' then (0, SHMCACHE_TYPE_MMAP)
                      else (EINVAL, cfg_type config));
          config = config\<lparr>cfg_type := type\<rparr> in
      if result \<noteq> 0 then (result, config)
      else (case ini_str ini ''filename'' of
        None \<Rightarrow> (ENOENT, config)
      | Some filename \<Rightarrow>
          if filename = [] then (ENOENT, config)
          else
            (let config = config\<lparr>cfg_filename := take (fc_max_path_size fc - 1) filename\<rparr>;
                 (result, max_memory) = shmcache_parse_bytes ini ''max_memory'';
                 config = config\<lparr>cfg_max_memory := max_memory\<rparr> in
             if result \<noteq> 0 then (result, config)
             else
               (let (_, min_memory) = shmcache_parse_bytes_with_default ini ''min_memory'' 0;
                    (result, segment_size) = shmcache_parse_bytes ini ''segment_size'';
                    config = config\<lparr>cfg_min_memory := min_memory, cfg_segment_size := segment_size\<rparr> in
                if result \<noteq> 0 then (result, config)
                else if cdiv max_memory segment_size > 255
                then (0, config\<lparr>cfg_segment_size := cdiv max_memory 255\<rparr>)
                else (0, config)))))"

definition load_config_keys :: "ini_context \<Rightarrow> shmcache_config \<Rightarrow> int \<times> shmcache_config" where
  "load_config_keys ini config =
     (let config = config\<lparr>cfg_max_key_count := ini_int ini ''max_key_count'' 0\<rparr> in
      if cfg_max_key_count config \<le> 0 then (EINVAL, config)
      else
        (let (result, max_value_size) = shmcache_parse_bytes ini ''max_value_size'';
             config = config\<lparr>cfg_max_value_size := int32 max_value_size\<rparr> in
         if result \<noteq> 0 then (result, config)
         else
           (let hash_function = (case ini_str ini ''hash_function'' of None \<Rightarrow> [] | Some f \<Rightarrow> f) in
            if hash_function = [] then (0, config\<lparr>cfg_hash_func := ini_simple_hash ini\<rparr>)
            else if \<not> ini_dlopen ini then (EBUSY, config)
            else
              (case ini_dlsym ini hash_function of
                 Some f \<Rightarrow> (0, config\<lparr>cfg_hash_func := f\<rparr>)
               | None \<Rightarrow>
                   (case ini_dlsym ini (take 63 (''fc_'' @ hash_function)) of
                      Some f \<Rightarrow> (0, config\<lparr>cfg_hash_func := f\<rparr>)
                    | None \<Rightarrow> (ENOENT, config))))))"

definition load_config_policy :: "ini_context \<Rightarrow> shmcache_config \<Rightarrow> int \<times> shmcache_config" where
  "load_config_policy ini config =
     (let config = config\<lparr>cfg_avg_key_ttl := ini_int ini ''value_policy.avg_key_ttl'' 0\<rparr>;
          (result, discard_memory_size) = shmcache_parse_bytes ini ''value_policy.discard_memory_size'';
          config = config\<lparr>cfg_discard_memory_size := int32 discard_memory_size\<rparr> in
      if result \<noteq> 0 then (result, config)
      else
        (let config = config\<lparr>cfg_max_fail_times := ini_int ini ''value_policy.max_fail_times'' 5,
               cfg_read_within_lock := ini_bool ini ''lock_policy.read_within_lock'' False,
               cfg_trylock_interval_us := ini_int ini ''lock_policy.trylock_interval_us'' 200\<rparr> in
         if cfg_trylock_interval_us config \<le> 0 then (EINVAL, config)
         else
           (let config = config\<lparr>cfg_sleep_us_when_recycle_valid_entries :=
                    ini_int ini ''value_policy.sleep_us_when_recycle_valid_entries'' 0,
                  cfg_detect_deadlock_interval_ms :=
                    ini_int ini ''lock_policy.detect_deadlock_interval_ms'' 1000\<rparr> in
            if cfg_detect_deadlock_interval_ms config \<le> 0 then (EINVAL, config)
            else
              (let recycle_key_once = ini_int ini ''recycle_key_once'' 0
               in (0, config\<lparr>cfg_recycle_key_once := (if recycle_key_once \<le> 0 then - 1 else recycle_key_once),
                      cfg_recycle_valid_entries := ini_bool ini ''recycle_valid_entries'' False\<rparr>)))))"

definition shmcache_load_config ::
  "ini_context \<Rightarrow> fastcommon \<Rightarrow> shmcache_config \<Rightarrow> string \<Rightarrow> int \<times> shmcache_config" where
  "shmcache_load_config ini fc config config_filename =
     (if ini_load ini config_filename \<noteq> 0 then (ini_load ini config_filename, config)
      else
        (let (result, config) = load_config_memory ini fc config in
         if result \<noteq> 0 then (result, config)
         else
           (let (result, config) = load_config_keys ini config in
            if result \<noteq> 0 then (result, config) else load_config_policy ini config)))"

text \<open>The configuration the loading starts from is the uninitialised one of the caller.\<close>

definition shmcache_init_from_file_ex ::
  "interference \<Rightarrow> shm_image \<Rightarrow> ini_context \<Rightarrow> shmcache_config \<Rightarrow> shmcache_context \<Rightarrow> string \<Rightarrow> bool \<Rightarrow> bool
   \<Rightarrow> (int \<times> shmcache_context) option" where
  "shmcache_init_from_file_ex others img ini config c config_filename create_segment check_segment =
     (let (result, config) = shmcache_load_config ini (sc_fastcommon c) config config_filename in
      if result \<noteq> 0 then Some (result, c)
      else shmcache_init others img c config create_segment check_segment)"

definition shmcache_init_from_file ::
  "interference \<Rightarrow> shm_image \<Rightarrow> ini_context \<Rightarrow> shmcache_config \<Rightarrow> shmcache_context \<Rightarrow> string
   \<Rightarrow> (int \<times> shmcache_context) option" where
  "shmcache_init_from_file others img ini config c config_filename =
     shmcache_init_from_file_ex others img ini config c config_filename True True"

section \<open>Releasing the mappings\<close>

fun destroy_loop :: "nat \<Rightarrow> nat \<Rightarrow> shmcache_context \<Rightarrow> shmcache_context" where
  "destroy_loop 0 index c = c"
| "destroy_loop (Suc n) index c =
     (let s = sc_values_items c ! index in
      if seg_base s \<noteq> 0 then
        (let (_, e) = shm_munmap (cfg_type (sc_config c)) (seg_base s) (seg_size s) (sc_env c)
         in destroy_loop n (Suc index)
              (c\<lparr>sc_env := e, sc_values_items := (sc_values_items c)[index := s\<lparr>seg_base := 0\<rparr>]\<rparr>))
      else destroy_loop n (Suc index) c)"

definition shmcache_destroy :: "shmcache_context \<Rightarrow> shmcache_context" where
  "shmcache_destroy c =
     (let c = destroy_loop (nat (sc_values_count c)) 0 c in
      if seg_base (sc_ht_segment c) \<noteq> 0 then
        (let (_, e) = shm_munmap (cfg_type (sc_config c)) (seg_base (sc_ht_segment c))
               (seg_size (sc_ht_segment c)) (sc_env c)
         in c\<lparr>sc_env := e, sc_ht_segment := (sc_ht_segment c)\<lparr>seg_base := 0\<rparr>\<rparr>)
      else c)"

end
