(* ===== verification/Tools.thy ===== *)
theory Tools
  imports ShmInit
begin

text \<open>
  The command line tools of \<^verbatim>\<open>src/src/tools\<close> that wrap one call of the library: set, get, delete,
  remove all and statistics. A tool is a function of its arguments (\<open>argv\<close>, with the program name first)
  that returns its exit status and what it printed on the two output streams.

  What a tool takes from outside is the record \<open>host\<close>: the file test and the date format of libfastcommon, the
  answer typed by the user, and the arguments of the initialisation (theory \<open>ShmInit\<close>).
\<close>

section \<open>What the tools share\<close>

record host =
  host_is_file :: "string \<Rightarrow> bool"
  host_format_datetime :: "int \<Rightarrow> string"
  host_scanf_char :: "char option"
  host_others :: interference
  host_image :: shm_image
  host_ini :: ini_context
  host_config :: shmcache_config

record tool_exit =
  te_status :: int
  te_stdout :: string
  te_stderr :: string

type_synonym tool_run = "(tool_exit \<times> shmcache_context) option"

definition nl :: string where
  "nl = [CHR 0x0A]"

text \<open>What \<^verbatim>\<open>printf\<close> reads of a string argument: up to its first zero byte.\<close>

definition cstr :: "bytes \<Rightarrow> string" where
  "cstr s = takeWhile (\<lambda>ch. ch \<noteq> CHR 0x00) s"

definition atoi :: "string \<Rightarrow> int" where
  "atoi s = int32 (fst (strtoll s))"

abbreviation (input) ECANCELED :: int where "ECANCELED \<equiv> 125"

definition default_config_filename :: string where
  "default_config_filename = ''/etc/libshmcache.conf''"

definition is_help :: "string list \<Rightarrow> bool" where
  "is_help argv \<longleftrightarrow> length argv \<ge> 2 \<and> (argv ! 1 = ''-h'' \<or> argv ! 1 = ''help'' \<or> argv ! 1 = ''--help'')"

definition exit_usage :: "int \<Rightarrow> string \<Rightarrow> shmcache_context \<Rightarrow> tool_run" where
  "exit_usage status text c = Some (\<lparr>te_status = status, te_stdout = [], te_stderr = text\<rparr>, c)"

definition exit_quiet :: "int \<Rightarrow> shmcache_context \<Rightarrow> tool_run" where
  "exit_quiet status c = Some (\<lparr>te_status = status, te_stdout = [], te_stderr = []\<rparr>, c)"

abbreviation (input) tool_init :: "host \<Rightarrow> shmcache_context \<Rightarrow> string \<Rightarrow> bool \<Rightarrow> bool \<Rightarrow> (int \<times> shmcache_context) option" where
  "tool_init h c config_filename create check \<equiv>
     shmcache_init_from_file_ex (host_others h) (host_image h) (host_ini h) (host_config h) c config_filename create check"

section \<open>\<open>shmcache_set\<close>\<close>

definition set_usage :: "string \<Rightarrow> string" where
  "set_usage prog = ''shmcache set key value.'' @ nl @ ''Usage: '' @ prog @ '' [config_filename] <key> <value> <ttl>'' @ nl"

definition set_main :: "host \<Rightarrow> shmcache_context \<Rightarrow> string list \<Rightarrow> tool_run" where
  "set_main h c argv =
     (if is_help argv then exit_usage 0 (set_usage (argv ! 0)) c
      else if length argv < 4 then exit_usage EINVAL (set_usage (argv ! 0)) c
      else if host_is_file h (argv ! 1) \<and> length argv < 5 then exit_usage EINVAL (set_usage (argv ! 0)) c
      else do {
        let (config_filename, index) =
          (if host_is_file h (argv ! 1) then (argv ! 1, 2) else (default_config_filename, 1));
        (result, c) \<leftarrow> shmcache_init_from_file (host_others h) (host_image h) (host_ini h) (host_config h) c config_filename;
        if result \<noteq> 0 then exit_quiet result c
        else do {
          let key = argv ! index;
          let value = argv ! (index + 1);
          let ttl = atoi (argv ! (index + 2));
          (result, c) \<leftarrow> shmcache_set (host_others h) c key value ttl;
          Some (if result = 0
                then \<lparr>te_status = result, te_stdout = ''set key: '' @ key @ '' success.'' @ nl, te_stderr = []\<rparr>
                else \<lparr>te_status = result, te_stdout = [],
                      te_stderr = ''set key: '' @ key @ '' fail, errno: '' @ show_int result @ nl\<rparr>, c)
        }
      })"

section \<open>\<open>shmcache_get\<close> and \<open>shmcache_delete\<close>\<close>

text \<open>The configuration file and the key, or the wrong number of arguments: the two tools read them alike.\<close>

definition key_args :: "host \<Rightarrow> string list \<Rightarrow> (string \<times> string) option" where
  "key_args h argv =
     (if length argv < 2 then None
      else if host_is_file h (argv ! 1) then (if length argv < 3 then None else Some (argv ! 1, argv ! 2))
      else Some (default_config_filename, argv ! 1))"

definition get_usage :: "string \<Rightarrow> string" where
  "get_usage prog = ''shmcache get key value.'' @ nl @ ''Usage: '' @ prog @ '' [config_filename] <key>'' @ nl"

definition get_output :: "shmcache_value_info \<Rightarrow> string" where
  "get_output value =
     ''value options: '' @ show_int (vi_options value) @ '' ('' @ shmcache_get_serializer_label (vi_options value)
       @ '' serializer), value length: '' @ show_int (int (length (vi_data value)))
       @ (if vi_options value AND SHMCACHE_SERIALIZER_STRING \<noteq> 0 then '', value:'' @ nl @ cstr (vi_data value) else [])
       @ nl"

definition get_main :: "host \<Rightarrow> shmcache_context \<Rightarrow> string list \<Rightarrow> tool_run" where
  "get_main h c argv =
     (if is_help argv then exit_usage 0 (get_usage (argv ! 0)) c
      else (case key_args h argv of
          None \<Rightarrow> exit_usage EINVAL (get_usage (argv ! 0)) c
        | Some (config_filename, key) \<Rightarrow> do {
            (result, c) \<leftarrow> tool_init h c config_filename False True;
            if result \<noteq> 0 then exit_quiet result c
            else do {
              (result, value, c) \<leftarrow> shmcache_get (host_others h) c key;
              if result = 0 then do {
                v \<leftarrow> value;
                Some (\<lparr>te_status = 0, te_stdout = get_output v, te_stderr = []\<rparr>, c)
              }
              else Some (\<lparr>te_status = result, te_stdout = [],
                          te_stderr = ''get key: '' @ key @ '' fail, errno: '' @ show_int result @ nl\<rparr>, c)
            }
          }))"

definition delete_usage :: "string \<Rightarrow> string" where
  "delete_usage prog = ''shmcache delete key.'' @ nl @ ''Usage: '' @ prog @ '' [config_filename] <key>'' @ nl"

definition delete_main :: "host \<Rightarrow> shmcache_context \<Rightarrow> string list \<Rightarrow> tool_run" where
  "delete_main h c argv =
     (if is_help argv then exit_usage 0 (delete_usage (argv ! 0)) c
      else (case key_args h argv of
          None \<Rightarrow> exit_usage EINVAL (delete_usage (argv ! 0)) c
        | Some (config_filename, key) \<Rightarrow> do {
            (result, c) \<leftarrow> tool_init h c config_filename False True;
            if result \<noteq> 0 then exit_quiet result c
            else do {
              (result, c) \<leftarrow> shmcache_delete (host_others h) c key;
              Some (if result = 0
                    then \<lparr>te_status = 0, te_stdout = ''delete key: '' @ key @ '' successfully.'' @ nl, te_stderr = []\<rparr>
                    else \<lparr>te_status = result, te_stdout = [],
                          te_stderr = ''delete key: '' @ key @ '' fail, errno: '' @ show_int result @ nl\<rparr>, c)
            }
          }))"

section \<open>\<open>shmcache_remove_all\<close>\<close>

definition remove_all_usage :: "string \<Rightarrow> string" where
  "remove_all_usage prog = ''Remove all shmcache including share memories. '' @ nl @ ''Usage: '' @ prog
     @ '' [config_filename] [-y or --yes]'' @ nl"

definition IS_YES :: "string \<Rightarrow> bool" where
  "IS_YES s \<longleftrightarrow> s = ''--yes'' \<or> s = ''-y''"

text \<open>Whether to ask, and the configuration file; nothing for arguments that are wrong.\<close>

definition remove_all_args :: "string list \<Rightarrow> (bool \<times> string) option" where
  "remove_all_args argv =
     (if length argv = 2 then
        (if IS_YES (argv ! 1) then Some (False, default_config_filename) else Some (True, argv ! 1))
      else if length argv = 3 then
        (if IS_YES (argv ! 1) then Some (False, argv ! 2)
         else if IS_YES (argv ! 2) then Some (False, argv ! 1)
         else None)
      else Some (True, default_config_filename))"

definition remove_all_main :: "host \<Rightarrow> shmcache_context \<Rightarrow> string list \<Rightarrow> tool_run" where
  "remove_all_main h c argv =
     (if is_help argv then exit_usage 0 (remove_all_usage (argv ! 0)) c
      else if length argv > 3 then exit_usage EINVAL (remove_all_usage (argv ! 0)) c
      else (case remove_all_args argv of
          None \<Rightarrow> exit_usage EINVAL (remove_all_usage (argv ! 0)) c
        | Some (ask, config_filename) \<Rightarrow>
            (let prompt = (if ask then ''Clear all share memory with config file: '' @ config_filename @ ''? <y|n>: '' else []) in
             if ask \<and> host_scanf_char h \<noteq> Some (CHR ''y'') then
               Some (\<lparr>te_status = ECANCELED, te_stdout = prompt @ ''share memory NOT removed.'' @ nl, te_stderr = []\<rparr>, c)
             else do {
               (result, c) \<leftarrow> tool_init h c config_filename False False;
               if result \<noteq> 0 then Some (\<lparr>te_status = result, te_stdout = prompt, te_stderr = []\<rparr>, c)
               else do {
                 let (result, c) = shmcache_remove_all (host_others h) c;
                 Some (\<lparr>te_status = result, te_stdout = prompt
                         @ (if result = 0 then ''ALL share memory segments are removed!'' @ nl else []), te_stderr = []\<rparr>, c)
               }
             })))"

end
