(* ===== verification/DumpTool.thy ===== *)
theory DumpTool
  imports Tools "HOL-Library.Sublist"
begin

text \<open>
  \<^verbatim>\<open>src/src/tools/shmcache_dump.c\<close>: printing the entries whose key matches a pattern. The options are parsed
  by \<^verbatim>\<open>getopt\<close> of the C library. Every option letter but \<^verbatim>\<open>h\<close>, which ends the parsing, takes an argument,
  so a word of the command line holds at most one option.
\<close>

section \<open>Escapes in the separators\<close>

definition unescape_char :: "char \<Rightarrow> char option" where
  "unescape_char ch =
     (if ch = CHR ''r'' then Some (CHR 0x0D)
      else if ch = CHR ''n'' then Some (CHR 0x0A)
      else if ch = CHR ''t'' then Some (CHR 0x09)
      else if ch = CHR ''f'' then Some (CHR 0x0C)
      else if ch = CHR 0x5C then Some (CHR 0x5C)
      else None)"

text \<open>A backslash and up to three digits are the character with that decimal code; a backslash before any
  other character stays.\<close>

fun unescape :: "string \<Rightarrow> string" where
  "unescape [] = []"
| "unescape [ch] = [ch]"
| "unescape (ch # d # s) =
     (if ch = CHR 0x5C then
        (case unescape_char d of
           Some x \<Rightarrow> x # unescape s
         | None \<Rightarrow>
             if isdigit d then
               (let more = takeWhile isdigit (take 2 s)
                in char_of (nat (dec_value (d # more))) # unescape (drop (length more) s))
             else ch # d # unescape s)
      else ch # unescape (d # s))"

definition unescape_string :: "shmcache_context \<Rightarrow> string \<Rightarrow> string option \<times> shmcache_context" where
  "unescape_string c s =
     (let (output, c) = sys (Sys_malloc (int (length s) + 1)) c in
      (if output = 0 then None else Some (unescape s), c))"

section \<open>Options\<close>

record dump_options =
  do_config_filename :: string
  do_key_value_seperator :: "string option"
  do_row_seperator :: "string option"
  do_start_offset :: int
  do_row_count :: int
  do_search_key :: "string option"
  do_output_filename :: "string option"

definition default_options :: dump_options where
  "default_options = \<lparr>do_config_filename = default_config_filename, do_key_value_seperator = Some ''='',
     do_row_seperator = Some nl, do_start_offset = 0, do_row_count = 0, do_search_key = None, do_output_filename = None\<rparr>"

text \<open>One option with its argument; nothing for an unknown letter.\<close>

definition dump_option :: "char \<Rightarrow> string \<Rightarrow> dump_options \<Rightarrow> shmcache_context \<Rightarrow> (dump_options \<times> shmcache_context) option" where
  "dump_option ch optarg opts c =
     (if ch = CHR ''c'' then Some (opts\<lparr>do_config_filename := optarg\<rparr>, c)
      else if ch = CHR ''F'' then (let (s, c) = unescape_string c optarg in Some (opts\<lparr>do_key_value_seperator := s\<rparr>, c))
      else if ch = CHR ''R'' then (let (s, c) = unescape_string c optarg in Some (opts\<lparr>do_row_seperator := s\<rparr>, c))
      else if ch = CHR ''k'' then Some (opts\<lparr>do_search_key := Some optarg\<rparr>, c)
      else if ch = CHR ''s'' then Some (opts\<lparr>do_start_offset := atoi optarg\<rparr>, c)
      else if ch = CHR ''n'' then Some (opts\<lparr>do_row_count := atoi optarg\<rparr>, c)
      else if ch = CHR ''o'' then Some (opts\<lparr>do_output_filename := Some optarg\<rparr>, c)
      else None)"

text \<open>The rest of the command line; nothing when the usage is shown.\<close>

fun parse_args :: "string list \<Rightarrow> dump_options \<Rightarrow> shmcache_context \<Rightarrow> (dump_options option \<times> shmcache_context)" where
  "parse_args [] opts c = (Some opts, c)"
| "parse_args ((m # ch # optarg) # args) opts c =
     (if m \<noteq> CHR ''-'' then (None, c)
      else if ch = CHR ''-'' \<and> optarg = [] then (if args = [] then Some opts else None, c)
      else if optarg \<noteq> [] then
        (case dump_option ch optarg opts c of None \<Rightarrow> (None, c) | Some (opts, c) \<Rightarrow> parse_args args opts c)
      else (case args of [] \<Rightarrow> (None, c)
            | a # args \<Rightarrow> (case dump_option ch a opts c of None \<Rightarrow> (None, c) | Some (opts, c) \<Rightarrow> parse_args args opts c)))"
| "parse_args (arg # args) opts c = (None, c)"

definition parse_search_key :: "string option \<Rightarrow> shmcache_match_key_info option" where
  "parse_search_key search_key =
     (case search_key of None \<Rightarrow> None
      | Some s \<Rightarrow>
          if s = [] then None
          else
            (let (right, key) = (if hd s = CHR ''%'' then (True, tl s) else (False, s)) in
             if right \<and> key = [] then None
             else
               (let (left, key) = (if last key = CHR ''%'' then (True, butlast key) else (False, key)) in
                if left \<and> key = [] then None
                else Some \<lparr>mk_key = key,
                  mk_op_type = (if right then SHMCACHE_MATCH_KEY_OP_RIGHT else 0)
                    OR (if left then SHMCACHE_MATCH_KEY_OP_LEFT else 0)\<rparr>)))"

section \<open>The dump\<close>

text \<open>A separator whose memory could not be allocated is a null pointer, which must not be printed.\<close>

definition dump_row :: "dump_options \<Rightarrow> bytes \<times> shmcache_value_info \<Rightarrow> string option" where
  "dump_row opts row =
     (let (key, value) = row in do {
        key_value_seperator \<leftarrow> do_key_value_seperator opts;
        row_seperator \<leftarrow> do_row_seperator opts;
        Some (if vi_options value AND SHMCACHE_SERIALIZER_STRING \<noteq> 0
              then cstr key @ cstr key_value_seperator @ cstr (vi_data value) @ cstr row_seperator
              else cstr key @ cstr key_value_seperator @ ''<'' @ shmcache_get_serializer_label (vi_options value)
                     @ '' serializer, data length: '' @ show_int (int (length (vi_data value))) @ ''>'' @ cstr row_seperator)
      })"

fun dump_rows :: "dump_options \<Rightarrow> (bytes \<times> shmcache_value_info) list \<Rightarrow> string option" where
  "dump_rows opts [] = Some []"
| "dump_rows opts (row # rows) = do { s \<leftarrow> dump_row opts row; t \<leftarrow> dump_rows opts rows; Some (s @ t) }"

definition do_dump :: "dump_options \<Rightarrow> shmcache_context \<Rightarrow> (int \<times> string \<times> shmcache_context) option" where
  "do_dump opts c = do {
     (result, rows, c) \<leftarrow> shm_ht_to_array_ex c (parse_search_key (do_search_key opts)) (do_start_offset opts) (do_row_count opts);
     if result \<noteq> 0 then Some (result, [], c)
     else do {
       out \<leftarrow> dump_rows opts rows;
       Some (0, out, c)
     }
   }"

text \<open>
  The tool: what it writes to the output file or the standard output, and its status. The argument \<open>fopen\<close> is the
  errno of opening the output file, or nothing when that works.
\<close>

definition dump_main ::
  "host \<Rightarrow> (string \<Rightarrow> int option) \<Rightarrow> shmcache_context \<Rightarrow> string list \<Rightarrow> (int \<times> string \<times> shmcache_context) option" where
  "dump_main h fopen c argv =
     (case parse_args (tl argv) default_options c of
        (None, c) \<Rightarrow> Some (0, [], c)
      | (Some opts, c) \<Rightarrow>
          (case Option.bind (do_output_filename opts) fopen of
             Some err \<Rightarrow> Some (errno_or err EPERM, [], c)
           | None \<Rightarrow> do {
               (result, c) \<leftarrow> tool_init h c (do_config_filename opts) False True;
               if result \<noteq> 0 then Some (result, [], c)
               else if cfg_read_within_lock (sc_config c) then do {
                 (result, c) \<leftarrow> shm_lock (host_others h) c;
                 if result \<noteq> 0 then Some (result, [], c)
                 else do {
                   (result, out, c) \<leftarrow> do_dump opts c;
                   Some (result, out, shmcache_destroy (snd (shm_unlock c)))
                 }
               }
               else do {
                 (result, out, c) \<leftarrow> do_dump opts c;
                 Some (result, out, shmcache_destroy c)
               }
             }))"

end
