(* ===== verification/CacheInv.thy ===== *)
theory CacheInv
  imports CacheSet
begin

text \<open>
  The invariant of a cache between two operations, in parts, each with the rule that says on which
  fields it depends. \<open>L\<close> is the list of the linked entries in insertion order; \<open>M\<close> lists
  entries that are allocated but not linked yet, as in the middle of a set.
\<close>

section \<open>Views of an entry\<close>

definition mem_view :: "shm_hash_entry \<Rightarrow> int \<times> shm_segment_striping_pair \<times> int" where
  "mem_view e = (he_size e, he_index e, he_offset e)"

definition payload :: "shm_hash_entry \<Rightarrow> int \<times> int \<times> int \<times> int \<times> bytes \<times> bytes \<times> int" where
  "payload e = (he_key_len e, he_expires e, he_value_length e, he_value_options e, he_key e, he_data e, he_size e)"

lemma mem_view_fields:
  "mem_view e = mem_view e' \<Longrightarrow> he_size e = he_size e'"
  "mem_view e = mem_view e' \<Longrightarrow> he_index e = he_index e'"
  "mem_view e = mem_view e' \<Longrightarrow> he_offset e = he_offset e'"
  by (simp_all add: mem_view_def)

lemma payload_fields:
  "payload e = payload e' \<Longrightarrow> he_key_len e = he_key_len e'"
  "payload e = payload e' \<Longrightarrow> he_expires e = he_expires e'"
  "payload e = payload e' \<Longrightarrow> he_value_length e = he_value_length e'"
  "payload e = payload e' \<Longrightarrow> he_value_options e = he_value_options e'"
  "payload e = payload e' \<Longrightarrow> he_key e = he_key e'"
  "payload e = payload e' \<Longrightarrow> he_data e = he_data e'"
  by (simp_all add: payload_def)

lemma relinked_views:
  assumes "relinked c c'" and "loc_live c l"
  shows "mem_view (entry c' l) = mem_view (entry c l)"
    and "payload (entry c' l) = payload (entry c l)"
    and "he_ht_next (entry c' l) = he_ht_next (entry c l)"
  using relinked_fields [OF assms(1), of l] assms(2) by (simp_all add: mem_view_def payload_def loc_live_def)

section \<open>Allocators and queues\<close>

abbreviation nstriping :: "shmcache_context \<Rightarrow> nat" where
  "nstriping c \<equiv> nat (vs_current (mi_striping (sc_memory c)))"

abbreviation allocator :: "shmcache_context \<Rightarrow> nat \<Rightarrow> shm_striping_allocator" where
  "allocator c j \<equiv> sc_allocators c ! j"

text \<open>Every allocator knows its own index and a segment that is open, and stripings do not overlap.\<close>

definition allocs_ok :: "shmcache_context \<Rightarrow> bool" where
  "allocs_ok c \<longleftrightarrow> nstriping c \<le> length (sc_allocators c) \<and> 0 < sc_allocators_offset c
     \<and> (\<forall>j < nstriping c. ssp_striping (sa_index (allocator c j)) = int j
          \<and> 0 \<le> ssp_segment (sa_index (allocator c j)) \<and> ssp_segment (sa_index (allocator c j)) < 256
          \<and> ssp_segment (sa_index (allocator c j)) < sc_values_count c
          \<and> sa_end (allocator c j) \<le> 2 ^ 47
          \<and> sa_in_which_pool (allocator c j) \<in> {POOL_DOING, POOL_DONE})
     \<and> (\<forall>i < nstriping c. \<forall>j < nstriping c. i \<noteq> j \<longrightarrow>
          ssp_segment (sa_index (allocator c i)) = ssp_segment (sa_index (allocator c j)) \<longrightarrow>
          sa_end (allocator c i) \<le> sa_base (allocator c j) \<or> sa_end (allocator c j) \<le> sa_base (allocator c i))"

text \<open>
  The queues hold offsets of different allocators, and the done queue exactly the allocators marked
  done. The doing queue may lack allocators marked doing: see the removal of the object pool.
\<close>

definition pools_rep :: "shmcache_context \<Rightarrow> nat list \<Rightarrow> nat list \<Rightarrow> bool" where
  "pools_rep c D E \<longleftrightarrow> pool_wf (sc_doing c) \<and> pool_wf (sc_done c)
     \<and> nstriping c < op_capacity (sc_doing c) \<and> nstriping c < op_capacity (sc_done c)
     \<and> pool_list (sc_doing c) = map (allocator_offset c) D
     \<and> pool_list (sc_done c) = map (allocator_offset c) E
     \<and> distinct D \<and> distinct E
     \<and> set D \<subseteq> {j. j < nstriping c \<and> sa_in_which_pool (allocator c j) = POOL_DOING}
     \<and> set E = {j. j < nstriping c \<and> sa_in_which_pool (allocator c j) = POOL_DONE}"

definition pools_ok :: "shmcache_context \<Rightarrow> bool" where
  "pools_ok c \<longleftrightarrow> (\<exists>D E. pools_rep c D E)"

lemma allocator_offset_cong:
  "sc_allocators_offset c' = sc_allocators_offset c \<Longrightarrow> allocator_offset c' = allocator_offset c"
  by (simp add: allocator_offset_def fun_eq_iff)

lemma allocs_ok_cong:
  assumes "allocs_ok c" and "sc_allocators_offset c' = sc_allocators_offset c"
    and "mi_striping (sc_memory c') = mi_striping (sc_memory c)"
    and "sc_values_count c' = sc_values_count c" and "length (sc_allocators c') = length (sc_allocators c)"
    and "\<And>j. j < nstriping c \<Longrightarrow> sa_index (allocator c' j) = sa_index (allocator c j)
      \<and> sa_base (allocator c' j) = sa_base (allocator c j) \<and> sa_end (allocator c' j) = sa_end (allocator c j)
      \<and> sa_in_which_pool (allocator c' j) \<in> {POOL_DOING, POOL_DONE}"
  shows "allocs_ok c'"
  using assms(1-5) assms(6) unfolding allocs_ok_def by (auto simp: assms(2-5))

lemma allocs_ok_same:
  assumes "allocs_ok c" and "sc_allocators_offset c' = sc_allocators_offset c"
    and "mi_striping (sc_memory c') = mi_striping (sc_memory c)"
    and "sc_values_count c' = sc_values_count c" and "sc_allocators c' = sc_allocators c"
  shows "allocs_ok c'"
  using assms(1) unfolding allocs_ok_def assms(2-5) .

lemma pools_rep_cong:
  assumes "pools_rep c D E" and "sc_allocators_offset c' = sc_allocators_offset c"
    and "mi_striping (sc_memory c') = mi_striping (sc_memory c)"
    and "sc_doing c' = sc_doing c" and "sc_done c' = sc_done c"
    and "\<And>j. j < nstriping c \<Longrightarrow> sa_in_which_pool (allocator c' j) = sa_in_which_pool (allocator c j)"
  shows "pools_rep c' D E"
proof -
  have "{j. j < nstriping c' \<and> sa_in_which_pool (allocator c' j) = p}
      = {j. j < nstriping c \<and> sa_in_which_pool (allocator c j) = p}" for p
    using assms(3,6) by auto
  then show ?thesis
    using assms(1) unfolding pools_rep_def by (simp add: assms(2-5) allocator_offset_cong [OF assms(2)])
qed

lemma pools_ok_cong:
  assumes "pools_ok c" and "sc_allocators_offset c' = sc_allocators_offset c"
    and "mi_striping (sc_memory c') = mi_striping (sc_memory c)"
    and "sc_doing c' = sc_doing c" and "sc_done c' = sc_done c"
    and "\<And>j. j < nstriping c \<Longrightarrow> sa_in_which_pool (allocator c' j) = sa_in_which_pool (allocator c j)"
  shows "pools_ok c'"
  using assms(1) pools_rep_cong [OF _ assms(2-6)] unfolding pools_ok_def by metis

lemma distinct_subset_length:
  "distinct xs \<Longrightarrow> set xs \<subseteq> {j. j < n \<and> P j} \<Longrightarrow> j < n \<Longrightarrow> \<not> P j \<Longrightarrow> length xs < n"
proof -
  assume d: "distinct xs" and s: "set xs \<subseteq> {j. j < n \<and> P j}" and j: "j < n" "\<not> P j"
  have "set xs \<subset> {..<n}" using s j by auto
  then have "card (set xs) < card {..<n}" by (intro psubset_card_mono) simp_all
  then show "length xs < n" using d by (simp add: distinct_card)
qed

lemma distinct_less_length: "distinct xs \<Longrightarrow> set xs \<subseteq> {j. j < n \<and> P j} \<Longrightarrow> length xs \<le> n"
proof -
  assume d: "distinct xs" and s: "set xs \<subseteq> {j. j < n \<and> P j}"
  then have "card (set xs) \<le> card {..<n}" by (intro card_mono) auto
  then show "length xs \<le> n" using d by (simp add: distinct_card)
qed

section \<open>Blocks\<close>

definition blocks_of :: "shmcache_context \<Rightarrow> entry_loc list \<Rightarrow> nat \<Rightarrow> (int \<times> int) list" where
  "blocks_of c L j = map (\<lambda>l. (snd l, he_size (entry c l)))
     (filter (\<lambda>l. ssp_striping (he_index (entry c l)) = int j) L)"

definition block_ok :: "shmcache_context \<Rightarrow> entry_loc \<Rightarrow> bool" where
  "block_ok c l \<longleftrightarrow> loc_live c l \<and> he_offset (entry c l) = snd l
     \<and> (\<exists>j < nstriping c. he_index (entry c l) = sa_index (allocator c j)
          \<and> fst l = ssp_segment (sa_index (allocator c j)))"

definition blocks_ok :: "shmcache_context \<Rightarrow> entry_loc list \<Rightarrow> bool" where
  "blocks_ok c L \<longleftrightarrow> list_all (block_ok c) L
     \<and> (\<forall>j < nstriping c. striping_wf (allocator c j) (blocks_of c L j))"

lemma blocks_of_append: "blocks_of c (A @ B) j = blocks_of c A j @ blocks_of c B j"
  by (simp add: blocks_of_def)

lemma blocks_of_cong:
  "(\<And>l. l \<in> set L \<Longrightarrow> mem_view (entry c' l) = mem_view (entry c l)) \<Longrightarrow> blocks_of c' L j = blocks_of c L j"
  unfolding blocks_of_def mem_view_def by (auto intro!: map_cong filter_cong)

lemma block_ok_cong:
  "block_ok c l \<Longrightarrow> mem_view (entry c' l) = mem_view (entry c l) \<Longrightarrow> loc_live c' l \<Longrightarrow>
   nstriping c' = nstriping c \<Longrightarrow> (\<And>j. j < nstriping c \<Longrightarrow> sa_index (allocator c' j) = sa_index (allocator c j))
   \<Longrightarrow> block_ok c' l"
  by (auto simp: block_ok_def mem_view_def)

lemma blocks_ok_cong:
  assumes "blocks_ok c L" and "mi_striping (sc_memory c') = mi_striping (sc_memory c)"
    and "\<And>j. j < nstriping c \<Longrightarrow> allocator c' j = allocator c j"
    and "\<And>l. l \<in> set L \<Longrightarrow> mem_view (entry c' l) = mem_view (entry c l) \<and> loc_live c' l"
  shows "blocks_ok c' L"
proof -
  have "blocks_of c' L j = blocks_of c L j" for j
    using assms(4) by (intro blocks_of_cong) auto
  moreover have "block_ok c' l" if "l \<in> set L" for l
    using assms(1) that assms(4) [OF that] assms(2,3)
    by (intro block_ok_cong [of c l c']) (simp_all add: blocks_ok_def list_all_iff)
  ultimately show ?thesis
    using assms(1-3) unfolding blocks_ok_def by (simp add: list_all_iff)
qed

lemma blocks_ok_same:
  assumes "blocks_ok c L" and "mi_striping (sc_memory c') = mi_striping (sc_memory c)"
    and "sc_allocators c' = sc_allocators c" and "sc_entries c' = sc_entries c"
    and "sc_values_count c' = sc_values_count c"
  shows "blocks_ok c' L"
proof -
  have "block_ok c' = block_ok c" "blocks_of c' = blocks_of c"
    unfolding fun_eq_iff block_ok_def blocks_of_def loc_live_def assms(2-5) by simp_all
  then show ?thesis using assms(1) unfolding blocks_ok_def assms(2,3) by simp
qed

text \<open>Changing one allocator, or which entries count, at one striping only.\<close>

lemma blocks_ok_set_allocator:
  assumes "list_all (block_ok c) L" and "j < nstriping c" and "nstriping c \<le> length (sc_allocators c)"
    and "sa_index a = sa_index (allocator c j)" and "striping_wf a (blocks_of c L j)"
    and "\<And>i. i < nstriping c \<Longrightarrow> i \<noteq> j \<Longrightarrow> striping_wf (allocator c i) (blocks_of c L i)"
  shows "blocks_ok (set_allocator c j a) L"
proof -
  have j: "j < length (sc_allocators c)" using assms(2,3) by simp
  have eq: "blocks_of (set_allocator c j a) L i = blocks_of c L i" for i
    by (simp add: blocks_of_def set_allocator_def)
  have "block_ok (set_allocator c j a) l" if "l \<in> set L" for l
  proof (rule block_ok_cong [of c])
    show "block_ok c l" using assms(1) that by (simp add: list_all_iff)
    then show "loc_live (set_allocator c j a) l"
      by (simp add: block_ok_def loc_live_def set_allocator_def)
  qed (use j assms(4) in \<open>auto simp: set_allocator_def nth_list_update\<close>)
  moreover have "striping_wf (allocator (set_allocator c j a) i) (blocks_of (set_allocator c j a) L i)"
    if "i < nstriping c" for i
    using assms(5,6) that j by (simp add: eq) (auto simp: set_allocator_def nth_list_update)
  ultimately show ?thesis
    unfolding blocks_ok_def by (simp add: list_all_iff) (simp add: set_allocator_def)
qed

lemma block_ok_striping:
  assumes "allocs_ok c" and "block_ok c l"
  obtains j where "j < nstriping c" "ssp_striping (he_index (entry c l)) = int j"
    "he_index (entry c l) = sa_index (allocator c j)" "fst l = ssp_segment (sa_index (allocator c j))"
  using assms unfolding block_ok_def allocs_ok_def by metis

section \<open>Counters\<close>

definition count_ok :: "shmcache_context \<Rightarrow> entry_loc list \<Rightarrow> entry_loc list \<Rightarrow> bool" where
  "count_ok c L M \<longleftrightarrow> mi_count (sc_memory c) = int (length L)
     \<and> mu_key (mi_usage (sc_memory c)) = (\<Sum>l\<leftarrow>L. he_key_len (entry c l))
     \<and> mu_value (mi_usage (sc_memory c)) = (\<Sum>l\<leftarrow>L. he_value_length (entry c l))
     \<and> mu_entry (mi_usage (sc_memory c)) = (\<Sum>l\<leftarrow>L @ M. he_size (entry c l))"

lemma sum_list_map_cong: "(\<And>x. x \<in> set xs \<Longrightarrow> f x = g x) \<Longrightarrow> (\<Sum>x\<leftarrow>xs. f x) = (\<Sum>x\<leftarrow>xs. (g x :: int))"
  by (metis map_cong)

lemma count_ok_cong:
  assumes "count_ok c L M" and "mi_count (sc_memory c') = mi_count (sc_memory c)"
    and "mi_usage (sc_memory c') = mi_usage (sc_memory c)"
    and "\<And>l. l \<in> set L \<Longrightarrow> payload (entry c' l) = payload (entry c l)"
    and "\<And>l. l \<in> set (L @ M) \<Longrightarrow> mem_view (entry c' l) = mem_view (entry c l)"
  shows "count_ok c' L M"
proof -
  have "(\<Sum>l\<leftarrow>L. he_key_len (entry c' l)) = (\<Sum>l\<leftarrow>L. he_key_len (entry c l))"
    "(\<Sum>l\<leftarrow>L. he_value_length (entry c' l)) = (\<Sum>l\<leftarrow>L. he_value_length (entry c l))"
    using assms(4) by (auto intro!: sum_list_map_cong dest: payload_fields)
  moreover have "(\<Sum>l\<leftarrow>L @ M. he_size (entry c' l)) = (\<Sum>l\<leftarrow>L @ M. he_size (entry c l))"
    using assms(5) by (intro sum_list_map_cong mem_view_fields(1))
  ultimately show ?thesis
    using assms(1) by (simp add: count_ok_def assms(2,3))
qed

text \<open>
  What is stored of a linked entry agrees with its recorded lengths, and the header, the key and the
  value fit into the block of the entry.
\<close>

definition payload_ok :: "shm_hash_entry \<Rightarrow> bool" where
  "payload_ok e \<longleftrightarrow> he_key_len e = int (length (he_key e)) \<and> he_value_length e = int (length (he_data e))
     \<and> sizeof_shm_hash_entry + he_key_len e + he_value_length e \<le> he_size e"

lemma payload_ok_payload: "payload e' = payload e \<Longrightarrow> payload_ok e' = payload_ok e"
  by (simp add: payload_def payload_ok_def)

section \<open>The buckets\<close>

text \<open>A chain starts at an offset, follows a link field and ends with 0.\<close>

fun chain :: "(entry_loc \<Rightarrow> int) \<Rightarrow> int \<Rightarrow> entry_loc list \<Rightarrow> bool" where
  "chain nx off [] \<longleftrightarrow> off = 0"
| "chain nx off (l # ls) \<longleftrightarrow> off = loc_offset l \<and> chain nx (nx l) ls"

lemma chain_cong: "chain nx off ls \<Longrightarrow> (\<And>l. l \<in> set ls \<Longrightarrow> nx' l = nx l) \<Longrightarrow> chain nx' off ls"
  by (induction ls arbitrary: off) auto

abbreviation bucket_of :: "shmcache_context \<Rightarrow> entry_loc \<Rightarrow> nat" where
  "bucket_of c l \<equiv> HT_GET_BUCKET_INDEX c (he_key (entry c l))"

definition bucket_ok :: "shmcache_context \<Rightarrow> entry_loc list \<Rightarrow> nat \<Rightarrow> entry_loc list \<Rightarrow> bool" where
  "bucket_ok c L i ls \<longleftrightarrow> chain (\<lambda>l. he_ht_next (entry c l)) (mi_buckets (sc_memory c) ! i) ls
     \<and> distinct ls \<and> set ls = {l \<in> set L. bucket_of c l = i}"

definition ht_ok :: "shmcache_context \<Rightarrow> entry_loc list \<Rightarrow> bool" where
  "ht_ok c L \<longleftrightarrow> 0 < mi_capacity (sc_memory c)
     \<and> length (mi_buckets (sc_memory c)) = nat (mi_capacity (sc_memory c))
     \<and> (\<forall>i < nat (mi_capacity (sc_memory c)). \<exists>ls. bucket_ok c L i ls)
     \<and> inj_on (\<lambda>l. he_key (entry c l)) (set L)"

lemma bucket_index_less: "0 < mi_capacity (sc_memory c) \<Longrightarrow> HT_GET_BUCKET_INDEX c key < nat (mi_capacity (sc_memory c))"
  by (simp add: HT_GET_BUCKET_INDEX_def)

lemma bucket_index_cong:
  "sc_config c' = sc_config c \<Longrightarrow> mi_capacity (sc_memory c') = mi_capacity (sc_memory c) \<Longrightarrow>
   HT_GET_BUCKET_INDEX c' key = HT_GET_BUCKET_INDEX c key"
  by (simp add: HT_GET_BUCKET_INDEX_def)

section \<open>The invariant without the buckets\<close>

definition core_inv :: "shmcache_context \<Rightarrow> entry_loc list \<Rightarrow> entry_loc list \<Rightarrow> bool" where
  "core_inv c L M \<longleftrightarrow> ctx_ok c \<and> allocs_ok c \<and> pools_ok c \<and> blocks_ok c (L @ M) \<and> distinct (L @ M)
     \<and> dlist c L \<and> count_ok c L M \<and> list_all (\<lambda>l. payload_ok (entry c l)) L"

lemma core_invD:
  assumes "core_inv c L M"
  shows "ctx_ok c" "segments_open c" "allocs_ok c" "pools_ok c" "blocks_ok c (L @ M)" "distinct (L @ M)"
    "dlist c L" "count_ok c L M" "list_all (\<lambda>l. payload_ok (entry c l)) L"
  using assms by (simp_all add: core_inv_def ctx_ok_def)

lemma core_inv_live: "core_inv c L M \<Longrightarrow> l \<in> set (L @ M) \<Longrightarrow> loc_live c l"
  by (auto simp: core_inv_def blocks_ok_def block_ok_def list_all_iff)

section \<open>The whole invariant and the abstract content\<close>

definition cache_inv :: "shmcache_context \<Rightarrow> entry_loc list \<Rightarrow> bool" where
  "cache_inv c L \<longleftrightarrow> core_inv c L [] \<and> ht_ok c L"

text \<open>The value stored in an entry, and the finite map that a cache represents.\<close>

definition entry_value :: "shm_hash_entry \<Rightarrow> shmcache_value_info" where
  "entry_value e = \<lparr>vi_data = he_data e, vi_options = he_value_options e, vi_expires = he_expires e\<rparr>"

definition entry_pairs :: "shmcache_context \<Rightarrow> entry_loc list \<Rightarrow> (bytes \<times> shmcache_value_info) list" where
  "entry_pairs c L = map (\<lambda>l. (he_key (entry c l), entry_value (entry c l))) L"

definition cache_map :: "shmcache_context \<Rightarrow> entry_loc list \<Rightarrow> bytes \<rightharpoonup> shmcache_value_info" where
  "cache_map c L = map_of (entry_pairs c L)"

lemma entry_value_payload: "payload e = payload e' \<Longrightarrow> entry_value e = entry_value e'"
  by (simp add: payload_def entry_value_def)

lemma entry_pairs_cong:
  "(\<And>l. l \<in> set L \<Longrightarrow> payload (entry c' l) = payload (entry c l)) \<Longrightarrow> entry_pairs c' L = entry_pairs c L"
  by (auto simp: entry_pairs_def dest: payload_fields entry_value_payload)

lemma map_of_inj_split:
  "inj_on f (set (A @ l # B)) \<Longrightarrow> distinct (A @ l # B) \<Longrightarrow> map_of (map (\<lambda>x. (f x, g x)) (A @ l # B)) (f l) = Some (g l)"
proof -
  assume "inj_on f (set (A @ l # B))" "distinct (A @ l # B)"
  then have "f l \<notin> f ` set A" by (auto simp: inj_on_def)
  then have "map_of (map (\<lambda>x. (f x, g x)) A) (f l) = None" by (simp add: map_of_eq_None_iff image_image)
  then show ?thesis by (simp add: map_add_def)
qed

lemma cache_map_Some:
  assumes "inj_on (\<lambda>l. he_key (entry c l)) (set L)" and "distinct L" and "l \<in> set L"
  shows "cache_map c L (he_key (entry c l)) = Some (entry_value (entry c l))"
proof -
  obtain A B where "L = A @ l # B" using assms(3) by (meson split_list)
  then show ?thesis
    unfolding cache_map_def entry_pairs_def
    using map_of_inj_split [of "\<lambda>l. he_key (entry c l)" A l B "\<lambda>l. entry_value (entry c l)"] assms(1,2) by blast
qed

lemma cache_map_None: "(\<And>l. l \<in> set L \<Longrightarrow> he_key (entry c l) \<noteq> k) \<Longrightarrow> cache_map c L k = None"
  unfolding cache_map_def map_of_eq_None_iff entry_pairs_def set_map image_image fst_conv by blast

end
