(* ===== verification/AllocatorCorrect.thy ===== *)
theory AllocatorCorrect
  imports CacheInv
begin

text \<open>
  The value allocator keeps its invariant: giving a block back, and handing out a new one. Both are
  shown to touch only the allocators, the queues, the usage counter and the new entry's block.
\<close>

section \<open>The allocator part of a context\<close>

definition alloc_inv :: "shmcache_context \<Rightarrow> entry_loc list \<Rightarrow> bool" where
  "alloc_inv c L \<longleftrightarrow> allocs_ok c \<and> pools_ok c \<and> blocks_ok c L"

lemma alloc_inv_cong:
  assumes "alloc_inv c L" and "sc_allocators_offset c' = sc_allocators_offset c"
    and "mi_striping (sc_memory c') = mi_striping (sc_memory c)"
    and "sc_values_count c' = sc_values_count c" and "sc_allocators c' = sc_allocators c"
    and "sc_doing c' = sc_doing c" and "sc_done c' = sc_done c"
    and "\<And>l. l \<in> set L \<Longrightarrow> mem_view (entry c' l) = mem_view (entry c l) \<and> loc_live c' l"
  shows "alloc_inv c' L"
proof -
  have "allocs_ok c'"
    by (rule allocs_ok_same [of c]) (use assms(1) in \<open>simp_all only: alloc_inv_def assms(2-5)\<close>)
  moreover have "pools_ok c'"
    by (rule pools_ok_cong [of c]) (use assms(1) in \<open>simp_all only: alloc_inv_def assms(2-7)\<close>)
  moreover have "blocks_ok c' L"
    by (rule blocks_ok_cong [of c]) (use assms(1) assms(8) in \<open>simp_all only: alloc_inv_def assms(2-7)\<close>)
  ultimately show ?thesis by (simp add: alloc_inv_def)
qed

lemma allocator_offset_frame [simp]:
  "allocator_offset (c\<lparr>sc_doing := d\<rparr>) = allocator_offset c"
  "allocator_offset (c\<lparr>sc_done := d\<rparr>) = allocator_offset c"
  "allocator_offset (set_allocator c j a) = allocator_offset c"
  "allocator_offset (sc_memory_update f c) = allocator_offset c"
  by (simp_all add: fun_eq_iff allocator_offset_def set_allocator_def)

lemma set_allocator_memory [simp]:
  "set_allocator (sc_memory_update f c) j a = sc_memory_update f (set_allocator c j a)"
  "set_allocator (set_allocator c j a) j b = set_allocator c j b"
  by (simp_all add: set_allocator_def)

lemma allocator_offset_pos: "allocs_ok c \<Longrightarrow> 0 < allocator_offset c j"
  by (simp add: allocs_ok_def allocator_offset_def)

lemma map_remove1_inj: "inj f \<Longrightarrow> remove1 (f x) (map f xs) = map f (remove1 x xs)"
  by (induction xs) (auto simp: inj_eq)

lemma inj_allocator_offset: "inj (allocator_offset c)"
  by (simp add: inj_def)

text \<open>Replacing an allocator by one of the same place.\<close>

lemma allocs_ok_set_allocator:
  assumes "allocs_ok c" and "sa_index a = sa_index (allocator c j)" and "sa_base a = sa_base (allocator c j)"
    and "sa_end a = sa_end (allocator c j)" and "sa_in_which_pool a \<in> {POOL_DOING, POOL_DONE}"
    and "j < nstriping c"
  shows "allocs_ok (set_allocator c j a)"
proof (rule allocs_ok_cong [OF assms(1)])
  fix i assume "i < nstriping c"
  then show "sa_index (allocator (set_allocator c j a) i) = sa_index (allocator c i)
      \<and> sa_base (allocator (set_allocator c j a) i) = sa_base (allocator c i)
      \<and> sa_end (allocator (set_allocator c j a) i) = sa_end (allocator c i)
      \<and> sa_in_which_pool (allocator (set_allocator c j a) i) \<in> {POOL_DOING, POOL_DONE}"
    using assms by (cases "i = j") (auto simp: set_allocator_def allocs_ok_def)
qed (simp_all add: set_allocator_def)

section \<open>Moving an allocator between the queues\<close>

lemma do_recycle_done:
  assumes "allocs_ok c" and "pools_rep c D E" and "j \<in> set E"
  obtains c' where "shm_value_allocator_do_recycle c j = Some (0, c')"
    "pools_rep c' (D @ [j]) (remove1 j E)"
    "\<exists>d e. c' = (set_allocator c j ((allocator c j)\<lparr>sa_in_which_pool := POOL_DOING\<rparr>))\<lparr>sc_done := e, sc_doing := d\<rparr>
       \<and> op_capacity d = op_capacity (sc_doing c) \<and> op_capacity e = op_capacity (sc_done c)"
proof -
  let ?off = "allocator_offset c j" and ?a = "(allocator c j)\<lparr>sa_in_which_pool := POOL_DOING\<rparr>"
  have j: "j < nstriping c" "sa_in_which_pool (allocator c j) = POOL_DONE"
    using assms(2,3) by (auto simp: pools_rep_def)
  have len: "nstriping c \<le> length (sc_allocators c)" using assms(1) by (simp add: allocs_ok_def)
  have "\<forall>y \<in> set (pool_list (sc_done c)). 0 < y" "?off \<in> set (pool_list (sc_done c))"
    using assms allocator_offset_pos [OF assms(1)] by (auto simp: pools_rep_def)
  then obtain r e where e: "shm_object_pool_remove_by (sc_done c) ?off = Some (r, e)" "0 < r" "pool_wf e"
    "op_capacity e = op_capacity (sc_done c)" "pool_list e = remove1 ?off (pool_list (sc_done c))"
    using pool_remove_by_found [of "sc_done c" ?off] assms(2) by (auto simp: pools_rep_def)
  let ?d = "shm_object_pool_push (sc_doing c) ?off"
  have wf: "pool_wf (sc_doing c)" using assms(2) by (simp add: pools_rep_def)
  have "length D < nstriping c"
    using assms(2) j distinct_subset_length [of D "nstriping c" "\<lambda>i. sa_in_which_pool (allocator c i) = POOL_DOING" j]
    by (simp add: pools_rep_def)
  then have "length (pool_list (sc_doing c)) < op_capacity (sc_doing c) - 1"
    using assms(2) by (metis (no_types, lifting) pools_rep_def length_map less_diff_conv less_trans_Suc
        Suc_eq_plus1)
  then have d: "pool_wf ?d" "op_capacity ?d = op_capacity (sc_doing c)" "pool_list ?d = pool_list (sc_doing c) @ [?off]"
    using pool_push_laws [OF wf, of ?off] by simp_all
  define c' where "c' = (set_allocator c j ?a)\<lparr>sc_done := e, sc_doing := ?d\<rparr>"
  have run: "shm_value_allocator_do_recycle c j = Some (0, c')"
    using e(1,2) j(2) by (simp add: shm_value_allocator_do_recycle_def c'_def set_allocator_def)
  have al: "allocator c' i = (if i = j then ?a else allocator c i)" if "i < nstriping c" for i
    using that len by (auto simp: c'_def set_allocator_def nth_list_update)
  have ns: "nstriping c' = nstriping c" by (simp add: c'_def set_allocator_def)
  have "{i. i < nstriping c' \<and> sa_in_which_pool (allocator c' i) = POOL_DOING}
      = insert j {i. i < nstriping c \<and> sa_in_which_pool (allocator c i) = POOL_DOING}"
    using al j(1) ns by auto
  moreover have "{i. i < nstriping c' \<and> sa_in_which_pool (allocator c' i) = POOL_DONE}
      = {i. i < nstriping c \<and> sa_in_which_pool (allocator c i) = POOL_DONE} - {j}"
    using al ns by (auto split: if_splits)
  moreover have "j \<notin> set D" using j(2) assms(2) by (auto simp: pools_rep_def)
  ultimately have "pools_rep c' (D @ [j]) (remove1 j E)"
    using assms(2) d e(3-5) unfolding pools_rep_def ns
    by (auto simp: c'_def map_remove1_inj inj_allocator_offset)
  then show thesis
    using run that d(2) e(4) unfolding c'_def by blast
qed

section \<open>Giving a block back\<close>

lemma do_recycle:
  assumes "allocs_ok c" and "pools_ok c" and "j < nstriping c"
  obtains c' where "shm_value_allocator_do_recycle c j = Some (0, c')" "pools_ok c'"
    "\<exists>p d e. c' = (set_allocator c j ((allocator c j)\<lparr>sa_in_which_pool := p\<rparr>))\<lparr>sc_done := e, sc_doing := d\<rparr>
       \<and> p \<in> {POOL_DOING, POOL_DONE}
       \<and> op_capacity d = op_capacity (sc_doing c) \<and> op_capacity e = op_capacity (sc_done c)"
proof (cases "sa_in_which_pool (allocator c j) = POOL_DONE")
  case True
  obtain D E where "pools_rep c D E" using assms(2) by (auto simp: pools_ok_def)
  moreover from this have "j \<in> set E" using True assms(3) by (simp add: pools_rep_def)
  ultimately obtain c' where "shm_value_allocator_do_recycle c j = Some (0, c')" "pools_rep c' (D @ [j]) (remove1 j E)"
    "\<exists>d e. c' = (set_allocator c j ((allocator c j)\<lparr>sa_in_which_pool := POOL_DOING\<rparr>))\<lparr>sc_done := e, sc_doing := d\<rparr>
       \<and> op_capacity d = op_capacity (sc_doing c) \<and> op_capacity e = op_capacity (sc_done c)"
    using do_recycle_done [OF assms(1)] by metis
  then show thesis using that unfolding pools_ok_def by blast
next
  case False
  let ?p = "sa_in_which_pool (allocator c j)"
  have "c = (set_allocator c j ((allocator c j)\<lparr>sa_in_which_pool := ?p\<rparr>))\<lparr>sc_done := sc_done c, sc_doing := sc_doing c\<rparr>"
    by (simp add: set_allocator_def)
  moreover have "?p \<in> {POOL_DOING, POOL_DONE}" using assms(1,3) by (simp add: allocs_ok_def)
  moreover have "shm_value_allocator_do_recycle c j = Some (0, c)"
    using False by (simp add: shm_value_allocator_do_recycle_def)
  ultimately show thesis using that assms(2) by blast
qed

text \<open>What an operation of the allocator may change besides the entries.\<close>

definition alloc_frame :: "shmcache_context \<Rightarrow> shmcache_context \<Rightarrow> bool" where
  "alloc_frame c c' \<longleftrightarrow> (\<exists>A d e u. c' = c\<lparr>sc_memory := (sc_memory c)\<lparr>mi_usage := (mi_usage (sc_memory c))\<lparr>mu_entry := u\<rparr>\<rparr>,
       sc_doing := d, sc_done := e, sc_allocators := A\<rparr>
     \<and> length A = length (sc_allocators c)
     \<and> op_capacity d = op_capacity (sc_doing c) \<and> op_capacity e = op_capacity (sc_done c))"

lemma alloc_frameE:
  assumes "alloc_frame c c'"
  obtains A d e u where "c' = c\<lparr>sc_memory := (sc_memory c)\<lparr>mi_usage := (mi_usage (sc_memory c))\<lparr>mu_entry := u\<rparr>\<rparr>,
       sc_doing := d, sc_done := e, sc_allocators := A\<rparr>"
    "length A = length (sc_allocators c)"
    "op_capacity d = op_capacity (sc_doing c)" "op_capacity e = op_capacity (sc_done c)"
  using assms unfolding alloc_frame_def by blast

lemma blocks_of_split:
  "ssp_striping (he_index (entry c l)) = int j \<Longrightarrow>
   blocks_of c (A @ l # B) j = blocks_of c A j @ (snd l, he_size (entry c l)) # blocks_of c B j"
  by (simp add: blocks_of_def)

lemma blocks_of_skip:
  "ssp_striping (he_index (entry c l)) \<noteq> int j \<Longrightarrow> blocks_of c (A @ l # B) j = blocks_of c (A @ B) j"
  by (simp add: blocks_of_def)

lemma value_allocator_free:
  assumes "alloc_inv c (A @ l # B)"
  obtains recycled' c' where
    "shm_value_allocator_free c (entry c l) recycled = Some (0, recycled', c')" "alloc_inv c' (A @ B)"
    "alloc_frame c c'" "recycled \<Longrightarrow> recycled'"
    "mu_entry (mi_usage (sc_memory c')) = mu_entry (mi_usage (sc_memory c)) - he_size (entry c l)"
proof -
  let ?e = "entry c l"
  have inv: "allocs_ok c" "pools_ok c" "blocks_ok c (A @ l # B)" using assms by (auto simp: alloc_inv_def)
  then have "block_ok c l" by (simp add: blocks_ok_def)
  then obtain j where j: "j < nstriping c" "ssp_striping (he_index ?e) = int j"
    "he_index ?e = sa_index (allocator c j)"
    using block_ok_striping [OF inv(1)] by metis
  have len: "nstriping c \<le> length (sc_allocators c)" using inv(1) by (simp add: allocs_ok_def)
  let ?a = "snd (shm_striping_allocator_free (allocator c j) (he_size ?e))"
    and ?used = "fst (shm_striping_allocator_free (allocator c j) (he_size ?e))"
  have wf: "striping_wf (allocator c j) (blocks_of c A j @ (snd l, he_size ?e) # blocks_of c B j)"
    using inv(3) j(1) by (metis blocks_of_split [OF j(2)] blocks_ok_def)
  have wf': "striping_wf ?a (blocks_of c (A @ B) j)"
    using striping.free_block [OF wf] by (simp add: blocks_of_append)
  have empty: "?used \<le> 0 \<longleftrightarrow> blocks_of c (A @ B) j = []"
    using striping.free_reports_empty [OF wf] by (simp add: blocks_of_append)
  define a where "a = (if ?used \<le> 0 then shm_striping_allocator_reset ?a else ?a)"
  have a: "sa_index a = sa_index (allocator c j)" "sa_base a = sa_base (allocator c j)"
    "sa_end a = sa_end (allocator c j)" "sa_in_which_pool a = sa_in_which_pool (allocator c j)"
    by (simp_all add: a_def frame_simps)
  have wfa: "striping_wf a (blocks_of c (A @ B) j)"
    using wf' empty striping.reset_empty [OF wf'] by (auto simp: a_def)
  define c1 where "c1 = sc_memory_update (mi_usage_update (mu_entry_update (\<lambda>u. u - he_size ?e))) (set_allocator c j a)"
  have blocks: "blocks_ok (set_allocator c j x) (A @ B)"
    if "sa_index x = sa_index (allocator c j)" "striping_wf x (blocks_of c (A @ B) j)" for x
  proof (rule blocks_ok_set_allocator)
    show "list_all (block_ok c) (A @ B)" using inv(3) by (simp add: blocks_ok_def)
    fix i assume i: "i < nstriping c" "i \<noteq> j"
    then have "blocks_of c (A @ l # B) i = blocks_of c (A @ B) i"
      using j(2) by (intro blocks_of_skip) simp
    then show "striping_wf (allocator c i) (blocks_of c (A @ B) i)"
      using inv(3) i(1) by (metis blocks_ok_def)
  qed (use that j len in simp_all)
  have ok: "allocs_ok (set_allocator c j a)"
    using inv(1) j(1) a by (intro allocs_ok_set_allocator) (auto simp: allocs_ok_def)
  have okc: "allocs_ok c1"
    unfolding c1_def by (rule allocs_ok_same [OF ok]) simp_all
  have pools: "pools_ok c1"
    unfolding c1_def
    by (rule pools_ok_cong [OF inv(2)])
      (use a len j(1) in \<open>auto simp: set_allocator_def nth_list_update\<close>)
  show thesis
  proof (cases "?used \<le> 0")
    case True
    have "j < nstriping c1" using j(1) by (simp add: c1_def set_allocator_def)
    then obtain c' p d e where c': "shm_value_allocator_do_recycle c1 j = Some (0, c')" "pools_ok c'"
      "c' = (set_allocator c1 j ((allocator c1 j)\<lparr>sa_in_which_pool := p\<rparr>))\<lparr>sc_done := e, sc_doing := d\<rparr>"
      "p \<in> {POOL_DOING, POOL_DONE}"
      "op_capacity d = op_capacity (sc_doing c1)" "op_capacity e = op_capacity (sc_done c1)"
      using do_recycle [OF okc pools] by metis
    have aj: "allocator c1 j = a" using j(1) len by (simp add: c1_def set_allocator_def)
    have eq: "c' = c\<lparr>sc_memory := (sc_memory c)\<lparr>mi_usage := (mi_usage (sc_memory c))\<lparr>mu_entry :=
        mu_entry (mi_usage (sc_memory c)) - he_size ?e\<rparr>\<rparr>, sc_doing := d, sc_done := e,
        sc_allocators := (sc_allocators c)[j := a\<lparr>sa_in_which_pool := p\<rparr>]\<rparr>"
      unfolding c'(3) aj by (simp add: c1_def set_allocator_def)
    have "shm_value_allocator_free c ?e recycled = Some (0, True, c')"
      using True c'(1) j(2)
      by (simp add: shm_value_allocator_free_def a_def c1_def case_prod_unfold Let_def)
    moreover have "allocs_ok c'"
      by (rule allocs_ok_same [OF allocs_ok_set_allocator [OF inv(1), of "a\<lparr>sa_in_which_pool := p\<rparr>" j]])
        (use c'(4) j(1) a in \<open>simp_all add: eq set_allocator_def\<close>)
    moreover have "blocks_ok c' (A @ B)"
      by (rule blocks_ok_same [OF blocks [of "a\<lparr>sa_in_which_pool := p\<rparr>"]])
        (use a wfa in \<open>simp_all add: eq set_allocator_def\<close>)
    moreover have "alloc_frame c c'"
      unfolding alloc_frame_def by (intro exI conjI, rule eq) (use c'(5,6) in \<open>simp_all add: c1_def set_allocator_def\<close>)
    ultimately show thesis using that c'(2) by (simp add: alloc_inv_def eq)
  next
    case False
    then have "shm_value_allocator_free c ?e recycled = Some (0, recycled, c1)"
      using j(2) by (simp add: shm_value_allocator_free_def a_def c1_def set_allocator_def case_prod_unfold Let_def)
    moreover have "blocks_ok c1 (A @ B)"
      by (rule blocks_ok_same [OF blocks [of a]]) (use a wfa in \<open>simp_all add: c1_def set_allocator_def\<close>)
    moreover have "alloc_frame c c1"
      unfolding alloc_frame_def
      by (rule exI [of _ "(sc_allocators c)[j := a]"], rule exI [of _ "sc_doing c"], rule exI [of _ "sc_done c"],
          rule exI [of _ "mu_entry (mi_usage (sc_memory c)) - he_size ?e"]) (simp add: c1_def set_allocator_def)
    ultimately show thesis using that okc pools by (simp add: alloc_inv_def c1_def set_allocator_def)
  qed
qed

section \<open>Live blocks\<close>

lemma block_range:
  assumes "allocs_ok c" and "blocks_ok c L" and "m \<in> set L"
  obtains i where "i < nstriping c" "fst m = ssp_segment (sa_index (allocator c i))"
    "ssp_striping (he_index (entry c m)) = int i" "0 < he_size (entry c m)"
    "sa_base (allocator c i) \<le> snd m" "snd m + he_size (entry c m) \<le> sa_free (allocator c i)"
    "sa_free (allocator c i) \<le> sa_end (allocator c i)"
proof -
  have "block_ok c m" using assms(2,3) by (simp add: blocks_ok_def list_all_iff)
  then obtain i where i: "i < nstriping c" "ssp_striping (he_index (entry c m)) = int i"
    "fst m = ssp_segment (sa_index (allocator c i))"
    using block_ok_striping [OF assms(1)] by metis
  have "(snd m, he_size (entry c m)) \<in> set (blocks_of c L i)"
    using assms(3) i(2) by (auto simp: blocks_of_def)
  moreover have "striping_wf (allocator c i) (blocks_of c L i)"
    using assms(2) i(1) by (simp add: blocks_ok_def)
  ultimately show thesis
    using that i by (auto simp: striping_wf_def list_all_iff)
qed

lemma stripings_apart:
  assumes "allocs_ok c" and "i < nstriping c" and "j < nstriping c" and "i \<noteq> j"
    and "ssp_segment (sa_index (allocator c i)) = ssp_segment (sa_index (allocator c j))"
  shows "sa_end (allocator c i) \<le> sa_base (allocator c j) \<or> sa_end (allocator c j) \<le> sa_base (allocator c i)"
  using assms unfolding allocs_ok_def by blast

text \<open>Two entries share no byte of the value segments.\<close>

lemma live_blocks_disjoint:
  assumes "allocs_ok c" and "blocks_ok c L" and "l \<in> set L" and "m \<in> set L" and "l \<noteq> m" and "distinct L"
    and "fst l = fst m"
  shows "block_disjoint (snd l, he_size (entry c l)) (snd m, he_size (entry c m))"
proof -
  obtain i where i: "i < nstriping c" "fst l = ssp_segment (sa_index (allocator c i))"
    "ssp_striping (he_index (entry c l)) = int i" "sa_base (allocator c i) \<le> snd l"
    "snd l + he_size (entry c l) \<le> sa_free (allocator c i)" "sa_free (allocator c i) \<le> sa_end (allocator c i)"
    using block_range [OF assms(1-3)] by metis
  obtain j where j: "j < nstriping c" "fst m = ssp_segment (sa_index (allocator c j))"
    "ssp_striping (he_index (entry c m)) = int j" "sa_base (allocator c j) \<le> snd m"
    "snd m + he_size (entry c m) \<le> sa_free (allocator c j)" "sa_free (allocator c j) \<le> sa_end (allocator c j)"
    using block_range [OF assms(1,2,4)] by metis
  show ?thesis
  proof (cases "i = j")
    case True
    have "sorted_wrt block_disjoint (blocks_of c L i)"
      using assms(2) i(1) striping.wf_disjoint by (auto simp: blocks_ok_def)
    then have "sorted_wrt (\<lambda>a b. block_disjoint (snd a, he_size (entry c a)) (snd b, he_size (entry c b)))
        (filter (\<lambda>x. ssp_striping (he_index (entry c x)) = int i) L)"
      by (simp add: blocks_of_def sorted_wrt_map)
    moreover have "l \<in> set (filter (\<lambda>x. ssp_striping (he_index (entry c x)) = int i) L)"
      "m \<in> set (filter (\<lambda>x. ssp_striping (he_index (entry c x)) = int i) L)"
      using assms(3,4) i(3) j(3) True by simp_all
    ultimately show ?thesis
      using assms(5) block_disjoint_sym
      by (metis (no_types, lifting) in_set_conv_nth linorder_neqE_nat sorted_wrt_iff_nth_less)
  next
    case False
    then show ?thesis
      using stripings_apart [OF assms(1) i(1) j(1)] i j assms(7) by (auto simp: block_disjoint_def)
  qed
qed

lemma fresh_location:
  assumes "allocs_ok c" and "blocks_ok c L" and "j < nstriping c" and "0 < sz"
    and "sa_free (allocator c j) + sz \<le> sa_end (allocator c j)" and "sa_base (allocator c j) \<le> sa_free (allocator c j)"
  shows "(ssp_segment (sa_index (allocator c j)), sa_free (allocator c j)) \<notin> set L"
proof
  assume m: "(ssp_segment (sa_index (allocator c j)), sa_free (allocator c j)) \<in> set L"
  show False
  proof (rule block_range [OF assms(1,2) m])
    fix i
    assume i: "i < nstriping c"
      "fst (ssp_segment (sa_index (allocator c j)), sa_free (allocator c j)) = ssp_segment (sa_index (allocator c i))"
      "0 < he_size (entry c (ssp_segment (sa_index (allocator c j)), sa_free (allocator c j)))"
      "sa_base (allocator c i) \<le> snd (ssp_segment (sa_index (allocator c j)), sa_free (allocator c j))"
      "snd (ssp_segment (sa_index (allocator c j)), sa_free (allocator c j))
        + he_size (entry c (ssp_segment (sa_index (allocator c j)), sa_free (allocator c j))) \<le> sa_free (allocator c i)"
      "sa_free (allocator c i) \<le> sa_end (allocator c i)"
    then have "i \<noteq> j" by auto
    then show False
      using stripings_apart [OF assms(1) i(1) assms(3)] i assms(4-6) by simp
  qed
qed

section \<open>Handing out a block\<close>

definition alloc_post ::
  "shmcache_context \<Rightarrow> entry_loc list \<Rightarrow> int \<Rightarrow> entry_loc option \<Rightarrow> shmcache_context \<Rightarrow> bool" where
  "alloc_post c L sz p c' \<longleftrightarrow> alloc_frame c (c'\<lparr>sc_entries := sc_entries c\<rparr>)
     \<and> (case p of
          None \<Rightarrow> sc_entries c' = sc_entries c \<and> alloc_inv c' L
            \<and> mu_entry (mi_usage (sc_memory c')) = mu_entry (mi_usage (sc_memory c))
        | Some l \<Rightarrow> l \<notin> set L \<and> alloc_inv c' (L @ [l])
            \<and> (\<exists>i. sc_entries c' = (sc_entries c)(l \<mapsto> (old_entry c l)\<lparr>he_offset := snd l, he_index := i, he_size := sz\<rparr>))
            \<and> mu_entry (mi_usage (sc_memory c')) = mu_entry (mi_usage (sc_memory c)) + sz)"

lemma alloc_frame_trans:
  assumes "alloc_frame c c1" and "alloc_frame c1 c2"
  shows "alloc_frame c c2"
proof -
  obtain A d e u where 1: "c1 = c\<lparr>sc_memory := (sc_memory c)\<lparr>mi_usage := (mi_usage (sc_memory c))\<lparr>mu_entry := u\<rparr>\<rparr>,
       sc_doing := d, sc_done := e, sc_allocators := A\<rparr>" "length A = length (sc_allocators c)"
    "op_capacity d = op_capacity (sc_doing c)" "op_capacity e = op_capacity (sc_done c)"
    using assms(1) by (rule alloc_frameE)
  obtain A' d' e' u' where 2: "c2 = c1\<lparr>sc_memory := (sc_memory c1)\<lparr>mi_usage := (mi_usage (sc_memory c1))\<lparr>mu_entry := u'\<rparr>\<rparr>,
       sc_doing := d', sc_done := e', sc_allocators := A'\<rparr>" "length A' = length (sc_allocators c1)"
    "op_capacity d' = op_capacity (sc_doing c1)" "op_capacity e' = op_capacity (sc_done c1)"
    using assms(2) by (rule alloc_frameE)
  have "c2 = c\<lparr>sc_memory := (sc_memory c)\<lparr>mi_usage := (mi_usage (sc_memory c))\<lparr>mu_entry := u'\<rparr>\<rparr>,
       sc_doing := d', sc_done := e', sc_allocators := A'\<rparr>"
    unfolding 2(1) 1(1) by simp
  moreover have "length A' = length (sc_allocators c)" "op_capacity d' = op_capacity (sc_doing c)"
    "op_capacity e' = op_capacity (sc_done c)"
    using 2(2-4) 1(2-4) unfolding 1(1) by simp_all
  ultimately show ?thesis unfolding alloc_frame_def by blast
qed

lemma alloc_frame_entries: "alloc_frame c c1 \<Longrightarrow> sc_entries c1 = sc_entries c"
  by (auto elim!: alloc_frameE)

lemma alloc_post_trans:
  assumes "alloc_frame c c1" and "mu_entry (mi_usage (sc_memory c1)) = mu_entry (mi_usage (sc_memory c))"
    and "alloc_post c1 L sz p c'"
  shows "alloc_post c L sz p c'"
  using assms alloc_frame_trans [OF assms(1)] alloc_frame_entries [OF assms(1)]
  unfolding alloc_post_def old_entry_def by (cases p) simp_all

lemma striping_alloc_some:
  assumes "allocs_ok c" and "pools_ok c" and "blocks_ok c L" and "segments_open c"
    and "j < nstriping c" and "0 < sz" and "sz \<le> shm_striping_allocator_free_size (allocator c j)"
  obtains l c' where "shm_value_striping_alloc c j sz = Some (Some l, c')"
    "alloc_post c L sz (Some l) (sc_memory_update (mi_usage_update (mu_entry_update (\<lambda>u. u + sz))) c')"
proof -
  let ?a = "allocator c j"
  have len: "nstriping c \<le> length (sc_allocators c)" using assms(1) by (simp add: allocs_ok_def)
  have wf: "striping_wf ?a (blocks_of c L j)" using assms(3,5) by (simp add: blocks_ok_def)
  define off a' where "off = sa_free ?a" and "a' = snd (shm_striping_allocator_alloc ?a (sc_g_current_time c) sz)"
  define l where "l = (ssp_segment (sa_index ?a), off)"
  have fit: "sa_free ?a + sz \<le> sa_end ?a" "sa_base ?a \<le> sa_free ?a" "0 \<le> sa_base ?a"
    using assms(7) wf by (auto simp: shm_striping_allocator_free_size_def striping_wf_def)
  have al: "shm_striping_allocator_alloc ?a (sc_g_current_time c) sz = (off, a')"
    using fit(1) by (simp add: shm_striping_allocator_alloc_def off_def a'_def)
  have off: "0 \<le> off" "off < 2 ^ 47"
    using fit assms(1,5,6) by (auto simp: off_def allocs_ok_def)
  have a': "sa_index a' = sa_index ?a" "sa_base a' = sa_base ?a" "sa_end a' = sa_end ?a"
    "sa_in_which_pool a' = sa_in_which_pool ?a" by (simp_all add: a'_def frame_simps)
  have wfa': "striping_wf a' (blocks_of c L j @ [(off, sz)])"
    using striping.alloc_some [OF wf assms(6), of "sc_g_current_time c"] al off by simp
  have seg: "0 \<le> ssp_segment (sa_index ?a)" "ssp_segment (sa_index ?a) < 256"
    "ssp_segment (sa_index ?a) < sc_values_count c" "ssp_striping (sa_index ?a) = int j"
    using assms(1,5) by (auto simp: allocs_ok_def)
  have fresh: "l \<notin> set L"
    unfolding l_def off_def by (rule fresh_location [OF assms(1,3,5,6) fit(1,2)])
  define e where "e = (old_entry c l)\<lparr>he_offset := off, he_index := sa_index a', he_size := sz\<rparr>"
  define c' where "c' = (set_allocator c j a')\<lparr>sc_entries := (sc_entries c)(l \<mapsto> e)\<rparr>"
  define c2 where "c2 = sc_memory_update (mi_usage_update (mu_entry_update (\<lambda>u. u + sz))) c'"
  have base: "shmopt_get_value_segment (set_allocator c j a') (ssp_segment (sa_index ?a))
      = (seg_base (sc_values_items c ! nat (ssp_segment (sa_index ?a))), set_allocator c j a')"
    using seg by (simp add: shmopt_get_value_segment_def set_allocator_def)
  have run: "shm_value_striping_alloc c j sz = Some (Some l, c')"
    using off segments_open_base [OF assms(4) seg(1,3)]
    by (simp add: shm_value_striping_alloc_def al a' base c'_def e_def l_def old_entry_def mapped_def)
      (simp add: set_allocator_def Let_def)
  have ok1: "allocs_ok (set_allocator c j a')"
    using assms(1,5) a' by (intro allocs_ok_set_allocator) (auto simp: allocs_ok_def)
  have "allocs_ok c2" unfolding c2_def c'_def by (rule allocs_ok_same [OF ok1]) simp_all
  moreover have "pools_ok c2"
    unfolding c2_def c'_def
    by (rule pools_ok_cong [OF assms(2)]) (use a' len assms(5) in \<open>auto simp: set_allocator_def nth_list_update\<close>)
  moreover have "blocks_ok c2 (L @ [l])"
  proof -
    let ?c1 = "c\<lparr>sc_entries := (sc_entries c)(l \<mapsto> e)\<rparr>"
    have live: "loc_live ?c1 m" if "m \<in> set (L @ [l])" for m
      using that assms(3) seg off
      by (auto simp: loc_live_def loc_ok_def l_def blocks_ok_def block_ok_def list_all_iff)
    have "block_ok ?c1 m" if m: "m \<in> set L" for m
    proof (rule block_ok_cong [of c])
      show "block_ok c m" using assms(3) m by (simp add: blocks_ok_def list_all_iff)
      show "mem_view (entry ?c1 m) = mem_view (entry c m)" using m fresh by auto
      show "loc_live ?c1 m" using live m by simp
    qed simp_all
    moreover have "block_ok ?c1 l"
      using live [of l] assms(5) a' unfolding block_ok_def by (auto simp: e_def l_def)
    ultimately have blk: "list_all (block_ok ?c1) (L @ [l])" by (simp add: list_all_iff)
    have old: "blocks_of ?c1 L i = blocks_of c L i" for i
      by (rule blocks_of_cong) (use fresh in auto)
    have new: "blocks_of ?c1 [l] i = (if i = j then [(off, sz)] else [])" for i
      using seg(4) a' by (auto simp: blocks_of_def e_def l_def)
    have "blocks_ok (set_allocator ?c1 j a') (L @ [l])"
    proof (rule blocks_ok_set_allocator [OF blk])
      show "striping_wf a' (blocks_of ?c1 (L @ [l]) j)" using wfa' by (simp add: blocks_of_append old new)
      fix i assume "i < nstriping ?c1" "i \<noteq> j"
      then show "striping_wf (allocator ?c1 i) (blocks_of ?c1 (L @ [l]) i)"
        using assms(3) by (simp add: blocks_of_append old new blocks_ok_def)
    qed (use assms(5) len a' in simp_all)
    then show ?thesis
      by (rule blocks_ok_same) (simp_all add: c2_def c'_def set_allocator_def)
  qed
  moreover have "alloc_frame c (c2\<lparr>sc_entries := sc_entries c\<rparr>)"
    unfolding alloc_frame_def
    by (rule exI [of _ "(sc_allocators c)[j := a']"], rule exI [of _ "sc_doing c"], rule exI [of _ "sc_done c"],
        rule exI [of _ "mu_entry (mi_usage (sc_memory c)) + sz"]) (simp add: c2_def c'_def set_allocator_def)
  ultimately have "alloc_post c L sz (Some l) c2"
    using fresh by (auto simp: alloc_post_def alloc_inv_def c2_def c'_def e_def l_def set_allocator_def)
  then show thesis using that run unfolding c2_def by blast
qed

subsection \<open>An allocator that is too full\<close>

lemma alloc_frame_refl [simp]: "alloc_frame c c"
  unfolding alloc_frame_def
  by (rule exI [of _ "sc_allocators c"], rule exI [of _ "sc_doing c"], rule exI [of _ "sc_done c"],
      rule exI [of _ "mu_entry (mi_usage (sc_memory c))"]) simp

lemma alloc_frame_set:
  "op_capacity d = op_capacity (sc_doing c) \<Longrightarrow> op_capacity e = op_capacity (sc_done c) \<Longrightarrow>
   alloc_frame c ((set_allocator c j a)\<lparr>sc_doing := d, sc_done := e\<rparr>)"
  unfolding alloc_frame_def
  by (rule exI [of _ "(sc_allocators c)[j := a]"], rule exI [of _ d], rule exI [of _ e],
      rule exI [of _ "mu_entry (mi_usage (sc_memory c))"]) (simp add: set_allocator_def)

lemma pools_rep_set_doing:
  assumes "pools_rep c D E" and "pool_list d = map (allocator_offset c) D'" and "pool_wf d"
    and "op_capacity d = op_capacity (sc_doing c)" and "distinct D'" and "set D' \<subseteq> set D"
  shows "pools_rep (c\<lparr>sc_doing := d\<rparr>) D' E"
  using assms unfolding pools_rep_def by (simp; blast)

lemma pools_rep_discard:
  assumes "allocs_ok c" and "pools_rep c (j # D) E" and "pool_list d = map (allocator_offset c) D" and "pool_wf d"
    and "op_capacity d = op_capacity (sc_doing c)"
  shows "pools_rep ((set_allocator c j ((allocator c j)\<lparr>sa_in_which_pool := POOL_DONE\<rparr>))
      \<lparr>sc_doing := d, sc_done := shm_object_pool_push (sc_done c) (allocator_offset c j)\<rparr>) D (E @ [j])"
    (is "pools_rep ?c' _ _")
proof -
  have j: "j < nstriping c" "sa_in_which_pool (allocator c j) = POOL_DOING" "j \<notin> set E" "j \<notin> set D"
    using assms(2) by (auto simp: pools_rep_def)
  have len: "nstriping c \<le> length (sc_allocators c)" using assms(1) by (simp add: allocs_ok_def)
  have wf: "pool_wf (sc_done c)" using assms(2) by (simp add: pools_rep_def)
  have "length E < nstriping c"
    using assms(2) j distinct_subset_length [of E "nstriping c" "\<lambda>i. sa_in_which_pool (allocator c i) = POOL_DONE" j]
    by (simp add: pools_rep_def)
  then have "length (pool_list (sc_done c)) < op_capacity (sc_done c) - 1"
    using assms(2) by (metis (no_types, lifting) pools_rep_def length_map less_diff_conv less_trans_Suc Suc_eq_plus1)
  then have p: "pool_wf (sc_done ?c')" "op_capacity (sc_done ?c') = op_capacity (sc_done c)"
    "pool_list (sc_done ?c') = pool_list (sc_done c) @ [allocator_offset c j]"
    using pool_push_laws [OF wf, of "allocator_offset c j"] by simp_all
  have al: "allocator ?c' i = (if i = j then (allocator c j)\<lparr>sa_in_which_pool := POOL_DONE\<rparr> else allocator c i)"
    if "i < nstriping c" for i
    using that len by (auto simp: set_allocator_def nth_list_update)
  have ns: "nstriping ?c' = nstriping c" by (simp add: set_allocator_def)
  have "{i. i < nstriping c \<and> sa_in_which_pool (allocator ?c' i) = POOL_DOING}
      = {i. i < nstriping c \<and> sa_in_which_pool (allocator c i) = POOL_DOING} - {j}"
    using al by (auto split: if_splits)
  moreover have "{i. i < nstriping c \<and> sa_in_which_pool (allocator ?c' i) = POOL_DONE}
      = insert j {i. i < nstriping c \<and> sa_in_which_pool (allocator c i) = POOL_DONE}"
    using al j(1) by auto
  ultimately show ?thesis
    using assms(2-5) j p unfolding pools_rep_def ns by auto
qed

lemma discard_allocator:
  assumes "allocs_ok c" and "blocks_ok c L" and "pools_rep c D E" and "pool_at (sc_doing c) k"
  obtains c' D' E' k' where "discard_allocator c (D ! k) (allocator_offset c (D ! k)) = Some c'"
    "allocs_ok c'" "blocks_ok c' L" "pools_rep c' D' E'" "pool_before (sc_doing c') k'"
    "length D' - k' < length D - k" "alloc_frame c c'"
    "mu_entry (mi_usage (sc_memory c')) = mu_entry (mi_usage (sc_memory c))"
proof -
  let ?j = "D ! k" and ?a = "allocator c (D ! k)"
  have wf: "pool_wf (sc_doing c)" and pl: "pool_list (sc_doing c) = map (allocator_offset c) D"
    and dist: "distinct D"
    using assms(3) by (simp_all add: pools_rep_def)
  have k: "k < length D" using assms(4) pl by (metis length_map length_pool_list pool_at_def)
  show thesis
  proof (cases "shm_striping_allocator_free_size ?a \<le> cfg_discard_memory_size (sc_config c)
      \<or> sa_fail_times ?a > cfg_max_fail_times (sc_config c)")
    case False
    then have "discard_allocator c ?j (allocator_offset c ?j) = Some c"
      by (simp add: discard_allocator_def)
    then show thesis
      using that [OF _ assms(1-3) pool_at_before [OF wf assms(4)]] k by simp
  next
    case cond: True
    obtain d where d: "shm_object_pool_remove (sc_doing c) = Some (pool_list (sc_doing c) ! (k - 1), d)"
      "pool_list d = take k (pool_list (sc_doing c)) @ drop (Suc k) (pool_list (sc_doing c))"
      "pool_wf d" "op_capacity d = op_capacity (sc_doing c)" "pool_before d k"
      using pool_remove [OF wf assms(4)] by metis
    let ?D = "take k D @ drop (Suc k) D"
    have d2: "pool_list d = map (allocator_offset c) ?D" using d(2) pl by (simp add: take_map drop_map)
    have removed: "pool_list (sc_doing c) ! (k - 1) = allocator_offset c (D ! (k - 1))" using pl k by simp
    have len: "length ?D - k < length D - k" using k by simp
    show thesis
    proof (cases "k = 0")
      case True
      let ?c' = "(set_allocator c ?j (?a\<lparr>sa_in_which_pool := POOL_DONE\<rparr>))
          \<lparr>sc_doing := d, sc_done := shm_object_pool_push (sc_done c) (allocator_offset c ?j)\<rparr>"
      have D: "D = ?j # drop (Suc 0) D" using True k by (metis Cons_nth_drop_Suc drop0)
      have jn: "?j < nstriping c" using assms(3) nth_mem [OF k] unfolding pools_rep_def by blast
      have run: "discard_allocator c ?j (allocator_offset c ?j) = Some ?c'"
        using d(1) removed cond True by (simp add: discard_allocator_def set_allocator_def)
      have "pools_rep ?c' (drop (Suc 0) D) (E @ [?j])"
        using pools_rep_discard [OF assms(1), of ?j "drop (Suc 0) D" E d] assms(3) D d2 d(3,4) True by simp
      moreover have "allocs_ok ?c'"
        by (rule allocs_ok_same [OF allocs_ok_set_allocator [OF assms(1), of "?a\<lparr>sa_in_which_pool := POOL_DONE\<rparr>" ?j]])
          (use jn in simp_all)
      moreover have "blocks_ok (set_allocator c ?j (?a\<lparr>sa_in_which_pool := POOL_DONE\<rparr>)) L"
        using assms(1,2) jn by (intro blocks_ok_set_allocator) (auto simp: blocks_ok_def allocs_ok_def)
      then have "blocks_ok ?c' L" by (rule blocks_ok_same) simp_all
      moreover have "alloc_frame c ?c'"
        using d(4) assms(3) by (intro alloc_frame_set) (simp_all add: pool_push_laws pools_rep_def)
      ultimately show thesis
        using that [OF run, of "drop (Suc 0) D" "E @ [?j]" 0] d(5) len True
        by (simp add: set_allocator_def)
    next
      case False
      have "allocator_offset c (D ! (k - 1)) \<noteq> allocator_offset c ?j"
        using dist k False by (simp add: nth_eq_iff_index_eq)
      then have run: "discard_allocator c ?j (allocator_offset c ?j) = Some (c\<lparr>sc_doing := d\<rparr>)"
        using d(1) removed cond by (simp add: discard_allocator_def)
      have "pools_rep (c\<lparr>sc_doing := d\<rparr>) ?D E"
        using dist k
        by (intro pools_rep_set_doing [OF assms(3) d2 d(3,4)])
          (auto dest: in_set_takeD in_set_dropD simp: set_take_disj_set_drop_if_distinct)
      moreover have "alloc_frame c (c\<lparr>sc_doing := d\<rparr>)"
        using alloc_frame_set [of d c "sc_done c" 0 "allocator c 0"] d(4) by (simp add: set_allocator_def)
      moreover have "allocs_ok (c\<lparr>sc_doing := d\<rparr>)" "blocks_ok (c\<lparr>sc_doing := d\<rparr>) L"
        using allocs_ok_same [OF assms(1)] blocks_ok_same [OF assms(2)] by simp_all
      ultimately show thesis
        using that [OF run, of ?D E k] d(5) len by simp
    qed
  qed
qed

subsection \<open>The loop over the doing queue\<close>

lemma striping_alloc_none:
  "shm_striping_allocator_free_size (allocator c j) < sz \<Longrightarrow>
   shm_value_striping_alloc c j sz
     = Some (None, set_allocator c j ((allocator c j)\<lparr>sa_fail_times := sa_fail_times (allocator c j) + 1\<rparr>))"
  by (simp add: shm_value_striping_alloc_def shm_striping_allocator_alloc_def shm_striping_allocator_free_size_def)

lemma fail_times_kept:
  fixes n :: int
  assumes "allocs_ok c" and "blocks_ok c L" and "pools_rep c D E" and "j < nstriping c"
  defines "c' \<equiv> set_allocator c j ((allocator c j)\<lparr>sa_fail_times := n\<rparr>)"
  shows "allocs_ok c'" and "blocks_ok c' L" and "pools_rep c' D E" and "alloc_frame c c'"
proof -
  have len: "nstriping c \<le> length (sc_allocators c)" using assms(1) by (simp add: allocs_ok_def)
  show "allocs_ok c'"
    unfolding c'_def using assms(1,4) by (intro allocs_ok_set_allocator) (auto simp: allocs_ok_def)
  have "striping_wf ((allocator c j)\<lparr>sa_fail_times := n\<rparr>) bs = striping_wf (allocator c j) bs" for bs
    by (simp add: striping_wf_def)
  then show "blocks_ok c' L"
    unfolding c'_def using assms(2,4) len by (intro blocks_ok_set_allocator) (auto simp: blocks_ok_def)
  show "pools_rep c' D E"
    unfolding c'_def
    by (rule pools_rep_cong [OF assms(3)]) (use len assms(4) in \<open>auto simp: set_allocator_def nth_list_update\<close>)
  show "alloc_frame c c'"
    using alloc_frame_set [of "sc_doing c" c "sc_done c" j "(allocator c j)\<lparr>sa_fail_times := n\<rparr>"]
    by (simp add: c'_def set_allocator_def)
qed

lemma segments_open_alloc_frame: "alloc_frame c c' \<Longrightarrow> segments_open c' = segments_open c"
  by (auto simp: segments_open_def elim!: alloc_frameE)

lemma alloc_post_none:
  "alloc_frame c c' \<Longrightarrow> mu_entry (mi_usage (sc_memory c')) = mu_entry (mi_usage (sc_memory c)) \<Longrightarrow>
   allocs_ok c' \<Longrightarrow> blocks_ok c' L \<Longrightarrow> pools_rep c' D E \<Longrightarrow> alloc_post c L sz None c'"
  unfolding alloc_post_def alloc_inv_def pools_ok_def
  using alloc_frame_entries [of c c'] by (auto simp flip: alloc_frame_entries)

lemma do_alloc_loop_step:
  assumes "allocs_ok c" and "blocks_ok c L" and "pools_rep c D E" and "segments_open c"
    and "pool_at (sc_doing c) k" and "0 < sz"
  shows "\<exists>p c'. do_alloc_loop sz (allocator_offset c (D ! k)) c = Some (p, c') \<and> alloc_post c L sz p c'"
  using assms(1-5)
proof (induction "length D - k" arbitrary: c D E k rule: less_induct)
  case less
  let ?j = "D ! k"
  have pl: "pool_list (sc_doing c) = map (allocator_offset c) D" using less.prems(3) by (simp add: pools_rep_def)
  have k: "k < length D" using less.prems(5) pl by (metis length_map length_pool_list pool_at_def)
  have j: "?j < nstriping c" using less.prems(3) nth_mem [OF k] unfolding pools_rep_def by blast
  have pos: "0 < allocator_offset c ?j" by (rule allocator_offset_pos [OF less.prems(1)])
  show ?case
  proof (cases "shm_striping_allocator_free_size (allocator c ?j) < sz")
    case False
    have "pools_ok c" using less.prems(3) by (auto simp: pools_ok_def)
    then obtain l c' where "shm_value_striping_alloc c ?j sz = Some (Some l, c')"
      "alloc_post c L sz (Some l) (sc_memory_update (mi_usage_update (mu_entry_update (\<lambda>u. u + sz))) c')"
      using striping_alloc_some [OF less.prems(1) _ less.prems(2,4) j assms(6)] False by (metis not_less)
    then show ?thesis
      using pos by (subst do_alloc_loop.simps) simp
  next
    case True
    define c1 where "c1 = set_allocator c ?j ((allocator c ?j)\<lparr>sa_fail_times := sa_fail_times (allocator c ?j) + 1\<rparr>)"
    note fail = fail_times_kept [OF less.prems(1-3) j, of "sa_fail_times (allocator c ?j) + 1", folded c1_def]
    have off1: "allocator_offset c1 = allocator_offset c" and at1: "pool_at (sc_doing c1) k"
      and mu1: "mu_entry (mi_usage (sc_memory c1)) = mu_entry (mi_usage (sc_memory c))"
      using less.prems(5) by (simp_all add: c1_def) (simp_all add: set_allocator_def)
    obtain c2 D' E' k' where c2: "discard_allocator c1 ?j (allocator_offset c1 ?j) = Some c2"
      "allocs_ok c2" "blocks_ok c2 L" "pools_rep c2 D' E'" "pool_before (sc_doing c2) k'"
      "length D' - k' < length D - k" "alloc_frame c1 c2"
      "mu_entry (mi_usage (sc_memory c2)) = mu_entry (mi_usage (sc_memory c1))"
      using discard_allocator [OF fail(1-3) at1] by metis
    define d where "d = snd (shm_object_pool_next (sc_doing c2))"
    define c3 where "c3 = c2\<lparr>sc_doing := d\<rparr>"
    have wf2: "pool_wf (sc_doing c2)" and pl2: "pool_list (sc_doing c2) = map (allocator_offset c2) D'"
      using c2(4) by (simp_all add: pools_rep_def)
    note nx = pool_next [OF wf2 c2(5), folded d_def]
    have cap: "op_capacity d = op_capacity (sc_doing c2)"
      by (simp add: d_def shm_object_pool_next_def Let_def)
    have c3: "allocs_ok c3" "blocks_ok c3 L" "pools_rep c3 D' E'" "alloc_frame c2 c3"
      "mu_entry (mi_usage (sc_memory c3)) = mu_entry (mi_usage (sc_memory c2))"
      using allocs_ok_same [OF c2(2)] blocks_ok_same [OF c2(3)]
        pools_rep_set_doing [OF c2(4), of d D'] nx pl2 cap c2(4) alloc_frame_set [of d c2 "sc_done c2" 0 "allocator c2 0"]
      by (simp_all add: c3_def pools_rep_def set_allocator_def)
    have frame: "alloc_frame c c3" and mu: "mu_entry (mi_usage (sc_memory c3)) = mu_entry (mi_usage (sc_memory c))"
      using fail(4) c2(7,8) c3(4,5) mu1 alloc_frame_trans by metis+
    have run: "do_alloc_loop sz (allocator_offset c ?j) c = do_alloc_loop sz (fst (shm_object_pool_next (sc_doing c2))) c3"
      using pos c2(1) striping_alloc_none [OF True, folded c1_def] off1
      by (subst do_alloc_loop.simps) (simp add: c3_def d_def case_prod_unfold Let_def)
    show ?thesis
    proof (cases "k' < length D'")
      case True
      have at: "pool_at (sc_doing c3) k'" and fst: "fst (shm_object_pool_next (sc_doing c2)) = allocator_offset c3 (D' ! k')"
        using nx True pl2 by (simp_all add: c3_def)
      obtain p c' where "do_alloc_loop sz (allocator_offset c3 (D' ! k')) c3 = Some (p, c')" "alloc_post c3 L sz p c'"
        using less.hyps [OF c2(6) c3(1-3) _ at] segments_open_alloc_frame [OF frame] less.prems(4) by auto
      then show ?thesis using run fst alloc_post_trans [OF frame mu] by auto
    next
      case False
      have "fst (shm_object_pool_next (sc_doing c2)) = - 1" using nx(1) False pl2 by simp
      then have "do_alloc_loop sz (allocator_offset c ?j) c = Some (None, c3)"
        using run by (subst (asm) do_alloc_loop.simps) simp
      then show ?thesis using alloc_post_none [OF frame mu c3(1-3)] by blast
    qed
  qed
qed

lemma value_allocator_do_alloc:
  assumes "alloc_inv c L" and "segments_open c" and "0 < sz"
  obtains p c' where "shm_value_allocator_do_alloc c sz = Some (p, c')" "alloc_post c L sz p c'"
proof -
  obtain D E where rep: "pools_rep c D E" using assms(1) by (auto simp: alloc_inv_def pools_ok_def)
  have ok: "allocs_ok c" "blocks_ok c L" using assms(1) by (simp_all add: alloc_inv_def)
  have wf: "pool_wf (sc_doing c)" and pl: "pool_list (sc_doing c) = map (allocator_offset c) D"
    using rep by (simp_all add: pools_rep_def)
  define d where "d = snd (shm_object_pool_first (sc_doing c))"
  define c1 where "c1 = c\<lparr>sc_doing := d\<rparr>"
  note first = pool_first [OF wf, folded d_def]
  have cap: "op_capacity d = op_capacity (sc_doing c)"
    by (simp add: d_def shm_object_pool_first_def Let_def)
  have c1: "allocs_ok c1" "blocks_ok c1 L" "pools_rep c1 D E" "alloc_frame c c1"
    "mu_entry (mi_usage (sc_memory c1)) = mu_entry (mi_usage (sc_memory c))"
    using allocs_ok_same [OF ok(1)] blocks_ok_same [OF ok(2)]
      pools_rep_set_doing [OF rep, of d D] first pl cap rep alloc_frame_set [of d c "sc_done c" 0 "allocator c 0"]
    by (simp_all add: c1_def pools_rep_def set_allocator_def)
  have run: "shm_value_allocator_do_alloc c sz = do_alloc_loop sz (fst (shm_object_pool_first (sc_doing c))) c1"
    by (simp add: shm_value_allocator_do_alloc_def case_prod_unfold Let_def c1_def d_def)
  show thesis
  proof (cases D)
    case Nil
    then have "do_alloc_loop sz (fst (shm_object_pool_first (sc_doing c))) c1 = Some (None, c1)"
      using first(1) pl by (subst do_alloc_loop.simps) simp
    then show thesis using that run alloc_post_none [OF c1(4,5,1-3)] by simp
  next
    case (Cons j D')
    then have at: "pool_at (sc_doing c1) 0" and off: "fst (shm_object_pool_first (sc_doing c)) = allocator_offset c1 (D ! 0)"
      using first pl by (simp_all add: c1_def)
    have "segments_open c1" using assms(2) segments_open_alloc_frame [OF c1(4)] by simp
    then obtain p c' where "do_alloc_loop sz (allocator_offset c1 (D ! 0)) c1 = Some (p, c')" "alloc_post c1 L sz p c'"
      using do_alloc_loop_step [OF c1(1-3) _ at assms(3)] by blast
    then show thesis using that run off alloc_post_trans [OF c1(4,5)] by simp
  qed
qed

end
