(* ===== verification/HashTableCorrect.thy ===== *)
theory HashTableCorrect
  imports AllocatorCorrect
begin

text \<open>
  The operations of the hash table on the represented map: lookup, deletion, change of the expiry
  time and clearing. Each is shown to keep the invariant and to do on the map what its name says.
\<close>

text \<open>Addresses are pairs; quantifiers over them stay as they are.\<close>

declare split_paired_All [simp del] split_paired_Ex [simp del]

section \<open>Frames\<close>

lemma core_inv_same:
  assumes "core_inv c L M" and "sc_entries c' = sc_entries c" and "sc_allocators c' = sc_allocators c"
    and "sc_allocators_offset c' = sc_allocators_offset c" and "sc_doing c' = sc_doing c"
    and "sc_done c' = sc_done c" and "sc_values_count c' = sc_values_count c"
    and "sc_values_items c' = sc_values_items c" and "sc_list_head_offset c' = sc_list_head_offset c"
    and "mi_striping (sc_memory c') = mi_striping (sc_memory c)" and "mi_head (sc_memory c') = mi_head (sc_memory c)"
    and "mi_count (sc_memory c') = mi_count (sc_memory c)" and "mi_usage (sc_memory c') = mi_usage (sc_memory c)"
  shows "core_inv c' L M"
proof -
  note inv = core_invD [OF assms(1)]
  have live: "loc_live c' = loc_live c" by (simp add: fun_eq_iff loc_live_def assms)
  have "ctx_ok c'" using inv(1) by (simp add: ctx_ok_def segments_open_def assms(7-9))
  moreover have "allocs_ok c'" by (rule allocs_ok_same [OF inv(3) assms(4,10,7,3)])
  moreover have "pools_ok c'" by (rule pools_ok_cong [OF inv(4) assms(4,10,5,6)]) (simp only: assms(3))
  moreover have "blocks_ok c' (L @ M)" by (rule blocks_ok_same [OF inv(5) assms(10,3,2,7)])
  moreover have "dlist c' L"
    by (rule dlist_cong [OF inv(7)])
      (use dlist_live [OF inv(7)] in \<open>simp_all only: live node.simps assms(2,11)\<close>)
  moreover have "count_ok c' L M" using inv(8) by (simp only: count_ok_def assms(2,12,13))
  ultimately show ?thesis
    using inv(6,9) unfolding core_inv_def by (simp only: assms(2))
qed

lemma ht_ok_same:
  assumes "ht_ok c L" and "sc_entries c' = sc_entries c" and "sc_config c' = sc_config c"
    and "mi_buckets (sc_memory c') = mi_buckets (sc_memory c)" and "mi_capacity (sc_memory c') = mi_capacity (sc_memory c)"
  shows "ht_ok c' L"
proof -
  have "HT_GET_BUCKET_INDEX c' = HT_GET_BUCKET_INDEX c"
    by (simp add: fun_eq_iff HT_GET_BUCKET_INDEX_def assms(3,5))
  then show ?thesis using assms(1) unfolding ht_ok_def bucket_ok_def assms(2,4,5) by simp
qed

definition frame :: "shmcache_context \<Rightarrow> shmcache_context \<Rightarrow> bool" where
  "frame c c' \<longleftrightarrow> (\<exists>H n u d e A en. c' = c\<lparr>sc_memory := (sc_memory c)\<lparr>mi_usage := u, mi_head := H, mi_count := n\<rparr>,
       sc_doing := d, sc_done := e, sc_allocators := A, sc_entries := en\<rparr>
     \<and> length A = length (sc_allocators c)
     \<and> op_capacity d = op_capacity (sc_doing c) \<and> op_capacity e = op_capacity (sc_done c)
     \<and> mu_alloced u = mu_alloced (mi_usage (sc_memory c)) \<and> mu_common u = mu_common (mi_usage (sc_memory c)))"

lemma frameE:
  assumes "frame c c'"
  obtains H n u d e A en where
    "c' = c\<lparr>sc_memory := (sc_memory c)\<lparr>mi_usage := u, mi_head := H, mi_count := n\<rparr>,
       sc_doing := d, sc_done := e, sc_allocators := A, sc_entries := en\<rparr>"
    "length A = length (sc_allocators c)" "op_capacity d = op_capacity (sc_doing c)"
    "op_capacity e = op_capacity (sc_done c)" "mu_alloced u = mu_alloced (mi_usage (sc_memory c))"
    "mu_common u = mu_common (mi_usage (sc_memory c))"
  using assms unfolding frame_def by blast

lemma frame_fields [frame_simps]:
  assumes "frame c c'"
  shows "sc_config c' = sc_config c" "mi_buckets (sc_memory c') = mi_buckets (sc_memory c)"
    "mi_capacity (sc_memory c') = mi_capacity (sc_memory c)" "mi_segment (sc_memory c') = mi_segment (sc_memory c)"
    "mi_striping (sc_memory c') = mi_striping (sc_memory c)" "mi_stats (sc_memory c') = mi_stats (sc_memory c)"
    "sc_values_count c' = sc_values_count c" "sc_values_items c' = sc_values_items c"
    "sc_fastcommon c' = sc_fastcommon c" "sc_env c' = sc_env c" "sc_g_current_time c' = sc_g_current_time c"
    "sc_allocators_offset c' = sc_allocators_offset c" "length (sc_allocators c') = length (sc_allocators c)"
    "op_capacity (sc_doing c') = op_capacity (sc_doing c)" "op_capacity (sc_done c') = op_capacity (sc_done c)"
    "sc_list_head_offset c' = sc_list_head_offset c"
    "mu_alloced (mi_usage (sc_memory c')) = mu_alloced (mi_usage (sc_memory c))"
    "mu_common (mi_usage (sc_memory c')) = mu_common (mi_usage (sc_memory c))"
  using assms by (auto elim!: frameE)

lemma frame_refl [simp]: "frame c c"
  unfolding frame_def
  by (rule exI [of _ "mi_head (sc_memory c)"], rule exI [of _ "mi_count (sc_memory c)"], rule exI [of _ "mi_usage (sc_memory c)"],
      rule exI [of _ "sc_doing c"], rule exI [of _ "sc_done c"], rule exI [of _ "sc_allocators c"],
      rule exI [of _ "sc_entries c"]) simp

lemma frameI:
  assumes "c' = c\<lparr>sc_memory := (sc_memory c)\<lparr>mi_usage := u, mi_head := H, mi_count := n\<rparr>,
       sc_doing := d, sc_done := e, sc_allocators := A, sc_entries := en\<rparr>"
    and "length A = length (sc_allocators c)" and "op_capacity d = op_capacity (sc_doing c)"
    and "op_capacity e = op_capacity (sc_done c)" and "mu_alloced u = mu_alloced (mi_usage (sc_memory c))"
    and "mu_common u = mu_common (mi_usage (sc_memory c))"
  shows "frame c c'"
  unfolding frame_def using assms by blast

lemma frame_trans:
  assumes "frame c c1" and "frame c1 c2"
  shows "frame c c2"
proof -
  from assms(1) obtain H n u d e A en where 1:
    "c1 = c\<lparr>sc_memory := (sc_memory c)\<lparr>mi_usage := u, mi_head := H, mi_count := n\<rparr>,
       sc_doing := d, sc_done := e, sc_allocators := A, sc_entries := en\<rparr>" by (rule frameE)
  from assms(2) obtain H' n' u' d' e' A' en' where 2:
    "c2 = c1\<lparr>sc_memory := (sc_memory c1)\<lparr>mi_usage := u', mi_head := H', mi_count := n'\<rparr>,
       sc_doing := d', sc_done := e', sc_allocators := A', sc_entries := en'\<rparr>" by (rule frameE)
  have "c2 = c\<lparr>sc_memory := (sc_memory c)\<lparr>mi_usage := u', mi_head := H', mi_count := n'\<rparr>,
       sc_doing := d', sc_done := e', sc_allocators := A', sc_entries := en'\<rparr>"
    unfolding 2 1 by simp
  then show ?thesis
  proof (rule frameI)
    show "length A' = length (sc_allocators c)" "op_capacity d' = op_capacity (sc_doing c)"
      "op_capacity e' = op_capacity (sc_done c)" "mu_alloced u' = mu_alloced (mi_usage (sc_memory c))"
      "mu_common u' = mu_common (mi_usage (sc_memory c))"
      using frame_fields(13-15,17,18) [OF assms(1)] frame_fields(13-15,17,18) [OF assms(2)] unfolding 2 by simp_all
  qed
qed

lemma frame_relinked:
  assumes "relinked c c'"
  shows "frame c c'"
proof -
  obtain H E where "c' = c\<lparr>sc_memory := (sc_memory c)\<lparr>mi_head := H\<rparr>, sc_entries := E\<rparr>"
    using relinked_context [OF assms] .
  then have "c' = c\<lparr>sc_memory := (sc_memory c)\<lparr>mi_usage := mi_usage (sc_memory c), mi_head := H,
      mi_count := mi_count (sc_memory c)\<rparr>, sc_doing := sc_doing c, sc_done := sc_done c,
      sc_allocators := sc_allocators c, sc_entries := E\<rparr>" by simp
  then show ?thesis by (rule frameI) simp_all
qed

lemma frame_alloc_frame:
  assumes "alloc_frame c c'"
  shows "frame c c'"
proof -
  obtain A d e u where 1: "c' = c\<lparr>sc_memory := (sc_memory c)\<lparr>mi_usage := (mi_usage (sc_memory c))\<lparr>mu_entry := u\<rparr>\<rparr>,
       sc_doing := d, sc_done := e, sc_allocators := A\<rparr>" "length A = length (sc_allocators c)"
    "op_capacity d = op_capacity (sc_doing c)" "op_capacity e = op_capacity (sc_done c)"
    using assms by (rule alloc_frameE)
  have "c' = c\<lparr>sc_memory := (sc_memory c)\<lparr>mi_usage := (mi_usage (sc_memory c))\<lparr>mu_entry := u\<rparr>,
      mi_head := mi_head (sc_memory c), mi_count := mi_count (sc_memory c)\<rparr>, sc_doing := d, sc_done := e,
      sc_allocators := A, sc_entries := sc_entries c\<rparr>" using 1(1) by simp
  then show ?thesis by (rule frameI) (simp_all add: 1)
qed

lemma frame_entries: "frame c (c\<lparr>sc_entries := en\<rparr>)"
proof -
  have "c\<lparr>sc_entries := en\<rparr> = c\<lparr>sc_memory := (sc_memory c)\<lparr>mi_usage := mi_usage (sc_memory c), mi_head := mi_head (sc_memory c),
      mi_count := mi_count (sc_memory c)\<rparr>, sc_doing := sc_doing c, sc_done := sc_done c,
      sc_allocators := sc_allocators c, sc_entries := en\<rparr>" by simp
  then show ?thesis by (rule frameI) simp_all
qed

lemma frame_counts:
  assumes "mu_alloced u = mu_alloced (mi_usage (sc_memory c))" and "mu_common u = mu_common (mi_usage (sc_memory c))"
  shows "frame c (c\<lparr>sc_memory := (sc_memory c)\<lparr>mi_count := n, mi_usage := u\<rparr>\<rparr>)"
proof -
  have "c\<lparr>sc_memory := (sc_memory c)\<lparr>mi_count := n, mi_usage := u\<rparr>\<rparr> =
    c\<lparr>sc_memory := (sc_memory c)\<lparr>mi_usage := u, mi_head := mi_head (sc_memory c),
      mi_count := n\<rparr>, sc_doing := sc_doing c, sc_done := sc_done c,
      sc_allocators := sc_allocators c, sc_entries := sc_entries c\<rparr>" by simp
  then show ?thesis by (rule frameI) (simp_all add: assms)
qed

lemma frame_upd_entry: "frame c (upd_entry f c l)"
  unfolding upd_entry_def by (rule frame_entries)

text \<open>Entries that keep what the invariant looks at.\<close>

definition entries_kept :: "shmcache_context \<Rightarrow> shmcache_context \<Rightarrow> entry_loc set \<Rightarrow> bool" where
  "entries_kept c c' S \<longleftrightarrow> (\<forall>m. loc_live c m \<longrightarrow> loc_live c' m
     \<and> (m \<notin> S \<longrightarrow> mem_view (entry c' m) = mem_view (entry c m) \<and> payload (entry c' m) = payload (entry c m)
          \<and> he_ht_next (entry c' m) = he_ht_next (entry c m)))"

lemma entries_keptD:
  assumes "entries_kept c c' S" and "loc_live c m"
  shows "loc_live c' m" "m \<notin> S \<Longrightarrow> mem_view (entry c' m) = mem_view (entry c m)"
    "m \<notin> S \<Longrightarrow> payload (entry c' m) = payload (entry c m)"
    "m \<notin> S \<Longrightarrow> he_ht_next (entry c' m) = he_ht_next (entry c m)"
    "m \<notin> S \<Longrightarrow> he_key (entry c' m) = he_key (entry c m)"
  using assms by (auto simp: entries_kept_def dest: payload_fields(5))

lemma entries_kept_trans: "entries_kept c c1 S \<Longrightarrow> entries_kept c1 c2 S \<Longrightarrow> entries_kept c c2 S"
  by (simp add: entries_kept_def)

lemma entries_kept_mono: "entries_kept c c1 S \<Longrightarrow> S \<subseteq> T \<Longrightarrow> entries_kept c c1 T"
  by (auto simp: entries_kept_def)

lemma entries_kept_relinked: "relinked c c' \<Longrightarrow> entries_kept c c' {}"
  using relinked_views [of c c'] relinked_live [of c c'] by (simp add: entries_kept_def)

section \<open>Freeing an entry\<close>

text \<open>Parts of the invariant only depend on what \<^const>\<open>entries_kept\<close> keeps.\<close>

lemma alloc_inv_kept:
  assumes "alloc_inv c L" and "entries_kept c c' S" and "S \<inter> set L = {}"
    and "sc_allocators_offset c' = sc_allocators_offset c" and "mi_striping (sc_memory c') = mi_striping (sc_memory c)"
    and "sc_values_count c' = sc_values_count c" and "sc_allocators c' = sc_allocators c"
    and "sc_doing c' = sc_doing c" and "sc_done c' = sc_done c"
  shows "alloc_inv c' L"
proof (rule alloc_inv_cong [OF assms(1,4-9)])
  fix l assume l: "l \<in> set L"
  then have "loc_live c l" using assms(1) by (auto simp: alloc_inv_def blocks_ok_def block_ok_def list_all_iff)
  then show "mem_view (entry c' l) = mem_view (entry c l) \<and> loc_live c' l"
    using entries_keptD [OF assms(2)] assms(3) l by blast
qed

lemma payload_ok_kept:
  assumes "list_all (\<lambda>l. payload_ok (entry c l)) L" and "entries_kept c c' S" and "S \<inter> set L = {}"
    and "\<And>l. l \<in> set L \<Longrightarrow> loc_live c l"
  shows "list_all (\<lambda>l. payload_ok (entry c' l)) L"
  unfolding list_all_iff
proof
  fix l assume l: "l \<in> set L"
  have "payload (entry c' l) = payload (entry c l)"
    using entries_keptD(3) [OF assms(2) assms(4) [OF l]] assms(3) l by blast
  then show "payload_ok (entry c' l)"
    using assms(1) l payload_ok_payload by (metis list_all_iff)
qed

lemma core_inv_alloc: "core_inv c L M \<Longrightarrow> alloc_inv c (L @ M)"
  by (simp add: core_inv_def alloc_inv_def)

lemma entries_kept_upd:
  "(\<And>e. mem_view (f e) = mem_view e) \<Longrightarrow> entries_kept c (upd_entry f c l) {l}"
  by (auto simp: entries_kept_def upd_entry_def loc_live_def)

lemma entries_kept_same:
  "sc_entries c' = sc_entries c \<Longrightarrow> sc_values_count c' = sc_values_count c \<Longrightarrow> entries_kept c c' {}"
  by (simp add: entries_kept_def loc_live_def)

lemma sum_split: "(\<Sum>x\<leftarrow>A @ l # B. f x) = f l + (\<Sum>x\<leftarrow>A @ B. (f x :: int))"
  by simp

lemma free_entry:
  assumes "core_inv c (A @ l # B) M"
  obtains recycled' c' where "shm_ht_free_entry c (Some l) (loc_offset l) recycled = Some (recycled', c')"
    "core_inv c' (A @ B) M" "frame c c'" "entries_kept c c' {l}" "recycled \<Longrightarrow> recycled'"
proof -
  note inv = core_invD [OF assms]
  let ?e = "entry c l"
  have live: "loc_live c m" if "m \<in> set ((A @ l # B) @ M)" for m using core_inv_live [OF assms that] .
  define u where "u = (mi_usage (sc_memory c))\<lparr>mu_value := mu_value (mi_usage (sc_memory c)) - he_value_length ?e,
      mu_key := mu_key (mi_usage (sc_memory c)) - he_key_len ?e\<rparr>"
  define c1 where "c1 = c\<lparr>sc_memory := (sc_memory c)\<lparr>mi_count := mi_count (sc_memory c) - 1, mi_usage := u\<rparr>\<rparr>"
  have k1: "entries_kept c c1 {}" by (rule entries_kept_same) (simp_all add: c1_def)
  have f1: "frame c c1"
    unfolding c1_def by (rule frame_counts) (simp_all add: u_def)
  have "ctx_ok c1" using inv(1) by (simp add: c1_def ctx_ok_def segments_open_def)
  moreover have "dlist c1 (A @ l # B)"
    by (rule dlist_cong [OF inv(7)])
      (use dlist_live [OF inv(7)] entries_keptD(1) [OF k1] in \<open>simp_all add: c1_def node.simps\<close>)
  ultimately obtain c2 where c2: "shm_list_delete c1 (loc_offset l) = Some c2" "dlist c2 (A @ B)" "relinked c1 c2"
    using dlist_delete by metis
  have k2: "entries_kept c c2 {}" and f2: "frame c c2"
    using k1 f1 entries_kept_relinked [OF c2(3)] frame_relinked [OF c2(3)] entries_kept_trans frame_trans by blast+
  have ctx2: "ctx_ok c2" using \<open>ctx_ok c1\<close> relinked_ctx_ok [OF c2(3)] by simp
  have views: "mem_view (entry c2 l) = mem_view ?e" "loc_live c2 l"
    using entries_keptD [OF k2, of l] live by simp_all
  obtain H E where c2eq: "c2 = c1\<lparr>sc_memory := (sc_memory c1)\<lparr>mi_head := H\<rparr>, sc_entries := E\<rparr>"
    using relinked_context [OF c2(3)] .
  have "alloc_inv c2 ((A @ l # B) @ M)"
    by (rule alloc_inv_kept [OF core_inv_alloc [OF assms] k2]) (simp_all add: c2eq c1_def)
  then have "alloc_inv c2 (A @ l # (B @ M))" by simp
  then obtain recycled' c3 where c3: "shm_value_allocator_free c2 (entry c2 l) recycled = Some (0, recycled', c3)"
    "alloc_inv c3 (A @ B @ M)" "alloc_frame c2 c3" "recycled \<Longrightarrow> recycled'"
    "mu_entry (mi_usage (sc_memory c3)) = mu_entry (mi_usage (sc_memory c2)) - he_size (entry c2 l)"
    using value_allocator_free by metis
  have en3: "sc_entries c3 = sc_entries c2" "sc_values_count c3 = sc_values_count c2"
    using alloc_frame_entries [OF c3(3)] frame_fields(7) [OF frame_alloc_frame [OF c3(3)]] by simp_all
  define c4 where "c4 = upd_entry (he_ht_next_update (\<lambda>_. 0)) c3 l"
  have live3: "loc_live c3 l" using views(2) by (simp add: loc_live_def en3)
  have "hentry_write (he_ht_next_update (\<lambda>_. 0)) c3 (Some l) = Some c4"
    using hentry_write_live [OF live3] by (simp add: c4_def)
  moreover have "hentry_read c2 (Some l) = Some (entry c2 l)" "hentry_read c (Some l) = Some ?e"
    using hentry_read_live views(2) live by simp_all
  moreover have "sc_memory_update (mi_usage_update (mu_key_update (\<lambda>k. k - he_key_len ?e)) \<circ>
      mi_usage_update (mu_value_update (\<lambda>v. v - he_value_length ?e)) \<circ> mi_count_update (\<lambda>n. n - 1)) c = c1"
    by (simp add: c1_def u_def)
  ultimately have run: "shm_ht_free_entry c (Some l) (loc_offset l) recycled = Some (recycled', c4)"
    using c2(1) c3(1) by (simp add: shm_ht_free_entry_def)
  have k3: "entries_kept c2 c3 {}" by (rule entries_kept_same [OF en3])
  have k4: "entries_kept c3 c4 {l}" unfolding c4_def by (rule entries_kept_upd) (simp add: mem_view_def)
  have kept: "entries_kept c c4 {l}"
    using k2 k3 k4 entries_kept_mono [of _ _ "{}" "{l}"] entries_kept_trans by blast
  have fr: "frame c c4"
    using f2 frame_alloc_frame [OF c3(3)] frame_upd_entry frame_trans unfolding c4_def by blast
  have dl4: "dlist c4 (A @ B)"
  proof (rule dlist_cong [OF c2(2)])
    fix m assume "m \<in> set (A @ B)"
    then have "loc_live c m" using live [of m] by auto
    then show "loc_live c4 m" using entries_keptD(1) [OF kept] by blast
    show "he_list (entry c4 m) = he_list (entry c2 m)"
      using live3 by (simp add: c4_def en3 loc_live_def)
  next
    show "node c4 Head_Ptr = node c2 Head_Ptr"
      using c3(3) by (auto simp: c4_def node.simps upd_entry_def elim!: alloc_frameE)
  qed
  have "alloc_inv c4 (A @ B @ M)"
    by (rule alloc_inv_kept [OF c3(2) k4]) (use inv(6) in \<open>auto simp: c4_def upd_entry_def\<close>)
  moreover have "ctx_ok c4"
    using ctx2 c3(3) by (auto simp: ctx_ok_def segments_open_def c4_def upd_entry_def elim!: alloc_frameE)
  moreover have "count_ok c4 (A @ B) M"
  proof -
    have pay: "payload (entry c4 m) = payload (entry c m) \<and> mem_view (entry c4 m) = mem_view (entry c m)"
      if "m \<in> set ((A @ B) @ M)" for m
      using that inv(6) entries_keptD(2,3) [OF kept live, of m] by auto
    have mem: "mi_count (sc_memory c4) = mi_count (sc_memory c1)" "mu_key (mi_usage (sc_memory c4)) = mu_key u"
      "mu_value (mi_usage (sc_memory c4)) = mu_value u"
      "mu_entry (mi_usage (sc_memory c4)) = mu_entry (mi_usage (sc_memory c3))"
      "mu_entry (mi_usage (sc_memory c2)) = mu_entry u"
      using c3(3) by (auto simp: c4_def upd_entry_def c2eq c1_def elim!: alloc_frameE)
    have pay1: "m \<in> set (A @ B) \<Longrightarrow> payload (entry c4 m) = payload (entry c m)"
      and pay2: "m \<in> set ((A @ B) @ M) \<Longrightarrow> mem_view (entry c4 m) = mem_view (entry c m)" for m
      using pay [of m] by (simp; blast)+
    have "(\<Sum>l\<leftarrow>A @ B. he_key_len (entry c4 l)) = (\<Sum>l\<leftarrow>A @ B. he_key_len (entry c l))"
      by (rule sum_list_map_cong, rule payload_fields(1), erule pay1)
    moreover have "(\<Sum>l\<leftarrow>A @ B. he_value_length (entry c4 l)) = (\<Sum>l\<leftarrow>A @ B. he_value_length (entry c l))"
      by (rule sum_list_map_cong, rule payload_fields(3), erule pay1)
    moreover have "(\<Sum>l\<leftarrow>(A @ B) @ M. he_size (entry c4 l)) = (\<Sum>l\<leftarrow>(A @ B) @ M. he_size (entry c l))"
      by (rule sum_list_map_cong, rule mem_view_fields(1), erule pay2)
    ultimately show ?thesis
      using inv(8) mem c3(5) mem_view_fields(1) [OF views(1)]
      unfolding count_ok_def by (simp add: c1_def u_def)
  qed
  moreover have "list_all (\<lambda>l. payload_ok (entry c4 l)) (A @ B)"
    by (rule payload_ok_kept [OF _ kept]) (use inv(6,9) live in auto)
  ultimately have "core_inv c4 (A @ B) M"
    using dl4 inv(6) by (simp add: core_inv_def alloc_inv_def)
  then show thesis using that run fr kept c3(4) by blast
qed

section \<open>The chain walk\<close>

lemma key_equals: "payload_ok e \<Longrightarrow> HT_KEY_EQUALS e key = (he_key e = key)"
  by (auto simp: HT_KEY_EQUALS_def payload_ok_def)

abbreviation (input) chain_of :: "shmcache_context \<Rightarrow> int \<Rightarrow> entry_loc list \<Rightarrow> bool" where
  "chain_of c \<equiv> chain (\<lambda>l. he_ht_next (entry c l))"

lemma ht_search_skip:
  assumes "ctx_ok c" and "list_all (\<lambda>l. loc_live c l \<and> payload_ok (entry c l) \<and> he_key (entry c l) \<noteq> key) P"
    and "chain_of c off (P @ S)"
  shows "\<exists>off'. chain_of c off' S
    \<and> ht_search c key off previous = ht_search c key off' (if P = [] then previous else Some (last P))"
  using assms(2,3)
proof (induction P arbitrary: off previous)
  case Nil
  then show ?case by auto
next
  case (Cons l P)
  have l: "loc_live c l" "payload_ok (entry c l)" "he_key (entry c l) \<noteq> key" "off = loc_offset l"
    using Cons.prems by simp_all
  have "0 < loc_offset l" using l(1) loc_offset_pos by (simp add: loc_live_def)
  then have "ht_search c key off previous = ht_search c key (he_ht_next (entry c l)) (Some l)"
    using l get_hentry_ptr_live [OF assms(1) l(1)] hentry_read_live [OF l(1)]
    by (subst ht_search.simps) (simp add: key_equals)
  moreover have "chain_of c (he_ht_next (entry c l)) (P @ S)" using Cons.prems by simp
  ultimately show ?case
    using Cons.IH [of "he_ht_next (entry c l)" "Some l"] Cons.prems(1) by (cases "P = []") simp_all
qed

lemma ht_search_found:
  assumes "ctx_ok c" and "list_all (\<lambda>l. loc_live c l \<and> payload_ok (entry c l)) (P @ l # S)"
    and "chain_of c off (P @ l # S)" and "he_key (entry c l) = key"
    and "\<And>m. m \<in> set P \<Longrightarrow> he_key (entry c m) \<noteq> key"
  shows "ht_search c key off None = Some (loc_offset l, Some l, if P = [] then None else Some (last P), c)"
proof -
  have l: "loc_live c l" "payload_ok (entry c l)" using assms(2) by simp_all
  have skip: "list_all (\<lambda>l. loc_live c l \<and> payload_ok (entry c l) \<and> he_key (entry c l) \<noteq> key) P"
    using assms(2,5) by (simp add: list_all_iff)
  obtain off' where off': "chain_of c off' (l # S)"
    "ht_search c key off None = ht_search c key off' (if P = [] then None else Some (last P))"
    using ht_search_skip [OF assms(1) skip assms(3)] by blast
  have "0 < loc_offset l" using l(1) loc_offset_pos by (simp add: loc_live_def)
  then show ?thesis
    using off' l assms(4) get_hentry_ptr_live [OF assms(1) l(1)] hentry_read_live [OF l(1)]
    by (subst (asm) (2) ht_search.simps) (simp add: key_equals)
qed

lemma ht_search_absent:
  assumes "ctx_ok c" and "list_all (\<lambda>l. loc_live c l \<and> payload_ok (entry c l)) P"
    and "chain_of c off P" and "\<And>m. m \<in> set P \<Longrightarrow> he_key (entry c m) \<noteq> key"
  shows "ht_search c key off None = Some (0, None, if P = [] then None else Some (last P), c)"
proof -
  have skip: "list_all (\<lambda>l. loc_live c l \<and> payload_ok (entry c l) \<and> he_key (entry c l) \<noteq> key) P"
    using assms(2,4) by (simp add: list_all_iff)
  obtain off' where off': "chain_of c off' []"
    "ht_search c key off None = ht_search c key off' (if P = [] then None else Some (last P))"
    using ht_search_skip [OF assms(1) skip, of off "[]" None] assms(3) by auto
  then show ?thesis by (subst (asm) (2) ht_search.simps) simp
qed

text \<open>
  The lookup of a key in a table: the entry that has it with its chain, or the whole chain of its
  bucket.
\<close>

lemma ht_lookup_cases:
  assumes "core_inv c L M" and "ht_ok c L"
  obtains (found) l P S where "l \<in> set L" "he_key (entry c l) = key"
      "bucket_ok c L (HT_GET_BUCKET_INDEX c key) (P @ l # S)"
      "ht_lookup c key = Some (loc_offset l, Some l, if P = [] then None else Some (last P), c)"
      "0 < loc_offset l"
  | (absent) P where "\<And>l. l \<in> set L \<Longrightarrow> he_key (entry c l) \<noteq> key"
      "bucket_ok c L (HT_GET_BUCKET_INDEX c key) P"
      "ht_lookup c key = Some (0, None, if P = [] then None else Some (last P), c)"
proof -
  note inv = core_invD [OF assms(1)]
  let ?i = "HT_GET_BUCKET_INDEX c key"
  obtain ls where ls: "bucket_ok c L ?i ls"
    using assms(2) bucket_index_less unfolding ht_ok_def by blast
  then have set: "set ls = {l \<in> set L. bucket_of c l = ?i}" and ch: "chain_of c (mi_buckets (sc_memory c) ! ?i) ls"
    and dist: "distinct ls" by (simp_all add: bucket_ok_def)
  have ok: "list_all (\<lambda>l. loc_live c l \<and> payload_ok (entry c l)) ls"
    unfolding list_all_iff
  proof
    fix m assume "m \<in> set ls"
    then have "m \<in> set L" using set by simp
    then show "loc_live c m \<and> payload_ok (entry c m)"
      using core_inv_live [OF assms(1), of m] inv(9) by (simp add: list_all_iff)
  qed
  show thesis
  proof (cases "\<exists>l \<in> set L. he_key (entry c l) = key")
    case True
    then obtain l where l: "l \<in> set L" "he_key (entry c l) = key" by blast
    then have "l \<in> set ls" using set by simp
    then obtain P S where PS: "ls = P @ l # S" by (meson split_list)
    have "he_key (entry c m) \<noteq> key" if "m \<in> set P" for m
    proof
      assume "he_key (entry c m) = key"
      moreover have "m \<in> set L" using that PS set by auto
      ultimately have "m = l" using l assms(2) by (simp add: ht_ok_def inj_on_def)
      then show False using that PS dist by auto
    qed
    then have "ht_lookup c key = Some (loc_offset l, Some l, if P = [] then None else Some (last P), c)"
      unfolding ht_lookup_def
      using ht_search_found [OF inv(1), of P l S "mi_buckets (sc_memory c) ! ?i" key] ok ch l(2) PS by simp
    moreover have "0 < loc_offset l"
      using core_inv_live [OF assms(1), of l] l(1) loc_offset_pos by (simp add: loc_live_def)
    ultimately show thesis using found l ls PS by blast
  next
    case False
    then have "ht_lookup c key = Some (0, None, if ls = [] then None else Some (last ls), c)"
      unfolding ht_lookup_def using set by (intro ht_search_absent [OF inv(1) ok ch]) auto
    then show thesis using absent False ls by blast
  qed
qed

section \<open>Lookup\<close>

lemma get_value_ptr_live:
  assumes "core_inv c L M" and "l \<in> set (L @ M)"
  shows "shm_get_value_ptr c (entry c l) = (Some l, c)"
proof -
  note inv = core_invD [OF assms(1)]
  have "block_ok c l" using inv(5) assms(2) by (simp add: blocks_ok_def list_all_iff)
  then have l: "ssp_segment (he_index (entry c l)) = fst l" "he_offset (entry c l) = snd l"
    "0 \<le> fst l" "fst l < sc_values_count c"
    by (auto simp: block_ok_def loc_live_def loc_ok_def)
  then show ?thesis
    using get_value_segment_open [OF inv(2) l(3,4)] segments_open_base [OF inv(2) l(3,4)]
    by (simp add: shm_get_value_ptr_def)
qed

lemma entry_is_valid_now_env:
  "snd (entry_is_valid_now c e) = c \<or> snd (entry_is_valid_now c e) = snd (sys Sys_get_current_time c)"
  by (simp add: entry_is_valid_now_def case_prod_unfold Let_def)

text \<open>The lookup is the lookup in the represented map, with the expiry test on top.\<close>

lemma ht_get_map:
  assumes "cache_inv c L"
  shows "shm_ht_get c key = (case cache_map c L key of
      None \<Rightarrow> Some (ENOENT, None, c)
    | Some v \<Rightarrow>
        if vi_expires v = 0 then Some (0, Some v, c)
        else (let (t, c') = get_current_time c in
              Some (if vi_expires v \<ge> t then 0 else ETIMEDOUT, Some v, c')))"
proof -
  have inv: "core_inv c L []" "ht_ok c L" using assms by (simp_all add: cache_inv_def)
  from inv show ?thesis
  proof (cases rule: ht_lookup_cases [where key = key])
    case (found l P S)
    have v: "cache_map c L key = Some (entry_value (entry c l))"
      using cache_map_Some [of c L l] inv(2) core_invD(6) [OF inv(1)] found(1,2) by (simp add: ht_ok_def)
    have "payload_ok (entry c l)" using core_invD(9) [OF inv(1)] found(1) by (simp add: list_all_iff)
    then have "take (nat (he_value_length (entry c l))) (he_data (entry c l)) = he_data (entry c l)"
      by (simp add: payload_ok_def)
    then show ?thesis
      using v found(4,5) hentry_read_live [OF core_inv_live [OF inv(1), of l]] found(1)
        get_value_ptr_live [OF inv(1), of l]
      by (simp add: shm_ht_get_def entry_is_valid_now_def entry_value_def case_prod_unfold Let_def)
  next
    case (absent P)
    then show ?thesis using cache_map_None [of L c key] by (simp add: shm_ht_get_def)
  qed
qed

section \<open>Changing one chain\<close>

lemma chain_remove:
  "chain nx off (P @ l # S) \<Longrightarrow> distinct (P @ l # S) \<Longrightarrow> P \<noteq> [] \<Longrightarrow> chain (nx(last P := nx l)) off (P @ S)"
proof (induction P arbitrary: off)
  case (Cons p P)
  show ?case
  proof (cases "P = []")
    case True
    have "chain (nx(p := nx l)) (nx l) S"
      by (rule chain_cong [of nx]) (use Cons.prems True in auto)
    then show ?thesis using Cons.prems True by (simp add: fun_upd_def)
  next
    case False
    have "p \<noteq> last P" using Cons.prems False by (auto dest: last_in_set)
    then show ?thesis using Cons.IH [of "nx p"] Cons.prems False by simp
  qed
qed simp

lemma chain_append: "chain nx off P \<Longrightarrow> distinct P \<Longrightarrow> P \<noteq> [] \<Longrightarrow> l \<notin> set P \<Longrightarrow> nx l = 0 \<Longrightarrow>
  chain (nx(last P := loc_offset l)) off (P @ [l])"
proof (induction P arbitrary: off)
  case (Cons p P)
  show ?case
  proof (cases "P = []")
    case False
    then have "p \<noteq> last P" using Cons.prems by (auto dest: last_in_set)
    then show ?thesis using Cons.IH [of "nx p"] Cons.prems False by simp
  qed (use Cons.prems in auto)
qed simp

lemma ht_ok_change:
  assumes "ht_ok c L" and "sc_config c' = sc_config c" and "mi_capacity (sc_memory c') = mi_capacity (sc_memory c)"
    and "length (mi_buckets (sc_memory c')) = length (mi_buckets (sc_memory c))"
    and "\<And>j. j \<noteq> i \<Longrightarrow> mi_buckets (sc_memory c') ! j = mi_buckets (sc_memory c) ! j"
    and "\<And>m. m \<in> set L \<Longrightarrow> bucket_of c m \<noteq> i \<Longrightarrow> m \<in> set L' \<and> he_key (entry c' m) = he_key (entry c m)
      \<and> he_ht_next (entry c' m) = he_ht_next (entry c m)"
    and "\<And>m. m \<in> set L' \<Longrightarrow> bucket_of c' m \<noteq> i \<Longrightarrow> m \<in> set L \<and> he_key (entry c' m) = he_key (entry c m)"
    and "bucket_ok c' L' i ls" and "inj_on (\<lambda>l. he_key (entry c' l)) (set L')"
  shows "ht_ok c' L'"
proof -
  have idx: "HT_GET_BUCKET_INDEX c' k = HT_GET_BUCKET_INDEX c k" for k
    by (rule bucket_index_cong [OF assms(2,3)])
  have "\<exists>ls. bucket_ok c' L' j ls" if j: "j < nat (mi_capacity (sc_memory c))" for j
  proof (cases "j = i")
    case True
    then show ?thesis using assms(8) by blast
  next
    case False
    obtain ls where ls: "bucket_ok c L j ls" using assms(1) j by (auto simp: ht_ok_def)
    then have set: "set ls = {l \<in> set L. bucket_of c l = j}" by (simp add: bucket_ok_def)
    have "chain_of c' (mi_buckets (sc_memory c') ! j) ls"
      unfolding assms(5) [OF False]
    proof (rule chain_cong)
      show "chain_of c (mi_buckets (sc_memory c) ! j) ls" using ls by (simp add: bucket_ok_def)
      fix m assume "m \<in> set ls"
      then show "he_ht_next (entry c' m) = he_ht_next (entry c m)"
        using set False assms(6) [of m] by simp
    qed
    moreover have "set ls = {l \<in> set L'. bucket_of c' l = j}"
    proof (rule set_eqI)
      fix m
      have "m \<in> set L \<and> bucket_of c m = j \<longleftrightarrow> m \<in> set L' \<and> bucket_of c' m = j"
        using False assms(6) [of m] assms(7) [of m] by (metis idx)
      then show "(m \<in> set ls) = (m \<in> {l \<in> set L'. bucket_of c' l = j})"
        by (simp only: set mem_Collect_eq)
    qed
    moreover have "distinct ls" using ls by (simp add: bucket_ok_def)
    ultimately show ?thesis unfolding bucket_ok_def by blast
  qed
  then show ?thesis
    using assms(1,3,4,9) unfolding ht_ok_def by simp
qed

lemma set_bucket_fields [simp]:
  "sc_config (set_bucket c i off) = sc_config c" "sc_entries (set_bucket c i off) = sc_entries c"
  "mi_buckets (sc_memory (set_bucket c i off)) = (mi_buckets (sc_memory c))[i := off]"
  "mi_capacity (sc_memory (set_bucket c i off)) = mi_capacity (sc_memory c)"
  by (simp_all add: set_bucket_def)

lemma core_inv_set_bucket: "core_inv c L M \<Longrightarrow> core_inv (set_bucket c i off) L M"
  by (rule core_inv_same) (simp_all add: set_bucket_def)

lemma core_inv_ht_next:
  assumes "core_inv c L M"
  shows "core_inv (upd_entry (he_ht_next_update f) c p) L M" (is "core_inv ?c' _ _")
proof -
  note inv = core_invD [OF assms]
  have views: "mem_view (entry ?c' m) = mem_view (entry c m)" "payload (entry ?c' m) = payload (entry c m)"
    "he_list (entry ?c' m) = he_list (entry c m)" if "m \<in> set (L @ M)" for m
    using core_inv_live [OF assms that]
    by (auto simp: upd_entry_def loc_live_def mem_view_def payload_def)
  have live: "loc_live ?c' m" if "m \<in> set (L @ M)" for m using core_inv_live [OF assms that] by simp
  have "alloc_inv ?c' (L @ M)"
    by (rule alloc_inv_cong [OF core_inv_alloc [OF assms]]) (use views live in \<open>simp_all add: upd_entry_def\<close>)
  moreover have "ctx_ok ?c'" using inv(1) by (simp add: ctx_ok_def segments_open_def upd_entry_def)
  moreover have "dlist ?c' L"
    by (rule dlist_cong [OF inv(7)]) (use views live in \<open>simp_all add: node.simps upd_entry_def\<close>)
  moreover have "count_ok ?c' L M"
    by (rule count_ok_cong [OF inv(8)]) (use views in \<open>simp_all add: upd_entry_def\<close>)
  moreover have "list_all (\<lambda>l. payload_ok (entry ?c' l)) L"
    using inv(9) payload_ok_payload [OF views(2)] unfolding list_all_iff by simp
  ultimately show ?thesis using inv(6) by (simp add: core_inv_def alloc_inv_def)
qed

section \<open>Deletion\<close>

text \<open>What an operation of the table may change: the buckets and what \<^const>\<open>frame\<close> allows.\<close>

definition ht_frame :: "shmcache_context \<Rightarrow> shmcache_context \<Rightarrow> bool" where
  "ht_frame c c' \<longleftrightarrow> (\<exists>b. length b = length (mi_buckets (sc_memory c))
     \<and> frame (c\<lparr>sc_memory := (sc_memory c)\<lparr>mi_buckets := b\<rparr>\<rparr>) c')"

lemma ht_frame_fields [frame_simps]:
  assumes "ht_frame c c'"
  shows "sc_config c' = sc_config c" "length (mi_buckets (sc_memory c')) = length (mi_buckets (sc_memory c))"
    "mi_capacity (sc_memory c') = mi_capacity (sc_memory c)" "mi_segment (sc_memory c') = mi_segment (sc_memory c)"
    "mi_striping (sc_memory c') = mi_striping (sc_memory c)" "mi_stats (sc_memory c') = mi_stats (sc_memory c)"
    "sc_values_count c' = sc_values_count c" "sc_values_items c' = sc_values_items c"
    "sc_fastcommon c' = sc_fastcommon c" "sc_env c' = sc_env c" "sc_g_current_time c' = sc_g_current_time c"
    "sc_allocators_offset c' = sc_allocators_offset c" "length (sc_allocators c') = length (sc_allocators c)"
    "op_capacity (sc_doing c') = op_capacity (sc_doing c)" "op_capacity (sc_done c') = op_capacity (sc_done c)"
    "sc_list_head_offset c' = sc_list_head_offset c"
    "mu_alloced (mi_usage (sc_memory c')) = mu_alloced (mi_usage (sc_memory c))"
    "mu_common (mi_usage (sc_memory c')) = mu_common (mi_usage (sc_memory c))"
  using assms unfolding ht_frame_def by (auto dest: frame_fields)

lemma frame_set_buckets:
  assumes "frame c c'"
  shows "frame (c\<lparr>sc_memory := (sc_memory c)\<lparr>mi_buckets := b\<rparr>\<rparr>) (c'\<lparr>sc_memory := (sc_memory c')\<lparr>mi_buckets := b\<rparr>\<rparr>)"
proof -
  from assms obtain H n u d e A en where 1:
    "c' = c\<lparr>sc_memory := (sc_memory c)\<lparr>mi_usage := u, mi_head := H, mi_count := n\<rparr>,
       sc_doing := d, sc_done := e, sc_allocators := A, sc_entries := en\<rparr>"
    "length A = length (sc_allocators c)" "op_capacity d = op_capacity (sc_doing c)"
    "op_capacity e = op_capacity (sc_done c)" "mu_alloced u = mu_alloced (mi_usage (sc_memory c))"
    "mu_common u = mu_common (mi_usage (sc_memory c))" by (rule frameE)
  let ?c = "c\<lparr>sc_memory := (sc_memory c)\<lparr>mi_buckets := b\<rparr>\<rparr>"
  have "c'\<lparr>sc_memory := (sc_memory c')\<lparr>mi_buckets := b\<rparr>\<rparr> =
     ?c\<lparr>sc_memory := (sc_memory ?c)\<lparr>mi_usage := u, mi_head := H, mi_count := n\<rparr>,
       sc_doing := d, sc_done := e, sc_allocators := A, sc_entries := en\<rparr>"
    unfolding 1(1) by simp
  then show ?thesis by (rule frameI) (simp_all add: 1(2-))
qed

lemma ht_frame_trans:
  assumes "ht_frame c c1" and "ht_frame c1 c2"
  shows "ht_frame c c2"
proof -
  obtain b where b: "length b = length (mi_buckets (sc_memory c))"
    "frame (c\<lparr>sc_memory := (sc_memory c)\<lparr>mi_buckets := b\<rparr>\<rparr>) c1"
    using assms(1) by (auto simp: ht_frame_def)
  obtain b' where b': "length b' = length (mi_buckets (sc_memory c1))"
    "frame (c1\<lparr>sc_memory := (sc_memory c1)\<lparr>mi_buckets := b'\<rparr>\<rparr>) c2"
    using assms(2) by (auto simp: ht_frame_def)
  have "frame (c\<lparr>sc_memory := (sc_memory c)\<lparr>mi_buckets := b'\<rparr>\<rparr>) c2"
    using frame_trans [OF frame_set_buckets [OF b(2), of b'] b'(2)] by simp
  then show ?thesis
    using b(1) b'(1) frame_fields(2) [OF b(2)] unfolding ht_frame_def by auto
qed

lemma ht_frame_frame: "frame c c' \<Longrightarrow> ht_frame c c'"
  unfolding ht_frame_def by (rule exI [of _ "mi_buckets (sc_memory c)"]) simp

lemma ht_frame_set_bucket: "ht_frame c (set_bucket c i off)"
proof -
  have "set_bucket c i off = c\<lparr>sc_memory := (sc_memory c)\<lparr>mi_buckets := (mi_buckets (sc_memory c))[i := off]\<rparr>\<rparr>"
    by (simp add: set_bucket_def)
  then show ?thesis
    unfolding ht_frame_def by (intro exI [of _ "(mi_buckets (sc_memory c))[i := off]"]) simp
qed

lemma filter_key_split:
  assumes "inj_on f (set (A @ l # B))" and "distinct (A @ l # B)"
  shows "filter (\<lambda>m. f m \<noteq> f l) (A @ l # B) = A @ B"
proof -
  have "f m \<noteq> f l" if "m \<in> set (A @ B)" for m using assms that by (auto simp: inj_on_def)
  then show ?thesis by (simp add: filter_id_conv)
qed

text \<open>Taking an entry out of the chain of its bucket.\<close>

definition ht_unlink :: "shmcache_context \<Rightarrow> nat \<Rightarrow> entry_loc option \<Rightarrow> int \<Rightarrow> shmcache_context" where
  "ht_unlink c i previous off =
     (case previous of None \<Rightarrow> set_bucket c i off | Some p \<Rightarrow> upd_entry (he_ht_next_update (\<lambda>_. off)) c p)"

lemma ht_unlink_write:
  "(\<And>p. previous = Some p \<Longrightarrow> loc_live c p) \<Longrightarrow>
   (if previous \<noteq> None then hentry_write (he_ht_next_update (\<lambda>_. off)) c previous
    else Some (set_bucket c i off)) = Some (ht_unlink c i previous off)"
  by (cases previous) (simp_all add: ht_unlink_def hentry_write_live)

lemma ht_unlink_core: "core_inv c L M \<Longrightarrow> core_inv (ht_unlink c i previous off) L M"
  by (cases previous) (simp_all add: ht_unlink_def core_inv_set_bucket core_inv_ht_next)

lemma ht_unlink_frame: "ht_frame c (ht_unlink c i previous off)"
  by (cases previous) (simp_all add: ht_unlink_def ht_frame_set_bucket ht_frame_frame frame_upd_entry)

lemma ht_unlink_entry:
  assumes "sc_entries c m \<noteq> None"
  shows "payload (entry (ht_unlink c i previous off) m) = payload (entry c m)"
    and "he_ht_next (entry (ht_unlink c i previous off) m) = (if previous = Some m then off else he_ht_next (entry c m))"
    and "loc_live (ht_unlink c i previous off) m = loc_live c m"
  using assms by (cases previous; auto simp: ht_unlink_def upd_entry_def payload_def set_bucket_def loc_live_def)+

lemma ht_unlink_buckets:
  "mi_buckets (sc_memory (ht_unlink c i previous off))
     = (if previous = None then (mi_buckets (sc_memory c))[i := off] else mi_buckets (sc_memory c))"
  by (cases previous) (simp_all add: ht_unlink_def upd_entry_def)

lemma chain_unlink:
  assumes "chain nx b (P @ l # S)" and "distinct (P @ l # S)"
  shows "chain (\<lambda>m. if P \<noteq> [] \<and> m = last P then nx l else nx m) (if P = [] then nx l else b) (P @ S)"
proof (cases "P = []")
  case True
  then show ?thesis using assms(1) by simp
next
  case False
  have "nx(last P := nx l) = (\<lambda>m. if P \<noteq> [] \<and> m = last P then nx l else nx m)" using False by auto
  then show ?thesis using chain_remove [OF assms False] False by simp
qed

lemma ht_delete_entry:
  assumes "core_inv c (A @ l # B) M" and "ht_ok c (A @ l # B)"
    and "bucket_ok c (A @ l # B) (bucket_of c l) (P @ l # S)"
  defines "c1 \<equiv> ht_unlink c (bucket_of c l) (if P = [] then None else Some (last P)) (he_ht_next (entry c l))"
  obtains recycled' c' where "shm_ht_free_entry c1 (Some l) (loc_offset l) recycled = Some (recycled', c')"
    "core_inv c' (A @ B) M" "ht_ok c' (A @ B)" "ht_frame c c'" "recycled \<Longrightarrow> recycled'"
    "\<And>m. m \<in> set ((A @ B) @ M) \<Longrightarrow> payload (entry c' m) = payload (entry c m)"
proof -
  let ?i = "bucket_of c l" and ?pr = "if P = [] then None else Some (last P)" and ?L = "A @ l # B"
  have dist: "distinct (?L @ M)" using core_invD(6) [OF assms(1)] .
  have ch: "chain_of c (mi_buckets (sc_memory c) ! ?i) (P @ l # S)" and dPS: "distinct (P @ l # S)"
    and set: "set (P @ l # S) = {m \<in> set ?L. bucket_of c m = ?i}"
    using assms(3) by (simp_all add: bucket_ok_def)
  obtain recycled' c' where c': "shm_ht_free_entry c1 (Some l) (loc_offset l) recycled = Some (recycled', c')"
    "core_inv c' (A @ B) M" "frame c1 c'" "entries_kept c1 c' {l}" "recycled \<Longrightarrow> recycled'"
    using free_entry [OF ht_unlink_core [OF assms(1)]] unfolding c1_def by metis
  have live: "loc_live c m" if "m \<in> set (?L @ M)" for m using core_inv_live [OF assms(1) that] .
  have ent: "payload (entry c' m) = payload (entry c m) \<and> he_key (entry c' m) = he_key (entry c m)
      \<and> he_ht_next (entry c' m) = (if ?pr = Some m then he_ht_next (entry c l) else he_ht_next (entry c m))"
    if m: "m \<in> set ((A @ B) @ M)" for m
  proof -
    have "m \<in> set (?L @ M)" "m \<noteq> l" using m dist by auto
    then have ne: "sc_entries c m \<noteq> None" "m \<notin> {l}" and lv: "loc_live c1 m"
      using live [of m] ht_unlink_entry(3) [of c m] by (simp_all add: loc_live_def c1_def)
    have pay: "payload (entry c' m) = payload (entry c m)"
      using entries_keptD(3) [OF c'(4) lv ne(2)] ht_unlink_entry(1) [OF ne(1)] by (simp add: c1_def)
    show ?thesis
      using entries_keptD(4) [OF c'(4) lv ne(2)] ht_unlink_entry(2) [OF ne(1)] pay payload_fields(5) [OF pay]
      by (simp add: c1_def)
  qed
  have AB: "m \<in> set ((A @ B) @ M)" if "m \<in> set (A @ B)" for m using that by auto
  have key: "he_key (entry c' m) = he_key (entry c m)"
    and nxt: "he_ht_next (entry c' m) = (if ?pr = Some m then he_ht_next (entry c l) else he_ht_next (entry c m))"
    if "m \<in> set (A @ B)" for m
    using ent [OF AB [OF that]] by blast+
  have fr: "ht_frame c c'"
    using ht_unlink_frame ht_frame_frame [OF c'(3)] ht_frame_trans unfolding c1_def by blast
  have idx: "HT_GET_BUCKET_INDEX c' k = HT_GET_BUCKET_INDEX c k" for k
    by (rule bucket_index_cong [OF ht_frame_fields(1,3) [OF fr]])
  have bk: "mi_buckets (sc_memory c') = (if P = [] then (mi_buckets (sc_memory c))[?i := he_ht_next (entry c l)]
      else mi_buckets (sc_memory c))"
    using frame_fields(2) [OF c'(3)] by (simp add: c1_def ht_unlink_buckets)
  have i: "?i < length (mi_buckets (sc_memory c))"
    using assms(2) bucket_index_less by (simp add: ht_ok_def)
  have mem: "m \<in> set (P @ l # S) \<longleftrightarrow> m \<in> set ?L \<and> bucket_of c m = ?i" for m
    by (simp only: set mem_Collect_eq)
  have memP: "m \<in> set (P @ S) \<longleftrightarrow> m \<in> set (P @ l # S) \<and> m \<noteq> l" for m using dPS by auto
  have memA: "m \<in> set (A @ B) \<longleftrightarrow> m \<in> set ?L \<and> m \<noteq> l" for m using dist by auto
  have PS: "m \<in> set (A @ B)" if "m \<in> set (P @ S)" for m
    using that mem memP memA by blast
  have bucket: "bucket_ok c' (A @ B) ?i (P @ S)"
  proof -
    have 1: "chain (\<lambda>m. he_ht_next (entry c' m)) (if P = [] then he_ht_next (entry c l) else mi_buckets (sc_memory c) ! ?i) (P @ S)"
    proof (rule chain_cong [OF chain_unlink [OF ch dPS]])
      fix m assume "m \<in> set (P @ S)"
      then show "he_ht_next (entry c' m)
          = (if P \<noteq> [] \<and> m = last P then he_ht_next (entry c l) else he_ht_next (entry c m))"
        using nxt [OF PS] by auto
    qed
    have 2: "mi_buckets (sc_memory c') ! ?i = (if P = [] then he_ht_next (entry c l) else mi_buckets (sc_memory c) ! ?i)"
      using bk i by simp
    have 3: "set (P @ S) = {m \<in> set (A @ B). bucket_of c' m = ?i}"
    proof (rule set_eqI)
      fix m
      have "m \<in> set (A @ B) \<Longrightarrow> bucket_of c' m = bucket_of c m" by (simp only: key idx)
      then show "(m \<in> set (P @ S)) = (m \<in> {m \<in> set (A @ B). bucket_of c' m = ?i})"
        unfolding mem_Collect_eq using mem [of m] memP [of m] memA [of m] by argo
    qed
    show ?thesis unfolding bucket_ok_def 2 using 1 3 dPS by simp
  qed
  have "ht_ok c' (A @ B)"
  proof (rule ht_ok_change [OF assms(2) ht_frame_fields(1,3,2) [OF fr] _ _ _ bucket])
    fix j assume "j \<noteq> ?i"
    then show "mi_buckets (sc_memory c') ! j = mi_buckets (sc_memory c) ! j" using bk by simp
  next
    fix m assume m: "m \<in> set ?L" "bucket_of c m \<noteq> ?i"
    then have mA: "m \<in> set (A @ B)" by auto
    have "?pr \<noteq> Some m"
    proof
      assume "?pr = Some m"
      then have "m \<in> set (P @ l # S)" by (auto split: if_splits)
      then show False using mem m(2) by blast
    qed
    then show "m \<in> set (A @ B) \<and> he_key (entry c' m) = he_key (entry c m)
        \<and> he_ht_next (entry c' m) = he_ht_next (entry c m)"
      using key [OF mA] nxt [OF mA] mA by simp
  next
    fix m assume "m \<in> set (A @ B)"
    then show "m \<in> set ?L \<and> he_key (entry c' m) = he_key (entry c m)" using key [of m] by auto
  next
    have "inj_on (\<lambda>m. he_key (entry c m)) (set (A @ B))"
      using assms(2) by (auto simp: ht_ok_def intro: inj_on_subset)
    then show "inj_on (\<lambda>m. he_key (entry c' m)) (set (A @ B))"
      by (rule inj_on_cong [THEN iffD1, rotated]) (simp only: key)
  qed
  then show thesis using that c'(1,2,5) fr ent by blast
qed

lemma ht_frame_refl [simp]: "ht_frame c c"
  by (rule ht_frame_frame) simp

lemma entry_pairs_filter:
  assumes "\<And>m. m \<in> set (filter (\<lambda>m. he_key (entry c m) \<noteq> key) L) \<Longrightarrow> payload (entry c' m) = payload (entry c m)"
  shows "entry_pairs c' (filter (\<lambda>m. he_key (entry c m) \<noteq> key) L) = filter (\<lambda>p. fst p \<noteq> key) (entry_pairs c L)"
proof -
  have "entry_pairs c' (filter (\<lambda>m. he_key (entry c m) \<noteq> key) L) = entry_pairs c (filter (\<lambda>m. he_key (entry c m) \<noteq> key) L)"
    by (rule entry_pairs_cong [OF assms])
  then show ?thesis by (simp add: entry_pairs_def filter_map comp_def)
qed

lemma entry_pairs_keys: "fst ` set (entry_pairs c L) = (\<lambda>l. he_key (entry c l)) ` set L"
  by (simp add: entry_pairs_def image_image)

text \<open>Deletion takes the entry of the key out of the represented list, and only that one.\<close>

lemma ht_delete_ex:
  assumes "core_inv c L M" and "ht_ok c L"
  obtains recycled' c' where
    "shm_ht_delete_ex c key recycled
       = Some (if key \<in> fst ` set (entry_pairs c L) then 0 else ENOENT, recycled', c')"
    "core_inv c' (filter (\<lambda>m. he_key (entry c m) \<noteq> key) L) M"
    "ht_ok c' (filter (\<lambda>m. he_key (entry c m) \<noteq> key) L)"
    "ht_frame c c'" "recycled \<Longrightarrow> recycled'"
    "\<And>m. m \<in> set (filter (\<lambda>m. he_key (entry c m) \<noteq> key) L @ M) \<Longrightarrow> payload (entry c' m) = payload (entry c m)"
  using assms
proof (cases rule: ht_lookup_cases [where key = key])
  case (found l P S)
  obtain A B where L: "L = A @ l # B" using found(1) by (meson split_list)
  have inj: "inj_on (\<lambda>m. he_key (entry c m)) (set L)" using assms(2) by (simp add: ht_ok_def)
  have dist: "distinct L" using core_invD(6) [OF assms(1)] by simp
  have filt: "filter (\<lambda>m. he_key (entry c m) \<noteq> key) L = A @ B"
    using filter_key_split [of "\<lambda>m. he_key (entry c m)" A l B] inj dist found(2) L by simp
  let ?pr = "if P = [] then None else Some (last P)"
  obtain recycled' c' where c': "shm_ht_free_entry (ht_unlink c (bucket_of c l) ?pr (he_ht_next (entry c l)))
      (Some l) (loc_offset l) recycled = Some (recycled', c')"
    "core_inv c' (A @ B) M" "ht_ok c' (A @ B)" "ht_frame c c'" "recycled \<Longrightarrow> recycled'"
    "\<And>m. m \<in> set ((A @ B) @ M) \<Longrightarrow> payload (entry c' m) = payload (entry c m)"
    using ht_delete_entry [of c A l B M P S] assms found(2,3) L by metis
  have lv: "loc_live c l" using core_inv_live [OF assms(1), of l] found(1) by simp
  have pr: "loc_live c p" if "?pr = Some p" for p
  proof -
    have "p \<in> set (P @ l # S)" using that by (auto split: if_splits)
    then have "p \<in> set L" using found(3) unfolding bucket_ok_def by blast
    then show ?thesis using core_inv_live [OF assms(1), of p] by simp
  qed
  have key: "key \<in> fst ` set (entry_pairs c L)" using found(1,2) by (auto simp: entry_pairs_keys)
  have run: "shm_ht_delete_ex c key recycled = Some (0, recycled', c')"
    using found(2,4,5) hentry_read_live [OF lv] ht_unlink_write [of ?pr c, OF pr] c'(1)
    by (simp add: shm_ht_delete_ex_def)
  show thesis
    by (rule that [of recycled' c', unfolded filt]) (simp only: run key if_True, (fact c'(2-6))+)
next
  case (absent P)
  then have "filter (\<lambda>m. he_key (entry c m) \<noteq> key) L = L" by (simp add: filter_id_conv)
  moreover have "key \<notin> fst ` set (entry_pairs c L)" using absent(1) by (auto simp: entry_pairs_keys)
  ultimately show thesis
    using that [of recycled c] absent(3) assms by (simp add: shm_ht_delete_ex_def)
qed

section \<open>Expiry time\<close>

lemma core_inv_expires:
  assumes "core_inv c L M" and "l \<in> set L"
  shows "core_inv (upd_entry (he_expires_update f) c l) L M" (is "core_inv ?c' _ _")
proof -
  note inv = core_invD [OF assms(1)]
  have fields: "mem_view (entry ?c' m) = mem_view (entry c m)" "he_list (entry ?c' m) = he_list (entry c m)"
    "he_key_len (entry ?c' m) = he_key_len (entry c m)" "he_value_length (entry ?c' m) = he_value_length (entry c m)"
    "he_size (entry ?c' m) = he_size (entry c m)"
    "he_key (entry ?c' m) = he_key (entry c m)" "he_data (entry ?c' m) = he_data (entry c m)"
    for m
    using core_inv_live [OF assms(1), of l] assms(2) by (auto simp: loc_live_def mem_view_def)
  have live: "loc_live ?c' m" if "m \<in> set (L @ M)" for m using core_inv_live [OF assms(1) that] by simp
  have "alloc_inv ?c' (L @ M)"
    by (rule alloc_inv_cong [OF core_inv_alloc [OF assms(1)]]) (use fields live in \<open>simp_all add: upd_entry_def\<close>)
  moreover have "ctx_ok ?c'" using inv(1) by (simp add: ctx_ok_def segments_open_def upd_entry_def)
  moreover have "dlist ?c' L"
    by (rule dlist_cong [OF inv(7)]) (use fields live in \<open>simp_all add: node.simps upd_entry_def\<close>)
  moreover have "mi_count (sc_memory ?c') = mi_count (sc_memory c)" "mi_usage (sc_memory ?c') = mi_usage (sc_memory c)"
    by (simp_all add: upd_entry_def)
  then have "count_ok ?c' L M" using inv(8) by (simp only: count_ok_def fields)
  moreover have "list_all (\<lambda>l. payload_ok (entry ?c' l)) L"
    using inv(9) by (simp only: payload_ok_def fields)
  ultimately show ?thesis using inv(6) by (simp add: core_inv_def alloc_inv_def)
qed

lemma cache_inv_same:
  assumes "cache_inv c L" and "sc_config c' = sc_config c" and "sc_entries c' = sc_entries c"
    and "sc_allocators c' = sc_allocators c"
    and "sc_allocators_offset c' = sc_allocators_offset c" and "sc_doing c' = sc_doing c"
    and "sc_done c' = sc_done c" and "sc_values_count c' = sc_values_count c"
    and "sc_values_items c' = sc_values_items c" and "sc_list_head_offset c' = sc_list_head_offset c"
    and "mi_striping (sc_memory c') = mi_striping (sc_memory c)" and "mi_head (sc_memory c') = mi_head (sc_memory c)"
    and "mi_count (sc_memory c') = mi_count (sc_memory c)" and "mi_usage (sc_memory c') = mi_usage (sc_memory c)"
    and "mi_buckets (sc_memory c') = mi_buckets (sc_memory c)" and "mi_capacity (sc_memory c') = mi_capacity (sc_memory c)"
  shows "cache_inv c' L"
  using core_inv_same [OF _ assms(3-14)] ht_ok_same [OF _ assms(3,2,15,16)] assms(1) by (simp add: cache_inv_def)

lemma entry_pairs_same: "sc_entries c' = sc_entries c \<Longrightarrow> entry_pairs c' L = entry_pairs c L"
  by (simp add: entry_pairs_def)

lemma sys_only_env: "snd (sys r c) = c\<lparr>sc_env := sc_env (snd (sys r c))\<rparr>"
  by (simp add: snd_sys)

lemma cache_inv_env: "cache_inv c L \<Longrightarrow> cache_inv (c\<lparr>sc_env := e\<rparr>) L"
  by (rule cache_inv_same) simp_all

lemma cache_inv_sys:
  "cache_inv c L \<Longrightarrow> cache_inv (snd (sys r c)) L" "entry_pairs (snd (sys r c)) L = entry_pairs c L"
  using entry_pairs_same [of "snd (sys r c)" c L] by (simp_all add: snd_sys cache_inv_env)

text \<open>Setting the expiry time changes that field of the entry of the key, if it is still valid.\<close>

lemma ht_set_expires_map:
  assumes "cache_inv c L"
  obtains (absent) "key \<notin> fst ` set (entry_pairs c L)" "shm_ht_set_expires c key t = Some (ENOENT, c)"
  | (expired) v c' where "cache_map c L key = Some v" "vi_expires v \<noteq> 0"
      "vi_expires v < fst (get_current_time c)" "c' = snd (get_current_time c)"
      "shm_ht_set_expires c key t = Some (ETIMEDOUT, c')" "cache_inv c' L" "entry_pairs c' L = entry_pairs c L"
  | (updated) v c' where "cache_map c L key = Some v"
      "vi_expires v = 0 \<or> fst (get_current_time c) \<le> vi_expires v"
      "shm_ht_set_expires c key t = Some (0, c')" "cache_inv c' L"
      "entry_pairs c' L = map (\<lambda>(k, v). (k, if k = key then v\<lparr>vi_expires := t\<rparr> else v)) (entry_pairs c L)"
      "\<exists>en h. c' = c\<lparr>sc_entries := en, sc_env := (sc_env c)\<lparr>env_history := h\<rparr>\<rparr>"
proof -
  have inv: "core_inv c L []" "ht_ok c L" using assms by (simp_all add: cache_inv_def)
  from inv show thesis
  proof (cases rule: ht_lookup_cases [where key = key])
    case (absent P)
    have "key \<notin> fst ` set (entry_pairs c L)" using absent(1) unfolding entry_pairs_keys by blast
    moreover have "shm_ht_set_expires c key t = Some (ENOENT, c)"
      using absent(3) by (simp add: shm_ht_set_expires_def)
    ultimately show thesis by (rule that(1))
  next
    case (found l P S)
    let ?v = "entry_value (entry c l)"
    have v: "cache_map c L key = Some ?v"
      using cache_map_Some [of c L l] inv(2) core_invD(6) [OF inv(1)] found(1,2) by (simp add: ht_ok_def)
    have lv: "loc_live c l" using core_inv_live [OF inv(1), of l] found(1) by simp
    define c1 where "c1 = snd (entry_is_valid_now c (entry c l))"
    obtain h where c1: "c1 = c\<lparr>sc_env := (sc_env c)\<lparr>env_history := h\<rparr>\<rparr>"
    proof (cases "c1 = c")
      case True
      then show thesis using that [of "env_history (sc_env c)"] by simp
    next
      case False
      then show thesis
        using that entry_is_valid_now_env [of c "entry c l"] by (simp add: c1_def snd_sys sysval_def syscall_def)
    qed
    have c1inv: "cache_inv c1 L" "sc_entries c1 = sc_entries c" "loc_live c1 l"
      using cache_inv_env [OF assms] lv by (simp_all add: c1 loc_live_def)
    show thesis
    proof (cases "fst (entry_is_valid_now c (entry c l))")
      case False
      then have e: "he_expires (entry c l) \<noteq> 0" "he_expires (entry c l) < fst (get_current_time c)"
        "c1 = snd (get_current_time c)"
        by (auto simp: entry_is_valid_now_def c1_def case_prod_unfold Let_def split: if_splits)
      have "shm_ht_set_expires c key t = Some (ETIMEDOUT, c1)"
        using found(4,5) hentry_read_live [OF lv] False
        by (simp add: shm_ht_set_expires_def c1_def case_prod_unfold Let_def)
      then show thesis
        using that(2) [OF v _ _ e(3)] e c1inv(1) entry_pairs_same [OF c1inv(2)] by (simp add: entry_value_def)
    next
      case True
      define c2 where "c2 = upd_entry (he_expires_update (\<lambda>_. t)) c1 l"
      have run: "shm_ht_set_expires c key t = Some (0, c2)"
        using found(4,5) hentry_read_live [OF lv] True hentry_write_live [OF c1inv(3)]
        by (simp add: shm_ht_set_expires_def c1_def c2_def case_prod_unfold Let_def)
      have ent: "entry c2 m = (if m = l then (entry c l)\<lparr>he_expires := t\<rparr> else entry c m)" for m
        using lv by (simp add: c2_def c1inv(2) loc_live_def)
      have "ht_ok c2 L"
      proof -
        have "ht_ok c1 L" using c1inv(1) by (simp add: cache_inv_def)
        moreover have "he_key (entry c2 m) = he_key (entry c1 m)" "he_ht_next (entry c2 m) = he_ht_next (entry c1 m)" for m
          by (simp_all add: ent c1inv(2))
        moreover have "HT_GET_BUCKET_INDEX c2 = HT_GET_BUCKET_INDEX c1"
          by (simp add: fun_eq_iff HT_GET_BUCKET_INDEX_def c2_def upd_entry_def)
        moreover have "sc_memory c2 = sc_memory c1" by (simp add: c2_def upd_entry_def)
        ultimately show ?thesis unfolding ht_ok_def bucket_ok_def by simp
      qed
      then have "cache_inv c2 L"
        using core_inv_expires [of c1 L "[]" l] c1inv(1) found(1) by (simp add: cache_inv_def c2_def)
      moreover have "entry_pairs c2 L = map (\<lambda>(k, v). (k, if k = key then v\<lparr>vi_expires := t\<rparr> else v)) (entry_pairs c L)"
      proof -
        have "m = l \<longleftrightarrow> he_key (entry c m) = key" if "m \<in> set L" for m
          using inv(2) found(1,2) that by (auto simp: ht_ok_def inj_on_def)
        then show ?thesis by (auto simp: entry_pairs_def ent entry_value_def)
      qed
      moreover have "vi_expires ?v = 0 \<or> fst (get_current_time c) \<le> vi_expires ?v"
        using True by (auto simp: entry_is_valid_now_def entry_value_def case_prod_unfold Let_def split: if_splits)
      moreover have "\<exists>en h. c2 = c\<lparr>sc_entries := en, sc_env := (sc_env c)\<lparr>env_history := h\<rparr>\<rparr>"
        unfolding c2_def upd_entry_def c1
        by (intro exI [of _ "(sc_entries c)(l := map_option (he_expires_update (\<lambda>_. t)) (sc_entries c l))"] exI [of _ h]) simp
      ultimately show thesis using that(3) v run by blast
    qed
  qed
qed

end
