(* ===== verification/HashTableClear.thy ===== *)
theory HashTableClear
  imports HashTableCorrect
begin

text \<open>
  Clearing the table. It does not rely on the list, the chains, the counters or the blocks: from any
  context whose allocators and queues have the right shape it makes an empty cache. That is what the
  recovery after a dead lock holder needs, where the table may have been left half changed.
\<close>

section \<open>Contexts that can be cleared\<close>

definition clearable :: "shmcache_context \<Rightarrow> bool" where
  "clearable c \<longleftrightarrow> ctx_ok c \<and> allocs_ok c
     \<and> (\<forall>j < nstriping c. 0 \<le> sa_base (allocator c j) \<and> sa_base (allocator c j) \<le> sa_end (allocator c j))
     \<and> pool_wf (sc_doing c) \<and> pool_wf (sc_done c)
     \<and> nstriping c < op_capacity (sc_doing c) \<and> nstriping c < op_capacity (sc_done c)
     \<and> 0 < mi_capacity (sc_memory c)"

lemma cache_inv_clearable:
  assumes "cache_inv c L"
  shows "clearable c"
proof -
  have inv: "core_inv c L []" "ht_ok c L" using assms by (simp_all add: cache_inv_def)
  have "0 \<le> sa_base (allocator c j) \<and> sa_base (allocator c j) \<le> sa_end (allocator c j)" if "j < nstriping c" for j
  proof -
    have "striping_wf (allocator c j) (blocks_of c (L @ []) j)"
      using core_invD(5) [OF inv(1)] that unfolding blocks_ok_def by blast
    then show ?thesis by (auto simp: striping_wf_def)
  qed
  then show ?thesis
    using inv(2) core_invD(1,3,4) [OF inv(1)] unfolding clearable_def pools_ok_def pools_rep_def ht_ok_def by blast
qed

section \<open>The loop over the allocators\<close>

definition cleared_allocator :: "shm_striping_allocator \<Rightarrow> shm_striping_allocator" where
  "cleared_allocator a = (shm_striping_allocator_reset a)\<lparr>sa_in_which_pool := POOL_DOING\<rparr>"

lemma clear_allocators_loop:
  assumes "i + n \<le> length (sc_allocators c)"
  shows "clear_allocators_loop n i c =
    c\<lparr>sc_doing := foldl shm_object_pool_push (sc_doing c) (map (allocator_offset c) [i..<i + n]),
      sc_allocators := map (\<lambda>j. if i \<le> j \<and> j < i + n then cleared_allocator (allocator c j) else allocator c j)
        [0..<length (sc_allocators c)]\<rparr>"
  using assms
proof (induction n arbitrary: i c)
  case 0
  have "map (\<lambda>j. if i \<le> j \<and> j < i + 0 then cleared_allocator (allocator c j) else allocator c j)
      [0..<length (sc_allocators c)] = sc_allocators c" by (rule nth_equalityI) auto
  then show ?case by (simp only: clear_allocators_loop.simps) simp
next
  case (Suc n)
  define c1 where "c1 = (set_allocator c i (cleared_allocator (allocator c i)))
      \<lparr>sc_doing := shm_object_pool_push (sc_doing c) (allocator_offset c i)\<rparr>"
  have len: "length (sc_allocators c1) = length (sc_allocators c)" and off: "allocator_offset c1 = allocator_offset c"
    by (simp_all add: c1_def set_allocator_def fun_eq_iff allocator_offset_def)
  have upt: "[i..<i + Suc n] = i # [Suc i..<Suc i + n]" by (simp add: upt_conv_Cons)
  have al: "allocator c1 j = (if j = i then cleared_allocator (allocator c i) else allocator c j)"
    if "j < length (sc_allocators c)" for j
    using that by (simp add: c1_def set_allocator_def)
  have als: "map (\<lambda>j. if Suc i \<le> j \<and> j < Suc i + n then cleared_allocator (allocator c1 j) else allocator c1 j)
      [0..<length (sc_allocators c)]
    = map (\<lambda>j. if i \<le> j \<and> j < i + Suc n then cleared_allocator (allocator c j) else allocator c j)
      [0..<length (sc_allocators c)]"
    by (rule map_cong) (auto simp: al)
  have "clear_allocators_loop (Suc n) i c = clear_allocators_loop n (Suc i) c1"
    by (simp add: c1_def cleared_allocator_def Let_def) (simp add: set_allocator_def allocator_offset_def)
  also have "\<dots> = c1\<lparr>sc_doing := foldl shm_object_pool_push (sc_doing c1) (map (allocator_offset c) [Suc i..<Suc i + n]),
      sc_allocators := map (\<lambda>j. if i \<le> j \<and> j < i + Suc n then cleared_allocator (allocator c j) else allocator c j)
      [0..<length (sc_allocators c)]\<rparr>"
    using Suc.IH [of "Suc i" c1] Suc.prems by (simp only: len off als)
  also have "\<dots> = c\<lparr>sc_doing := foldl shm_object_pool_push (sc_doing c) (map (allocator_offset c) [i..<i + Suc n]),
      sc_allocators := map (\<lambda>j. if i \<le> j \<and> j < i + Suc n then cleared_allocator (allocator c j) else allocator c j)
      [0..<length (sc_allocators c)]\<rparr>"
    unfolding upt by (simp add: c1_def set_allocator_def)
  finally show ?case .
qed

lemma cleared_allocator_fields [simp]:
  "sa_index (cleared_allocator a) = sa_index a" "sa_base (cleared_allocator a) = sa_base a"
  "sa_end (cleared_allocator a) = sa_end a" "sa_in_which_pool (cleared_allocator a) = POOL_DOING"
  by (simp_all add: cleared_allocator_def frame_simps)

lemma cleared_allocator_wf: "0 \<le> sa_base a \<Longrightarrow> sa_base a \<le> sa_end a \<Longrightarrow> striping_wf (cleared_allocator a) []"
  by (simp add: cleared_allocator_def shm_striping_allocator_reset_def striping_wf_def)

section \<open>Clearing\<close>

definition cleared :: "shmcache_context \<Rightarrow> int \<Rightarrow> env \<Rightarrow> shmcache_context" where
  "cleared c t e = c\<lparr>sc_memory := (sc_memory c)\<lparr>
       mi_stats := (mi_stats (sc_memory c))\<lparr>st_last_clear_time := t, st_last_calc_time := t\<rparr>,
       mi_usage := (mi_usage (sc_memory c))\<lparr>mu_entry := 0, mu_key := 0, mu_value := 0\<rparr>,
       mi_head := \<lparr>sl_prev = sc_list_head_offset c, sl_next = sc_list_head_offset c\<rparr>,
       mi_count := 0, mi_buckets := replicate (nat (mi_capacity (sc_memory c))) 0\<rparr>,
     sc_doing := foldl shm_object_pool_push (shm_object_pool_init_empty (sc_doing c))
       (map (allocator_offset c) [0..<nstriping c]),
     sc_done := shm_object_pool_init_empty (sc_done c),
     sc_allocators := map (\<lambda>j. if j < nstriping c then cleared_allocator (allocator c j) else allocator c j)
        [0..<length (sc_allocators c)],
     sc_env := e\<rparr>"

lemma ht_clear_eq:
  assumes "nstriping c \<le> length (sc_allocators c)"
  shows "shm_ht_clear c = (mi_count (sc_memory c),
    cleared c (fst (get_current_time c)) (sc_env (snd (get_current_time c))))"
proof -
  define c1 where "c1 = c\<lparr>sc_memory := (sc_memory c)\<lparr>
       mi_stats := (mi_stats (sc_memory c))\<lparr>st_last_clear_time := fst (get_current_time c),
         st_last_calc_time := fst (get_current_time c)\<rparr>,
       mi_head := \<lparr>sl_prev = sc_list_head_offset c, sl_next = sc_list_head_offset c\<rparr>,
       mi_count := 0, mi_buckets := replicate (nat (mi_capacity (sc_memory c))) 0\<rparr>,
     sc_doing := shm_object_pool_init_empty (sc_doing c), sc_done := shm_object_pool_init_empty (sc_done c),
     sc_env := sc_env (snd (get_current_time c))\<rparr>"
  have fields: "nstriping c1 = nstriping c" "sc_allocators c1 = sc_allocators c"
    "allocator_offset c1 = allocator_offset c"
    by (simp_all add: c1_def fun_eq_iff allocator_offset_def)
  have eq: "(sc_memory_update
          (mi_head_update (\<lambda>_. \<lparr>sl_prev = sc_list_head_offset c, sl_next = sc_list_head_offset c\<rparr>) \<circ>
           mi_count_update (\<lambda>_. 0) \<circ>
           mi_buckets_update (\<lambda>_. replicate (nat (mi_capacity (sc_memory c))) 0) \<circ>
           mi_stats_update
            (st_last_clear_time_update (\<lambda>_. fst (sys Sys_get_current_time c)) \<circ>
             st_last_calc_time_update (\<lambda>_. fst (sys Sys_get_current_time c))))
          (c\<lparr>sc_env := snd (sysval Sys_get_current_time (sc_env c))\<rparr>))
         \<lparr>sc_doing := shm_object_pool_init_empty (sc_doing c),
            sc_done := shm_object_pool_init_empty (sc_done c)\<rparr> = c1"
    by (simp add: c1_def snd_sys)
  have "shm_ht_clear c = (mi_count (sc_memory c), sc_memory_update (mi_usage_update
                (mu_key_update (\<lambda>_. 0) \<circ> mu_value_update (\<lambda>_. 0) \<circ> mu_entry_update (\<lambda>_. 0)))
         (clear_allocators_loop (nstriping c1) 0 c1))"
    by (simp add: shm_ht_clear_def case_prod_unfold Let_def snd_sys shm_list_init_def eq fields)
  also have "clear_allocators_loop (nstriping c1) 0 c1 =
    c1\<lparr>sc_doing := foldl shm_object_pool_push (sc_doing c1) (map (allocator_offset c) [0..<nstriping c]),
      sc_allocators := map (\<lambda>j. if j < nstriping c then cleared_allocator (allocator c j) else allocator c j)
        [0..<length (sc_allocators c)]\<rparr>"
    using clear_allocators_loop [of 0 "nstriping c1" c1] assms by (simp add: fields)
  finally show ?thesis by (simp add: c1_def cleared_def)
qed

lemma pool_init_empty_capacity [simp]: "op_capacity (shm_object_pool_init_empty op) = op_capacity op"
  by (simp add: shm_object_pool_init_empty_def)

lemma cleared_pools:
  assumes "clearable c"
  shows "pools_rep (cleared c t e) [0..<nstriping c] []"
proof -
  let ?c' = "cleared c t e" and ?xs = "map (allocator_offset c) [0..<nstriping c]"
  have wf: "pool_wf (sc_doing c)" "pool_wf (sc_done c)" and cap: "nstriping c < op_capacity (sc_doing c)"
    "nstriping c < op_capacity (sc_done c)" and len: "nstriping c \<le> length (sc_allocators c)"
    using assms by (auto simp: clearable_def allocs_ok_def)
  have "pool_wf (sc_doing ?c') \<and> op_capacity (sc_doing ?c') - 1 = op_capacity (sc_doing c) - 1
      \<and> pool_list (sc_doing ?c') = ?xs"
    using pool.push_all [of "shm_object_pool_init_empty (sc_doing c)" ?xs] pool_init_empty [OF wf(1)] cap(1)
    by (simp add: cleared_def)
  then have d: "pool_wf (sc_doing ?c')" "op_capacity (sc_doing ?c') = op_capacity (sc_doing c)"
    "pool_list (sc_doing ?c') = ?xs"
    using wf(1) by (auto simp: pool_wf_def)
  have al: "sa_in_which_pool (allocator ?c' j) = POOL_DOING" if "j < nstriping c" for j
    using that len by (simp add: cleared_def)
  have "nstriping ?c' = nstriping c" "allocator_offset ?c' = allocator_offset c"
    by (simp_all add: cleared_def fun_eq_iff allocator_offset_def)
  moreover have "pool_wf (sc_done ?c')" "pool_list (sc_done ?c') = []" "op_capacity (sc_done ?c') = op_capacity (sc_done c)"
    using pool_init_empty [OF wf(2)] by (simp_all add: cleared_def)
  ultimately show ?thesis
    using d cap al unfolding pools_rep_def by auto
qed

lemma cleared_core:
  assumes "clearable c"
  shows "core_inv (cleared c t e) [] []"
proof -
  let ?c' = "cleared c t e"
  have ok: "ctx_ok c" "allocs_ok c" and len: "nstriping c \<le> length (sc_allocators c)"
    using assms by (auto simp: clearable_def allocs_ok_def)
  have al: "allocator ?c' j = cleared_allocator (allocator c j)" if "j < nstriping c" for j
    using that len by (simp add: cleared_def)
  have fields: "nstriping ?c' = nstriping c" by (simp add: cleared_def)
  have "allocs_ok ?c'"
    by (rule allocs_ok_cong [OF ok(2)]) (use al in \<open>simp_all add: cleared_def\<close>)
  moreover have "pools_ok ?c'" using cleared_pools [OF assms] by (auto simp: pools_ok_def)
  moreover have "blocks_ok ?c' []"
    using assms al by (simp add: blocks_ok_def fields blocks_of_def clearable_def cleared_allocator_wf)
  moreover have "ctx_ok ?c'" using ok(1) by (simp add: ctx_ok_def segments_open_def cleared_def)
  moreover have "dlist ?c' []"
    using ok(1) by (simp add: dlist_def edge_def node.simps ptr_off.simps cleared_def ctx_ok_def)
  moreover have "count_ok ?c' [] []" by (simp add: count_ok_def cleared_def)
  ultimately show ?thesis by (simp add: core_inv_def)
qed

lemma cleared_inv: "clearable c \<Longrightarrow> cache_inv (cleared c t e) []"
  using cleared_core [of c t e]
  by (auto simp: cache_inv_def ht_ok_def bucket_ok_def cleared_def clearable_def intro!: exI [of _ "[]"])

lemma ht_clear:
  assumes "clearable c"
  shows "fst (shm_ht_clear c) = mi_count (sc_memory c)" and "cache_inv (snd (shm_ht_clear c)) []"
    and "pool_list (sc_doing (snd (shm_ht_clear c))) = map (allocator_offset c) [0..<nstriping c]"
    and "mi_segment (sc_memory (snd (shm_ht_clear c))) = mi_segment (sc_memory c)"
proof -
  have len: "nstriping c \<le> length (sc_allocators c)" using assms by (simp add: clearable_def allocs_ok_def)
  have off: "allocator_offset (cleared c t e) = allocator_offset c" for t e
    by (simp add: cleared_def fun_eq_iff allocator_offset_def)
  show "fst (shm_ht_clear c) = mi_count (sc_memory c)" "cache_inv (snd (shm_ht_clear c)) []"
    by (simp_all add: ht_clear_eq [OF len] cleared_inv [OF assms])
  show "pool_list (sc_doing (snd (shm_ht_clear c))) = map (allocator_offset c) [0..<nstriping c]"
    using cleared_pools [OF assms, of "fst (get_current_time c)" "sc_env (snd (get_current_time c))"]
    by (simp add: ht_clear_eq [OF len] pools_rep_def off)
  show "mi_segment (sc_memory (snd (shm_ht_clear c))) = mi_segment (sc_memory c)"
    by (simp add: ht_clear_eq [OF len] cleared_def)
qed

end
