(* ===== verification/SetCorrect.thy ===== *)
theory SetCorrect
  imports HashTableClear
begin

text \<open>
  Storing an entry that is already allocated: the old entry of the key is freed, the new one filled
  and linked into the chain and at the tail of the list.
\<close>

section \<open>Filling the pending entry\<close>

lemma core_inv_pending:
  assumes "core_inv c L M" and "n \<in> set M" and "\<And>e. mem_view (f e) = mem_view e"
  shows "core_inv (upd_entry f c n) L M" (is "core_inv ?c' _ _")
proof -
  note inv = core_invD [OF assms(1)]
  have n: "n \<notin> set L" "loc_live c n"
    using inv(6) assms(2) core_inv_live [OF assms(1), of n] by auto
  have same: "entry ?c' m = entry c m" if "m \<in> set L" for m
  proof -
    have "m \<noteq> n" using that n(1) by blast
    then show ?thesis using n(2) by (simp add: loc_live_def)
  qed
  have mv: "mem_view (entry ?c' m) = mem_view (entry c m)" for m
    using n(2) assms(3) by (simp add: loc_live_def)
  have live: "loc_live ?c' m" if "m \<in> set (L @ M)" for m using core_inv_live [OF assms(1) that] by simp
  have "alloc_inv ?c' (L @ M)"
    by (rule alloc_inv_cong [OF core_inv_alloc [OF assms(1)]]) (use mv live in \<open>simp_all add: upd_entry_def\<close>)
  moreover have "ctx_ok ?c'" using inv(1) by (simp add: ctx_ok_def segments_open_def upd_entry_def)
  moreover have "dlist ?c' L"
    by (rule dlist_cong [OF inv(7)]) (use same live in \<open>simp_all add: node.simps upd_entry_def\<close>)
  moreover have "count_ok ?c' L M"
    by (rule count_ok_cong [OF inv(8)]) (use same mv in \<open>simp_all add: upd_entry_def\<close>)
  moreover have "list_all (\<lambda>l. payload_ok (entry ?c' l)) L"
    using inv(9) same by (simp add: list_all_iff)
  ultimately show ?thesis using inv(6) by (simp add: core_inv_def alloc_inv_def)
qed

section \<open>Linking the pending entry into the list\<close>

lemma link_tail:
  assumes "core_inv c L [n]" and "payload_ok (entry c n)"
  defines "c1 \<equiv> c\<lparr>sc_memory := (sc_memory c)\<lparr>mi_usage := (mi_usage (sc_memory c))
       \<lparr>mu_key := mu_key (mi_usage (sc_memory c)) + he_key_len (entry c n),
        mu_value := mu_value (mi_usage (sc_memory c)) + he_value_length (entry c n)\<rparr>,
       mi_count := mi_count (sc_memory c) + 1\<rparr>\<rparr>"
  obtains c' where "shm_list_add_tail c1 (loc_offset n) = Some c'" "core_inv c' (L @ [n]) []"
    "frame c c'" "entries_kept c c' {}"
proof -
  note inv = core_invD [OF assms(1)]
  have live: "loc_live c m" if "m \<in> set (L @ [n])" for m using core_inv_live [OF assms(1) that] .
  have k1: "entries_kept c c1 {}" by (rule entries_kept_same) (simp_all add: c1_def)
  have live1: "loc_live c1 m = loc_live c m" for m by (simp add: c1_def loc_live_def)
  have ctx1: "ctx_ok c1" using inv(1) by (simp add: c1_def ctx_ok_def segments_open_def)
  have dl1: "dlist c1 L"
    by (rule dlist_cong [OF inv(7)]) (use dlist_live [OF inv(7)] live1 in \<open>simp_all add: c1_def node.simps\<close>)
  have "n \<notin> set L" using inv(6) by simp
  then obtain c' where c': "shm_list_add_tail c1 (loc_offset n) = Some c'" "dlist c' (L @ [n])" "relinked c1 c'"
    using dlist_add_tail [OF ctx1 dl1, of n] live [of n] live1 by auto
  have kept: "entries_kept c c' {}"
    using k1 entries_kept_relinked [OF c'(3)] entries_kept_trans by blast
  have fr: "frame c c1"
  proof -
    have "c1 = c\<lparr>sc_memory := (sc_memory c)\<lparr>mi_count := mi_count (sc_memory c) + 1, mi_usage := (mi_usage (sc_memory c))
       \<lparr>mu_key := mu_key (mi_usage (sc_memory c)) + he_key_len (entry c n),
        mu_value := mu_value (mi_usage (sc_memory c)) + he_value_length (entry c n)\<rparr>\<rparr>\<rparr>"
      by (simp add: c1_def)
    then show ?thesis using frame_counts by simp
  qed
  obtain H E where c'eq: "c' = c1\<lparr>sc_memory := (sc_memory c1)\<lparr>mi_head := H\<rparr>, sc_entries := E\<rparr>"
    using relinked_context [OF c'(3)] .
  have views: "payload (entry c' m) = payload (entry c m)" "mem_view (entry c' m) = mem_view (entry c m)"
    if "m \<in> set (L @ [n])" for m
    using entries_keptD(2,3) [OF kept live [OF that]] by simp_all
  have "alloc_inv c' (L @ [n])"
    by (rule alloc_inv_kept [OF core_inv_alloc [OF assms(1)] kept]) (simp_all add: c'eq c1_def)
  moreover have "ctx_ok c'" using ctx1 relinked_ctx_ok [OF c'(3)] by simp
  moreover have "count_ok c' (L @ [n]) []"
  proof -
    have "(\<Sum>l\<leftarrow>L @ [n]. he_key_len (entry c' l)) = (\<Sum>l\<leftarrow>L @ [n]. he_key_len (entry c l))"
      by (rule sum_list_map_cong, rule payload_fields(1), erule views)
    moreover have "(\<Sum>l\<leftarrow>L @ [n]. he_value_length (entry c' l)) = (\<Sum>l\<leftarrow>L @ [n]. he_value_length (entry c l))"
      by (rule sum_list_map_cong, rule payload_fields(3), erule views)
    moreover have "(\<Sum>l\<leftarrow>L @ [n]. he_size (entry c' l)) = (\<Sum>l\<leftarrow>L @ [n]. he_size (entry c l))"
      by (rule sum_list_map_cong, rule mem_view_fields(1), erule views)
    ultimately show ?thesis
      using inv(8) by (simp add: count_ok_def c'eq c1_def)
  qed
  moreover have "list_all (\<lambda>l. payload_ok (entry c' l)) (L @ [n])"
    by (rule payload_ok_kept [OF _ kept]) (use inv(9) assms(2) live in simp_all)
  ultimately have "core_inv c' (L @ [n]) []"
    using c'(2) inv(6) by (simp add: core_inv_def alloc_inv_def)
  then show thesis using that c'(1) kept frame_trans [OF fr frame_relinked [OF c'(3)]] by blast
qed

section \<open>The chain with the new entry\<close>

lemma chain_insert:
  assumes "chain nx off (P @ R)" and "chain nx t S" and "n \<notin> set (P @ S)" and "distinct (P @ S)"
  shows "chain (\<lambda>m. if m = n then t else if P \<noteq> [] \<and> m = last P then loc_offset n else nx m)
    (if P = [] then loc_offset n else off) (P @ n # S)"
  using assms
proof (induction P arbitrary: off)
  case Nil
  have "chain (\<lambda>m. if m = n then t else nx m) t S"
    by (rule chain_cong [OF Nil.prems(2)]) (use Nil.prems(3) in auto)
  then show ?case by (simp cong: if_cong)
next
  case (Cons p P)
  show ?case
  proof (cases "P = []")
    case True
    have "chain (\<lambda>m. if m = n then t else if m = p then loc_offset n else nx m) t S"
      by (rule chain_cong [OF Cons.prems(2)]) (use Cons.prems(3,4) True in auto)
    then show ?thesis using True Cons.prems(1,3) by (auto cong: if_cong)
  next
    case False
    have "p \<noteq> last P" "p \<noteq> n" using Cons.prems(3,4) False by (auto dest: last_in_set)
    then show ?thesis using Cons.IH [of "nx p"] Cons.prems False by (simp cong: if_cong)
  qed
qed

lemma chain_suffix: "chain nx off (P @ l # S) \<Longrightarrow> chain nx (nx l) S"
  by (induction P arbitrary: off) auto

section \<open>Storing\<close>

text \<open>
  The state before the entry is stored: the old entry of the key, if any, is freed, and the pending
  entry \<open>n\<close> already points to the rest \<open>S\<close> of the chain. \<open>c\<^sub>0\<close> is the context with the old chain.
\<close>

lemma ht_set_store:
  assumes inv: "core_inv c L [n]" and ht0: "ht_ok c0 L0" and sub: "set L \<subseteq> set L0"
    and rest: "\<And>m. m \<in> set L0 \<Longrightarrow> bucket_of c0 m \<noteq> HT_GET_BUCKET_INDEX c0 key \<Longrightarrow> m \<in> set L"
    and fr: "frame c0 c"
    and same: "\<And>m. m \<in> set L \<Longrightarrow> payload (entry c m) = payload (entry c0 m)
      \<and> he_ht_next (entry c m) = he_ht_next (entry c0 m)"
    and nokey: "\<And>m. m \<in> set L \<Longrightarrow> he_key (entry c m) \<noteq> key"
    and ch: "chain_of c0 (mi_buckets (sc_memory c0) ! HT_GET_BUCKET_INDEX c0 key) (P @ R)"
    and chS: "chain_of c0 (he_ht_next (entry c n)) S"
    and set: "\<And>m. m \<in> set (P @ S) \<longleftrightarrow> m \<in> set L \<and> bucket_of c0 m = HT_GET_BUCKET_INDEX c0 key"
    and dist: "distinct (P @ S)"
    and fits: "sizeof_shm_hash_entry + int (length key) + int (length (vi_data value)) \<le> he_size (entry c n)"
  obtains c' where
    "ht_set_store c key value (HT_GET_BUCKET_INDEX c0 key) (if P = [] then None else Some (last P)) (Some n) = Some (0, c')"
    "cache_inv c' (L @ [n])" "entry_pairs c' (L @ [n]) = entry_pairs c L @ [(key, value)]" "ht_frame c0 c'"
proof -
  let ?i = "HT_GET_BUCKET_INDEX c0 key" and ?pr = "if P = [] then None else Some (last P)"
  note core = core_invD [OF inv]
  have nL: "n \<notin> set L" using core(6) by simp
  have live: "loc_live c m" if "m \<in> set (L @ [n])" for m using core_inv_live [OF inv that] .
  have ln: "loc_live c n" using live by simp
  have "block_ok c n" using core(5) by (simp add: blocks_ok_def)
  then have off: "shm_get_hentry_offset (entry c n) = loc_offset n"
    by (auto simp: block_ok_def shm_get_hentry_offset_def loc_offset_def)
  define f1 :: "shm_hash_entry \<Rightarrow> shm_hash_entry" where "f1 = he_key_len_update (\<lambda>_. int (length key)) \<circ> he_key_update (\<lambda>_. key)"
  define f2 :: "shm_hash_entry \<Rightarrow> shm_hash_entry" where "f2 = he_expires_update (\<lambda>_. vi_expires value) \<circ> he_value_options_update (\<lambda>_. vi_options value)
      \<circ> he_value_length_update (\<lambda>_. int (length (vi_data value))) \<circ> he_data_update (\<lambda>_. vi_data value)"
  define c1 where "c1 = upd_entry f1 c n"
  define c2 where "c2 = upd_entry f2 c1 n"
  define c3 where "c3 = ht_unlink c2 ?i ?pr (loc_offset n)"
  have i1: "core_inv c1 L [n]" unfolding c1_def by (rule core_inv_pending [OF inv]) (simp_all add: f1_def mem_view_def)
  have i2: "core_inv c2 L [n]" unfolding c2_def by (rule core_inv_pending [OF i1]) (simp_all add: f2_def mem_view_def)
  have i3: "core_inv c3 L [n]" unfolding c3_def by (rule ht_unlink_core [OF i2])
  have e2: "entry c2 m = (if m = n then f2 (f1 (entry c n)) else entry c m)" for m
    using ln by (auto simp: c2_def c1_def loc_live_def upd_entry_def)
  have live2: "loc_live c2 m = loc_live c m" for m by (simp add: c2_def c1_def)
  have e3: "payload (entry c3 m) = payload (entry c2 m)"
    "he_ht_next (entry c3 m) = (if ?pr = Some m then loc_offset n else he_ht_next (entry c2 m))"
    if "m \<in> set (L @ [n])" for m
    using ht_unlink_entry(1,2) [of c2 m] live2 [of m] live [OF that] by (simp_all add: c3_def loc_live_def)
  have pay_n: "payload (entry c3 n) = (int (length key), vi_expires value, int (length (vi_data value)),
      vi_options value, key, vi_data value, he_size (entry c n))"
    using e3(1) [of n] by (simp add: e2 f1_def f2_def payload_def)
  then have pok: "payload_ok (entry c3 n)" using fits by (simp add: payload_def payload_ok_def)
  define c4 where "c4 = c3\<lparr>sc_memory := (sc_memory c3)\<lparr>mi_usage := (mi_usage (sc_memory c3))
       \<lparr>mu_key := mu_key (mi_usage (sc_memory c3)) + he_key_len (entry c3 n),
        mu_value := mu_value (mi_usage (sc_memory c3)) + he_value_length (entry c3 n)\<rparr>,
       mi_count := mi_count (sc_memory c3) + 1\<rparr>\<rparr>"
  obtain c' where c': "shm_list_add_tail c4 (loc_offset n) = Some c'" "core_inv c' (L @ [n]) []"
    "frame c3 c'" "entries_kept c3 c' {}"
    using link_tail [OF i3 pok] unfolding c4_def by metis
  have ent: "payload (entry c' m) = payload (entry c3 m)" "he_ht_next (entry c' m) = he_ht_next (entry c3 m)"
    if "m \<in> set (L @ [n])" for m
    using entries_keptD(3,4) [OF c'(4) core_inv_live [OF i3 that]] by simp_all
  have prL: "p \<in> set L" if "?pr = Some p" for p
  proof -
    have "p \<in> set (P @ S)" using that by (auto split: if_splits)
    then show ?thesis using set by blast
  qed
  have key: "he_key (entry c' m) = he_key (entry c0 m)" "payload (entry c' m) = payload (entry c0 m)"
    and nxt: "he_ht_next (entry c' m) = (if ?pr = Some m then loc_offset n else he_ht_next (entry c0 m))"
    if "m \<in> set L" for m
  proof -
    have m: "m \<in> set (L @ [n])" "m \<noteq> n" using that nL by auto
    have "payload (entry c' m) = payload (entry c0 m)"
      using ent(1) [OF m(1)] e3(1) [OF m(1)] e2 [of m] m(2) same [OF that] by simp
    then show "payload (entry c' m) = payload (entry c0 m)" "he_key (entry c' m) = he_key (entry c0 m)"
      using payload_fields(5) by blast+
    show "he_ht_next (entry c' m) = (if ?pr = Some m then loc_offset n else he_ht_next (entry c0 m))"
      using ent(2) [OF m(1)] e3(2) [OF m(1)] e2 [of m] m(2) same [OF that] by simp
  qed
  have prn: "?pr \<noteq> Some n" using prL nL by blast
  have nx_n: "he_ht_next (entry c' n) = he_ht_next (entry c n)"
    using ent(2) [of n] e3(2) [of n] prn by (simp add: e2 f1_def f2_def)
  have "payload (entry c' n) = payload (entry c3 n)" using ent(1) [of n] by simp
  then have val_n: "he_key (entry c' n) = key" "entry_value (entry c' n) = value"
    using pay_n by (simp_all add: payload_def entry_value_def)
  have "ht_frame c c3"
    using frame_upd_entry [of c f1 n] frame_upd_entry [of c1 f2 n] ht_unlink_frame [of c2 ?i ?pr "loc_offset n"]
    unfolding c3_def c2_def c1_def by (blast intro: ht_frame_trans ht_frame_frame)
  then have hf: "ht_frame c0 c'"
    using ht_frame_frame [OF fr] ht_frame_frame [OF c'(3)] ht_frame_trans by blast
  have idx: "HT_GET_BUCKET_INDEX c' k = HT_GET_BUCKET_INDEX c0 k" for k
    by (rule bucket_index_cong [OF ht_frame_fields(1,3) [OF hf]])
  have "mi_buckets (sc_memory c2) = mi_buckets (sc_memory c0)"
    using frame_fields(2) [OF fr] by (simp add: c2_def c1_def upd_entry_def)
  then have bk: "mi_buckets (sc_memory c') = (if P = [] then (mi_buckets (sc_memory c0))[?i := loc_offset n] else mi_buckets (sc_memory c0))"
    using frame_fields(2) [OF c'(3)] by (simp add: c3_def ht_unlink_buckets)
  have ilen: "?i < length (mi_buckets (sc_memory c0))"
    using ht0 bucket_index_less by (simp add: ht_ok_def)
  have nPS: "n \<notin> set (P @ S)" using set nL by blast
  have bucket: "bucket_ok c' (L @ [n]) ?i (P @ n # S)"
  proof -
    have 1: "chain_of c' (if P = [] then loc_offset n else mi_buckets (sc_memory c0) ! ?i) (P @ n # S)"
    proof (rule chain_cong [OF chain_insert [OF ch chS nPS dist]])
      fix m assume m: "m \<in> set (P @ n # S)"
      show "he_ht_next (entry c' m) = (if m = n then he_ht_next (entry c n)
          else if P \<noteq> [] \<and> m = last P then loc_offset n else he_ht_next (entry c0 m))"
      proof (cases "m = n")
        case True
        then show ?thesis using nx_n by simp
      next
        case False
        then have "m \<in> set L" using m set [of m] by auto
        then show ?thesis using nxt False by auto
      qed
    qed
    have 2: "mi_buckets (sc_memory c') ! ?i = (if P = [] then loc_offset n else mi_buckets (sc_memory c0) ! ?i)"
      using bk ilen by simp
    have 3: "set (P @ n # S) = {m \<in> set (L @ [n]). bucket_of c' m = ?i}"
    proof (rule set_eqI)
      fix m
      have "m \<in> set (P @ n # S) \<longleftrightarrow> m = n \<or> m \<in> set (P @ S)" "m \<in> set (L @ [n]) \<longleftrightarrow> m = n \<or> m \<in> set L"
        by auto
      moreover have "m \<in> set L \<Longrightarrow> bucket_of c' m = bucket_of c0 m" "bucket_of c' n = ?i"
        by (simp_all only: key idx val_n)
      ultimately show "(m \<in> set (P @ n # S)) = (m \<in> {m \<in> set (L @ [n]). bucket_of c' m = ?i})"
        unfolding mem_Collect_eq using set [of m] by metis
    qed
    show ?thesis unfolding bucket_ok_def 2 using 1 3 dist nPS by simp
  qed
  have ht: "ht_ok c' (L @ [n])"
  proof (rule ht_ok_change [OF ht0 ht_frame_fields(1,3,2) [OF hf] _ _ _ bucket])
    fix j assume "j \<noteq> ?i"
    then show "mi_buckets (sc_memory c') ! j = mi_buckets (sc_memory c0) ! j" using bk by simp
  next
    fix m assume m: "m \<in> set L0" "bucket_of c0 m \<noteq> ?i"
    then have mL: "m \<in> set L" by (rule rest)
    have "?pr \<noteq> Some m"
    proof
      assume "?pr = Some m"
      then have "m \<in> set (P @ S)" by (auto split: if_splits)
      then show False using set m(2) by blast
    qed
    then show "m \<in> set (L @ [n]) \<and> he_key (entry c' m) = he_key (entry c0 m)
        \<and> he_ht_next (entry c' m) = he_ht_next (entry c0 m)"
      using key(1) [OF mL] nxt [OF mL] mL by simp
  next
    fix m assume m: "m \<in> set (L @ [n])" "bucket_of c' m \<noteq> ?i"
    then have "m \<in> set L" using val_n(1) idx by auto
    then show "m \<in> set L0 \<and> he_key (entry c' m) = he_key (entry c0 m)" using sub key(1) by blast
  next
    have "inj_on (\<lambda>m. he_key (entry c0 m)) (set L)"
      using ht0 sub inj_on_subset unfolding ht_ok_def by blast
    then have "inj_on (\<lambda>m. he_key (entry c' m)) (set L)"
      by (rule inj_on_cong [THEN iffD1, rotated]) (simp only: key)
    moreover have "he_key (entry c' m) \<noteq> key" if "m \<in> set L" for m
      using nokey [OF that] key(1) [OF that] payload_fields(5) [OF conjunct1 [OF same [OF that]]] by simp
    then have "key \<notin> (\<lambda>m. he_key (entry c' m)) ` set L" by blast
    ultimately show "inj_on (\<lambda>m. he_key (entry c' m)) (set (L @ [n]))"
      using val_n(1) nL by simp
  qed
  have prlive: "loc_live c2 p" if "?pr = Some p" for p
    using prL [OF that] live [of p] live2 by simp
  have mem: "sc_memory_update (mi_usage_update (mu_key_update (\<lambda>k. k + int (length key))) \<circ>
      mi_usage_update (mu_value_update (\<lambda>v. v + int (length (vi_data value)))) \<circ> mi_count_update (\<lambda>n. n + 1)) c3 = c4"
    using pay_n by (simp add: c4_def payload_def)
  have run: "ht_set_store c key value ?i ?pr (Some n) = Some (0, c')"
    using hentry_read_live [OF ln] hentry_write_live [OF ln, of f1] off
      hentry_read_live [OF core_inv_live [OF i1, of n]] get_value_ptr_live [OF i1, of n]
      hentry_write_live [OF core_inv_live [OF i1, of n], of f2]
      ht_unlink_write [of ?pr c2 "loc_offset n" ?i, OF prlive] c'(1) mem
    by (simp add: ht_set_store_def flip: f1_def f2_def c1_def c2_def c3_def)
  have pairs: "entry_pairs c' (L @ [n]) = entry_pairs c L @ [(key, value)]"
  proof -
    have "entry_pairs c' L = entry_pairs c L"
      by (rule entry_pairs_cong) (use key(2) same in simp)
    then show ?thesis using val_n by (simp add: entry_pairs_def)
  qed
  show thesis using that [OF run _ pairs hf] c'(2) ht by (simp add: cache_inv_def)
qed

section \<open>Replacing the old entry\<close>

lemma ht_set_link_found:
  assumes "core_inv c (A @ l # B) [n]" and "ht_ok c (A @ l # B)" and "he_key (entry c l) = key"
    and "bucket_ok c (A @ l # B) (HT_GET_BUCKET_INDEX c key) (P @ l # S)"
    and "ht_lookup c key = Some (loc_offset l, Some l, if P = [] then None else Some (last P), c)"
    and "sizeof_shm_hash_entry + int (length key) + int (length (vi_data value)) \<le> he_size (entry c n)"
  obtains c' where "ht_set_link c key value (Some n) = Some (0, c')" "cache_inv c' (A @ B @ [n])"
    "entry_pairs c' (A @ B @ [n]) = entry_pairs c (A @ B) @ [(key, value)]" "ht_frame c c'"
proof -
  let ?L = "A @ l # B" and ?i = "HT_GET_BUCKET_INDEX c key"
  have dist: "distinct (?L @ [n])" using core_invD(6) [OF assms(1)] .
  have live: "loc_live c m" if "m \<in> set (?L @ [n])" for m using core_inv_live [OF assms(1) that] .
  have pos: "0 < loc_offset l" using live [of l] loc_offset_pos by (simp add: loc_live_def)
  define c1 where "c1 = upd_entry (he_ht_next_update (\<lambda>_. he_ht_next (entry c l))) c n"
  have i1: "core_inv c1 ?L [n]" unfolding c1_def by (rule core_inv_ht_next [OF assms(1)])
  obtain r c2 where c2: "shm_ht_free_entry c1 (Some l) (loc_offset l) False = Some (r, c2)"
    "core_inv c2 (A @ B) [n]" "frame c1 c2" "entries_kept c1 c2 {l}"
    using free_entry [OF i1] by metis
  have e1: "payload (entry c1 m) = payload (entry c m)" "loc_live c1 m"
    "he_ht_next (entry c1 m) = (if m = n then he_ht_next (entry c l) else he_ht_next (entry c m))"
    if "m \<in> set (?L @ [n])" for m
    using live [OF that] live [of n] by (auto simp: c1_def payload_def loc_live_def upd_entry_def)
  have e2: "payload (entry c2 m) = payload (entry c m)"
    "he_ht_next (entry c2 m) = (if m = n then he_ht_next (entry c l) else he_ht_next (entry c m))"
    if "m \<in> set (A @ B @ [n])" for m
  proof -
    have m: "m \<in> set (?L @ [n])" "m \<notin> {l}" using that dist by auto
    show "payload (entry c2 m) = payload (entry c m)"
      using entries_keptD(3) [OF c2(4) e1(2) [OF m(1)] m(2)] e1(1) [OF m(1)] by simp
    show "he_ht_next (entry c2 m) = (if m = n then he_ht_next (entry c l) else he_ht_next (entry c m))"
      using entries_keptD(4) [OF c2(4) e1(2) [OF m(1)] m(2)] e1(3) [OF m(1)] by simp
  qed
  have key2: "he_key (entry c2 m) = he_key (entry c m)" if "m \<in> set (A @ B)" for m
    by (rule payload_fields(5), rule e2(1)) (use that in simp)
  have inj: "inj_on (\<lambda>m. he_key (entry c m)) (set ?L)" using assms(2) by (simp add: ht_ok_def)
  have nokey: "he_key (entry c m) \<noteq> key" if "m \<in> set (A @ B)" for m
    using inj_onD [OF inj, of m l] assms(3) that dist by auto
  have ch: "chain_of c (mi_buckets (sc_memory c) ! ?i) (P @ l # S)" and dPS: "distinct (P @ l # S)"
    and mem: "\<And>m. m \<in> set (P @ l # S) \<longleftrightarrow> m \<in> set ?L \<and> bucket_of c m = ?i"
    using assms(4) unfolding bucket_ok_def by blast+
  have chS: "chain_of c (he_ht_next (entry c l)) S" using ch by (rule chain_suffix)
  have memP: "m \<in> set (P @ S) \<longleftrightarrow> m \<in> set (P @ l # S) \<and> m \<noteq> l" for m using dPS by auto
  have memA: "m \<in> set (A @ B) \<longleftrightarrow> m \<in> set ?L \<and> m \<noteq> l" for m using dist by auto
  have fr: "frame c c2" using frame_upd_entry c2(3) frame_trans unfolding c1_def by blast
  obtain c' where c': "ht_set_store c2 key value ?i (if P = [] then None else Some (last P)) (Some n) = Some (0, c')"
    "cache_inv c' ((A @ B) @ [n])" "entry_pairs c' ((A @ B) @ [n]) = entry_pairs c2 (A @ B) @ [(key, value)]" "ht_frame c c'"
  proof (rule ht_set_store [OF c2(2) assms(2) _ _ fr _ _ ch])
    show "chain_of c (he_ht_next (entry c2 n)) S" using chS e2(2) [of n] by simp
    show "distinct (P @ S)" using dPS by simp
    show "set (A @ B) \<subseteq> set ?L" by auto
    show "sizeof_shm_hash_entry + int (length key) + int (length (vi_data value)) \<le> he_size (entry c2 n)"
      using assms(6) e2(1) [of n] by (simp add: payload_def)
    fix m
    show "m \<in> set (P @ S) \<longleftrightarrow> m \<in> set (A @ B) \<and> bucket_of c m = ?i"
      using mem [of m] memP [of m] memA [of m] by argo
    show "m \<in> set (A @ B)" if "m \<in> set ?L" "bucket_of c m \<noteq> ?i"
    proof -
      have "m \<noteq> l" using that(2) assms(3) by auto
      then show ?thesis using that(1) memA by blast
    qed
    show "payload (entry c2 m) = payload (entry c m) \<and> he_ht_next (entry c2 m) = he_ht_next (entry c m)"
      if "m \<in> set (A @ B)"
    proof -
      have "m \<in> set (A @ B @ [n])" "m \<noteq> n" using that dist by auto
      then show ?thesis using e2 [of m] by simp
    qed
    show "he_key (entry c2 m) \<noteq> key" if "m \<in> set (A @ B)" using key2 [OF that] nokey [OF that] by simp
  qed
  have "ht_set_link c key value (Some n) = Some (0, c')"
    using assms(5) pos hentry_read_live [OF live, of l] hentry_write_live [OF live, of n] c2(1) c'(1)
    by (simp add: ht_set_link_def c1_def)
  moreover have "entry_pairs c2 (A @ B) = entry_pairs c (A @ B)"
    by (rule entry_pairs_cong) (use e2(1) in simp)
  ultimately show thesis using that c'(2-4) by simp
qed

lemma ht_set_link_absent:
  assumes "core_inv c L [n]" and "ht_ok c L" and "\<And>m. m \<in> set L \<Longrightarrow> he_key (entry c m) \<noteq> key"
    and "bucket_ok c L (HT_GET_BUCKET_INDEX c key) P"
    and "ht_lookup c key = Some (0, None, if P = [] then None else Some (last P), c)"
    and "sizeof_shm_hash_entry + int (length key) + int (length (vi_data value)) \<le> he_size (entry c n)"
  obtains c' where "ht_set_link c key value (Some n) = Some (0, c')" "cache_inv c' (L @ [n])"
    "entry_pairs c' (L @ [n]) = entry_pairs c L @ [(key, value)]" "ht_frame c c'"
proof -
  let ?i = "HT_GET_BUCKET_INDEX c key"
  have live: "loc_live c m" if "m \<in> set (L @ [n])" for m using core_inv_live [OF assms(1) that] .
  have nL: "n \<notin> set L" using core_invD(6) [OF assms(1)] by simp
  define c1 where "c1 = upd_entry (he_ht_next_update (\<lambda>_. 0)) c n"
  have i1: "core_inv c1 L [n]" unfolding c1_def by (rule core_inv_ht_next [OF assms(1)])
  have e1: "entry c1 m = (if m = n then (entry c n)\<lparr>he_ht_next := 0\<rparr> else entry c m)" for m
    using live [of n] by (simp add: c1_def loc_live_def)
  have same: "entry c1 m = entry c m" if "m \<in> set L" for m using e1 [of m] that nL by auto
  have ch: "chain_of c (mi_buckets (sc_memory c) ! ?i) (P @ [])" and dP: "distinct (P @ [])"
    and mem: "\<And>m. m \<in> set (P @ []) \<longleftrightarrow> m \<in> set L \<and> bucket_of c m = ?i"
    using assms(4) unfolding bucket_ok_def by auto
  have fr: "frame c c1" unfolding c1_def by (rule frame_upd_entry)
  obtain c' where c': "ht_set_store c1 key value ?i (if P = [] then None else Some (last P)) (Some n) = Some (0, c')"
    "cache_inv c' (L @ [n])" "entry_pairs c' (L @ [n]) = entry_pairs c1 L @ [(key, value)]" "ht_frame c c'"
  proof (rule ht_set_store [OF i1 assms(2) _ _ fr _ _ ch _ mem dP])
    show "chain_of c (he_ht_next (entry c1 n)) []" by (simp add: e1)
    show "sizeof_shm_hash_entry + int (length key) + int (length (vi_data value)) \<le> he_size (entry c1 n)"
      using assms(6) by (simp add: e1)
    fix m assume "m \<in> set L"
    then show "payload (entry c1 m) = payload (entry c m) \<and> he_ht_next (entry c1 m) = he_ht_next (entry c m)"
      "he_key (entry c1 m) \<noteq> key"
      using same [of m] assms(3) [of m] by simp_all
  qed simp_all
  have "ht_set_link c key value (Some n) = Some (0, c')"
    using assms(5) hentry_write_live [OF live, of n] c'(1) by (simp add: ht_set_link_def c1_def)
  moreover have "entry_pairs c1 L = entry_pairs c L"
    by (rule entry_pairs_cong) (simp only: same)
  ultimately show thesis using that c'(2-4) by simp
qed

text \<open>
  After the allocation, a set always succeeds. It replaces the entry of the key if there is one, and
  puts the new entry at the end of the represented list.
\<close>

lemma ht_set_link:
  assumes "core_inv c L [n]" and "ht_ok c L"
    and "sizeof_shm_hash_entry + int (length key) + int (length (vi_data value)) \<le> he_size (entry c n)"
  obtains c' L' where "ht_set_link c key value (Some n) = Some (0, c')" "cache_inv c' L'"
    "entry_pairs c' L' = filter (\<lambda>p. fst p \<noteq> key) (entry_pairs c L) @ [(key, value)]" "ht_frame c c'"
  using assms(1,2)
proof (cases rule: ht_lookup_cases [where key = key])
  case (found l P S)
  obtain A B where L: "L = A @ l # B" using found(1) by (meson split_list)
  have inj: "inj_on (\<lambda>m. he_key (entry c m)) (set L)" using assms(2) by (simp add: ht_ok_def)
  have dist: "distinct L" using core_invD(6) [OF assms(1)] by simp
  have filt: "filter (\<lambda>m. he_key (entry c m) \<noteq> key) L = A @ B"
    using filter_key_split [of "\<lambda>m. he_key (entry c m)" A l B] inj dist found(2) L by simp
  obtain c' where c': "ht_set_link c key value (Some n) = Some (0, c')" "cache_inv c' (A @ B @ [n])"
    "entry_pairs c' (A @ B @ [n]) = entry_pairs c (A @ B) @ [(key, value)]" "ht_frame c c'"
    using ht_set_link_found [OF assms(1,2) [unfolded L] found(2) found(3) [unfolded L] found(4) assms(3)] by metis
  then show thesis
    using that entry_pairs_filter [of c key L c] unfolding filt by simp
next
  case (absent P)
  obtain c' where c': "ht_set_link c key value (Some n) = Some (0, c')" "cache_inv c' (L @ [n])"
    "entry_pairs c' (L @ [n]) = entry_pairs c L @ [(key, value)]" "ht_frame c c'"
    using ht_set_link_absent [OF assms(1,2) absent assms(3)] by metis
  have "filter (\<lambda>m. he_key (entry c m) \<noteq> key) L = L" using absent(1) by (simp add: filter_id_conv)
  then show thesis using that c' entry_pairs_filter [of c key L c] by simp
qed

end
