(* ===== verification/RecycleCorrect.thy ===== *)
theory RecycleCorrect
  imports SetCorrect
begin

text \<open>
  Recycling: the entries are scanned from the oldest on. An entry that is still valid is only taken
  when the configuration allows it; the scan stops when enough keys are gone or a whole striping is
  free. What remains is shown to be the list of entries without the ones taken, in the same order.
\<close>

section \<open>What stays fixed\<close>

definition stable :: "shmcache_context \<Rightarrow> shmcache_context \<Rightarrow> bool" where
  "stable c c' \<longleftrightarrow> sc_config c' = sc_config c \<and> mi_segment (sc_memory c') = mi_segment (sc_memory c)
     \<and> mi_striping (sc_memory c') = mi_striping (sc_memory c) \<and> sc_values_count c' = sc_values_count c
     \<and> length (sc_values_items c') = length (sc_values_items c) \<and> sc_fastcommon c' = sc_fastcommon c
     \<and> length (sc_allocators c') = length (sc_allocators c)
     \<and> op_capacity (sc_doing c') = op_capacity (sc_doing c) \<and> op_capacity (sc_done c') = op_capacity (sc_done c)
     \<and> env_sys (sc_env c') = env_sys (sc_env c)"

lemma stable_refl [simp]: "stable c c"
  by (simp add: stable_def)

lemma stable_trans: "stable c c1 \<Longrightarrow> stable c1 c2 \<Longrightarrow> stable c c2"
  by (simp add: stable_def)

lemma stable_ht_frame: "ht_frame c c' \<Longrightarrow> stable c c'"
  using ht_frame_fields [of c c'] by (simp add: stable_def)

lemma stable_sys: "stable c (snd (sys r c))"
  by (simp add: stable_def snd_sys)

text \<open>Contexts that differ in the statistics, the clock variable and the system call history only.\<close>

definition bookkeeping :: "shmcache_context \<Rightarrow> shmcache_context \<Rightarrow> bool" where
  "bookkeeping c c' \<longleftrightarrow> (\<exists>s t h. c' = c\<lparr>sc_memory := (sc_memory c)\<lparr>mi_stats := s\<rparr>, sc_g_current_time := t,
     sc_env := (sc_env c)\<lparr>env_history := h\<rparr>\<rparr>)"

lemma bookkeepingI:
  "c' = c\<lparr>sc_memory := (sc_memory c)\<lparr>mi_stats := s\<rparr>, sc_g_current_time := t, sc_env := (sc_env c)\<lparr>env_history := h\<rparr>\<rparr>
   \<Longrightarrow> bookkeeping c c'"
  unfolding bookkeeping_def by blast

lemma bookkeepingE:
  assumes "bookkeeping c c'"
  obtains s t h where "c' = c\<lparr>sc_memory := (sc_memory c)\<lparr>mi_stats := s\<rparr>, sc_g_current_time := t,
    sc_env := (sc_env c)\<lparr>env_history := h\<rparr>\<rparr>"
  using assms unfolding bookkeeping_def by blast

lemma bookkeeping_refl [simp]: "bookkeeping c c"
  by (rule bookkeepingI [where s = "mi_stats (sc_memory c)" and t = "sc_g_current_time c" and h = "env_history (sc_env c)"])
    simp

lemma bookkeeping_trans:
  assumes "bookkeeping c c1" and "bookkeeping c1 c2"
  shows "bookkeeping c c2"
proof -
  obtain s t h where 1: "c1 = c\<lparr>sc_memory := (sc_memory c)\<lparr>mi_stats := s\<rparr>, sc_g_current_time := t,
    sc_env := (sc_env c)\<lparr>env_history := h\<rparr>\<rparr>"
    using assms(1) by (rule bookkeepingE)
  obtain s' t' h' where 2: "c2 = c1\<lparr>sc_memory := (sc_memory c1)\<lparr>mi_stats := s'\<rparr>, sc_g_current_time := t',
    sc_env := (sc_env c1)\<lparr>env_history := h'\<rparr>\<rparr>"
    using assms(2) by (rule bookkeepingE)
  show ?thesis by (rule bookkeepingI [where s = s' and t = t' and h = h']) (simp add: 2 1)
qed

lemma bookkeeping_stats: "bookkeeping c (sc_memory_update (mi_stats_update f) c)"
  by (rule bookkeepingI [where s = "f (mi_stats (sc_memory c))" and t = "sc_g_current_time c" and h = "env_history (sc_env c)"])
    simp

lemma bookkeeping_env: "bookkeeping c (c\<lparr>sc_env := (sc_env c)\<lparr>env_history := h\<rparr>\<rparr>)"
  by (rule bookkeepingI [where s = "mi_stats (sc_memory c)" and t = "sc_g_current_time c" and h = h]) simp

lemma bookkeeping_time: "bookkeeping c (c\<lparr>sc_g_current_time := t\<rparr>)"
  by (rule bookkeepingI [where s = "mi_stats (sc_memory c)" and t = t and h = "env_history (sc_env c)"]) simp

lemma bookkeeping_sys: "bookkeeping c (snd (sys r c))"
  by (simp add: snd_sys sysval_def syscall_def bookkeeping_env)

lemma bookkeeping_sleep: "bookkeeping c (recycle_sleep c)"
  by (simp add: recycle_sleep_def bookkeeping_sys)

lemmas bookkeeping_intros = bookkeeping_stats bookkeeping_env bookkeeping_time bookkeeping_sys bookkeeping_sleep

lemma bookkeeping_kept:
  assumes "bookkeeping c c'"
  shows "cache_inv c L \<Longrightarrow> cache_inv c' L" and "entry_pairs c' L = entry_pairs c L" and "stable c c'"
    and "sc_entries c' = sc_entries c" and "sc_config c' = sc_config c"
    and "mi_count (sc_memory c') = mi_count (sc_memory c)"
  using assms cache_inv_same [of c L c'] entry_pairs_same [of c' c L]
  by (auto simp: stable_def elim!: bookkeepingE)

section \<open>The scan\<close>

text \<open>Whether the scan takes an entry, on entries and on the represented pairs.\<close>

definition recyclable :: "shmcache_context \<Rightarrow> shm_hash_entry \<Rightarrow> bool" where
  "recyclable c e \<longleftrightarrow> \<not> (HT_ENTRY_IS_VALID e (sc_g_current_time c) \<and> \<not> cfg_recycle_valid_entries (sc_config c))"

definition list_offset :: "entry_loc list \<Rightarrow> int" where
  "list_offset R = (case R of [] \<Rightarrow> - 1 | l # _ \<Rightarrow> loc_offset l)"

abbreviation taken :: "shmcache_context \<Rightarrow> entry_loc list \<Rightarrow> entry_loc list" where
  "taken c \<equiv> filter (\<lambda>l. recyclable c (entry c l))"

abbreviation spared :: "shmcache_context \<Rightarrow> entry_loc list \<Rightarrow> entry_loc list" where
  "spared c \<equiv> filter (\<lambda>l. \<not> recyclable c (entry c l))"

lemma recyclable_cong:
  "payload e' = payload e \<Longrightarrow> sc_g_current_time c' = sc_g_current_time c \<Longrightarrow> sc_config c' = sc_config c \<Longrightarrow>
   recyclable c' e' = recyclable c e"
  by (simp add: recyclable_def HT_ENTRY_IS_VALID_def payload_def)

definition recycle_post ::
  "int \<Rightarrow> shmcache_context \<Rightarrow> entry_loc list \<Rightarrow> entry_loc list \<Rightarrow> int \<Rightarrow> int \<times> int \<times> int \<times> shmcache_context \<Rightarrow> bool" where
  "recycle_post k c Sk R cc r \<longleftrightarrow> (case r of (result, cc', vc', c') \<Rightarrow>
     \<exists>X Y. R = X @ Y \<and> cc' = cc + int (length (taken c X))
       \<and> cache_inv c' (Sk @ spared c X @ Y)
       \<and> entry_pairs c' (Sk @ spared c X @ Y) = entry_pairs c (Sk @ spared c X @ Y)
       \<and> stable c c' \<and> result \<in> {0, ENOMEM}
       \<and> (result = 0 \<longrightarrow> X \<noteq> [] \<and> recyclable c (entry c (last X)) \<and> (0 < k \<longrightarrow> k \<le> cc'))
       \<and> (result \<noteq> 0 \<longrightarrow> Y = [] \<and> (0 < k \<longrightarrow> cc < k \<longrightarrow> cc' < k)))"

lemma cache_inv_live: "cache_inv c L \<Longrightarrow> l \<in> set L \<Longrightarrow> loc_live c l"
  using core_inv_live [of c L "[]" l] by (simp add: cache_inv_def)

lemma cache_inv_key_take:
  "cache_inv c L \<Longrightarrow> l \<in> set L \<Longrightarrow> take (nat (he_key_len (entry c l))) (he_key (entry c l)) = he_key (entry c l)"
  using core_invD(9) [of c L "[]"] by (simp add: cache_inv_def list_all_iff payload_ok_def)

text \<open>One deletion of the scan.\<close>

lemma recycle_delete:
  assumes "cache_inv c (Sk @ l # R)"
  obtains r c1 where "shm_ht_delete_ex c (he_key (entry c l)) recycled = Some (0, r, c1)"
    "cache_inv c1 (Sk @ R)" "ht_frame c c1" "recycled \<Longrightarrow> r"
    "\<And>m. m \<in> set (Sk @ R) \<Longrightarrow> payload (entry c1 m) = payload (entry c m)"
proof -
  have inv: "core_inv c (Sk @ l # R) []" "ht_ok c (Sk @ l # R)" using assms by (simp_all add: cache_inv_def)
  have filt: "filter (\<lambda>m. he_key (entry c m) \<noteq> he_key (entry c l)) (Sk @ l # R) = Sk @ R"
    using inv core_invD(6) [OF inv(1)] filter_key_split [of "\<lambda>m. he_key (entry c m)" Sk l R] by (simp add: ht_ok_def)
  have key: "he_key (entry c l) \<in> fst ` set (entry_pairs c (Sk @ l # R))" by (simp add: entry_pairs_def)
  show thesis
  proof (rule ht_delete_ex [OF inv, of "he_key (entry c l)" recycled, unfolded filt])
    fix r c1
    assume c1: "shm_ht_delete_ex c (he_key (entry c l)) recycled
        = Some (if he_key (entry c l) \<in> fst ` set (entry_pairs c (Sk @ l # R)) then 0 else ENOENT, r, c1)"
      "core_inv c1 (Sk @ R) []" "ht_ok c1 (Sk @ R)" "ht_frame c c1" "recycled \<Longrightarrow> r"
      "\<And>m. m \<in> set ((Sk @ R) @ []) \<Longrightarrow> payload (entry c1 m) = payload (entry c m)"
    show thesis
    proof (rule that)
      show "shm_ht_delete_ex c (he_key (entry c l)) recycled = Some (0, r, c1)" using c1(1) key by simp
      show "payload (entry c1 m) = payload (entry c m)" if "m \<in> set (Sk @ R)" for m
        using c1(6) [of m] that by simp
    qed (use c1(2-5) in \<open>simp_all add: cache_inv_def\<close>)
  qed
qed

lemma list_offset_next:
  assumes "cache_inv c (Sk @ l # R)"
  shows "shm_list_next c (loc_offset l) = Some (list_offset R, c)"
  using dlist_next [of c Sk l R] core_invD(1,7) [of c "Sk @ l # R" "[]"] assms
  by (simp add: cache_inv_def list_offset_def split: list.splits)

lemma recycle_step_post:
  assumes "recycle_post k c1 Sk R (cc + 1) r" and "ht_frame c c1" and "recyclable c (entry c l)"
    and "\<And>m. m \<in> set (Sk @ R) \<Longrightarrow> payload (entry c1 m) = payload (entry c m)"
    and "0 < k \<Longrightarrow> cc + 1 < k"
  shows "recycle_post k c Sk (l # R) cc r"
proof -
  obtain result cc' vc' c' where r: "r = (result, cc', vc', c')" by (cases r)
  obtain X Y where XY: "R = X @ Y" "cc' = cc + 1 + int (length (taken c1 X))" "cache_inv c' (Sk @ spared c1 X @ Y)"
    "entry_pairs c' (Sk @ spared c1 X @ Y) = entry_pairs c1 (Sk @ spared c1 X @ Y)" "stable c1 c'" "result \<in> {0, ENOMEM}"
    "result = 0 \<longrightarrow> X \<noteq> [] \<and> recyclable c1 (entry c1 (last X)) \<and> (0 < k \<longrightarrow> k \<le> cc')"
    "result \<noteq> 0 \<longrightarrow> Y = [] \<and> (0 < k \<longrightarrow> cc + 1 < k \<longrightarrow> cc' < k)"
    using assms(1) unfolding recycle_post_def r by auto
  have rc: "recyclable c1 (entry c1 m) = recyclable c (entry c m)" if "m \<in> set R" for m
    by (rule recyclable_cong) (use assms(4) [of m] that ht_frame_fields(1,11) [OF assms(2)] in simp_all)
  have filt: "taken c1 X = taken c X" "spared c1 X = spared c X"
    using rc XY(1) by (auto intro!: filter_cong)
  have pairs: "entry_pairs c1 (Sk @ spared c X @ Y) = entry_pairs c (Sk @ spared c X @ Y)"
    by (rule entry_pairs_cong, rule assms(4)) (use XY(1) in auto)
  have last: "X \<noteq> [] \<Longrightarrow> recyclable c1 (entry c1 (last X)) = recyclable c (entry c (last X))"
    using rc XY(1) by simp
  show ?thesis
    unfolding recycle_post_def r split
  proof (intro exI conjI)
    show "l # R = (l # X) @ Y" using XY(1) by simp
    show "cc' = cc + int (length (taken c (l # X)))" using XY(2) assms(3) by (simp add: filt)
    show "cache_inv c' (Sk @ spared c (l # X) @ Y)" using XY(3) assms(3) by (simp add: filt)
    show "entry_pairs c' (Sk @ spared c (l # X) @ Y) = entry_pairs c (Sk @ spared c (l # X) @ Y)"
      using XY(4) pairs assms(3) by (simp add: filt)
    show "stable c c'" using stable_trans [OF stable_ht_frame [OF assms(2)] XY(5)] .
    show "result \<in> {0, ENOMEM}" by (rule XY(6))
    show "result = 0 \<longrightarrow> l # X \<noteq> [] \<and> recyclable c (entry c (last (l # X))) \<and> (0 < k \<longrightarrow> k \<le> cc')"
      using XY(7) last by auto
    show "result \<noteq> 0 \<longrightarrow> Y = [] \<and> (0 < k \<longrightarrow> cc < k \<longrightarrow> cc' < k)" using XY(8) assms(5) by auto
  qed
qed

lemma recycle_stop_post:
  assumes "cache_inv c' (Sk @ R)" and "stable c c'" and "recyclable c (entry c l)"
    and "entry_pairs c' (Sk @ R) = entry_pairs c (Sk @ R)" and "0 < k \<longrightarrow> k \<le> cc + 1"
  shows "recycle_post k c Sk (l # R) cc (0, cc + 1, vc, c')"
  unfolding recycle_post_def split
  by (rule exI [of _ "[l]"], rule exI [of _ R]) (use assms in simp)

lemma recycle_skip_post:
  assumes "recycle_post k c (Sk @ [l]) R cc r" and "\<not> recyclable c (entry c l)"
  shows "recycle_post k c Sk (l # R) cc r"
proof -
  obtain result cc' vc' c' where r: "r = (result, cc', vc', c')" by (cases r)
  obtain X Y where XY: "R = X @ Y" "cc' = cc + int (length (taken c X))" "cache_inv c' ((Sk @ [l]) @ spared c X @ Y)"
    "entry_pairs c' ((Sk @ [l]) @ spared c X @ Y) = entry_pairs c ((Sk @ [l]) @ spared c X @ Y)" "stable c c'"
    "result \<in> {0, ENOMEM}"
    "result = 0 \<longrightarrow> X \<noteq> [] \<and> recyclable c (entry c (last X)) \<and> (0 < k \<longrightarrow> k \<le> cc')"
    "result \<noteq> 0 \<longrightarrow> Y = [] \<and> (0 < k \<longrightarrow> cc < k \<longrightarrow> cc' < k)"
    using assms(1) unfolding recycle_post_def r by auto
  show ?thesis
    unfolding recycle_post_def r split
    by (rule exI [of _ "l # X"], rule exI [of _ Y]) (use XY assms(2) in simp)
qed

lemma recycle_loop:
  assumes "cache_inv c (Sk @ R)"
  shows "\<exists>r. recycle_loop k c (list_offset R) recycled cc vc = Some r \<and> recycle_post k c Sk R cc r"
  using assms
proof (induction R arbitrary: c Sk recycled cc vc)
  case Nil
  have "recycle_post k c Sk [] cc (ENOMEM, cc, vc, c)"
    using Nil by (simp add: recycle_post_def)
  then show ?case by (subst recycle_loop.simps) (simp add: list_offset_def)
next
  case (Cons l R)
  note inv = Cons.prems
  have live: "loc_live c l" using cache_inv_live [OF inv] by simp
  have ctx: "ctx_ok c" using inv core_invD(1) [of c "Sk @ l # R" "[]"] by (simp add: cache_inv_def)
  have pos: "0 < loc_offset l" using live loc_offset_pos by (simp add: loc_live_def)
  have key: "take (nat (he_key_len (entry c l))) (he_key (entry c l)) = he_key (entry c l)"
    using cache_inv_key_take [OF inv] by simp
  note simps = get_hentry_ptr_live [OF ctx live] hentry_read_live [OF live] pos key list_offset_next [OF inv]
  show ?case
  proof (cases "recyclable c (entry c l)")
    case False
    then have "recycle_loop k c (list_offset (l # R)) recycled cc vc = recycle_loop k c (list_offset R) recycled cc vc"
      by (subst recycle_loop.simps) (simp add: list_offset_def [of "l # R"] simps recyclable_def)
    moreover obtain r where "recycle_loop k c (list_offset R) recycled cc vc = Some r" "recycle_post k c (Sk @ [l]) R cc r"
      using Cons.IH [of c "Sk @ [l]" recycled cc vc] inv by auto
    ultimately show ?thesis using recycle_skip_post [OF _ False] by auto
  next
    case True
    obtain rec1 c1 where c1: "shm_ht_delete_ex c (he_key (entry c l)) recycled = Some (0, rec1, c1)"
      "cache_inv c1 (Sk @ R)" "ht_frame c c1"
      "\<And>m. m \<in> set (Sk @ R) \<Longrightarrow> payload (entry c1 m) = payload (entry c m)"
      using recycle_delete [OF inv] by metis
    let ?vc = "if HT_ENTRY_IS_VALID (entry c l) (sc_g_current_time c) then vc + 1 else vc"
    have run: "recycle_loop k c (list_offset (l # R)) recycled cc vc =
      (if k > 0 then (if cc + 1 \<ge> k then Some (0, cc + 1, ?vc, c1) else recycle_loop k c1 (list_offset R) rec1 (cc + 1) ?vc)
       else if rec1 then Some (0, cc + 1, ?vc, snd (sys Sys_get_current_time_us c1))
       else recycle_loop k c1 (list_offset R) rec1 (cc + 1) ?vc)"
      using True c1(1)
      by (subst recycle_loop.simps) (simp add: list_offset_def [of "l # R"] simps recyclable_def Let_def, blast)
    have pairs: "entry_pairs c1 (Sk @ R) = entry_pairs c (Sk @ R)" by (rule entry_pairs_cong [OF c1(4)])
    obtain r where r: "recycle_loop k c1 (list_offset R) rec1 (cc + 1) ?vc = Some r" "recycle_post k c1 Sk R (cc + 1) r"
      using Cons.IH [OF c1(2)] by blast
    consider "0 < k" "k \<le> cc + 1" | "\<not> 0 < k" "rec1" | "0 < k \<Longrightarrow> cc + 1 < k" "0 < k \<or> \<not> rec1" by linarith
    then show ?thesis
    proof cases
      case 1
      then show ?thesis
        using run recycle_stop_post [OF c1(2) stable_ht_frame [OF c1(3)] True pairs, of k cc ?vc] by simp
    next
      case 2
      have "stable c (snd (sys Sys_get_current_time_us c1))"
        using stable_trans [OF stable_ht_frame [OF c1(3)] stable_sys] .
      then show ?thesis
        using run 2 recycle_stop_post [OF cache_inv_sys(1) [OF c1(2)] _ True, of "Sys_get_current_time_us" k cc ?vc]
          pairs cache_inv_sys(2) [of Sys_get_current_time_us c1 "Sk @ R"] by simp
    next
      case 3
      then show ?thesis
        using run r(1) recycle_step_post [OF r(2) c1(3) True c1(4) 3(1)] by auto
    qed
  qed
qed

section \<open>The whole recycling\<close>

text \<open>The entries that a recycling leaves: a scanned prefix loses the recyclable ones.\<close>

lemma value_allocator_recycle:
  assumes "cache_inv c L"
  obtains result c' X Y t where "shm_value_allocator_recycle c kind k = Some (result, c')" "L = X @ Y"
    "cache_inv c' (spared (c\<lparr>sc_g_current_time := t\<rparr>) X @ Y)"
    "entry_pairs c' (spared (c\<lparr>sc_g_current_time := t\<rparr>) X @ Y)
       = entry_pairs c (spared (c\<lparr>sc_g_current_time := t\<rparr>) X @ Y)"
    "stable c c'" "result \<in> {0, ENOMEM}"
    "result = 0 \<longrightarrow> X \<noteq> [] \<and> recyclable (c\<lparr>sc_g_current_time := t\<rparr>) (entry c (last X))
       \<and> (0 < k \<longrightarrow> k \<le> int (length (taken (c\<lparr>sc_g_current_time := t\<rparr>) X)))"
    "result \<noteq> 0 \<longrightarrow> Y = []"
    "t = cdiv (fst (sys Sys_get_current_time_us c)) 1000000"
proof -
  define t where "t = cdiv (fst (sys Sys_get_current_time_us c)) 1000000"
  define c1 where "c1 = (snd (sys Sys_get_current_time_us c))\<lparr>sc_g_current_time := t\<rparr>"
  let ?c = "c\<lparr>sc_g_current_time := t\<rparr>"
  have en: "sc_entries c1 = sc_entries c" "sc_config c1 = sc_config c" "sc_g_current_time c1 = t"
    by (simp_all add: c1_def snd_sys)
  have b1: "bookkeeping c c1"
    unfolding c1_def by (blast intro: bookkeeping_trans bookkeeping_sys bookkeeping_time)
  have inv1: "cache_inv c1 L" by (rule bookkeeping_kept(1) [OF b1 assms])
  have "shm_list_first c1 = list_offset L"
    using dlist_first [of c1 L] core_invD(1,7) [of c1 L "[]"] inv1 by (simp add: cache_inv_def list_offset_def)
  moreover obtain r where r: "recycle_loop k c1 (list_offset L) False 0 0 = Some r" "recycle_post k c1 [] L 0 r"
    using recycle_loop [of c1 "[]" L k False 0 0] inv1 by (simp; blast)
  moreover obtain result cc vc c2 where rr: "r = (result, cc, vc, c2)" by (cases r)
  ultimately have loop: "recycle_loop k c1 (shm_list_first c1) False 0 0 = Some (result, cc, vc, c2)" by simp
  have rec: "recyclable c1 e = recyclable ?c e" for e by (simp add: recyclable_def en)
  obtain X Y where XY: "L = X @ Y" "cc = int (length (taken c1 X))" "cache_inv c2 (spared c1 X @ Y)"
    "entry_pairs c2 (spared c1 X @ Y) = entry_pairs c1 (spared c1 X @ Y)" "stable c1 c2" "result \<in> {0, ENOMEM}"
    "result = 0 \<longrightarrow> X \<noteq> [] \<and> recyclable c1 (entry c1 (last X)) \<and> (0 < k \<longrightarrow> k \<le> cc)"
    "result \<noteq> 0 \<longrightarrow> Y = []"
    using r(2) unfolding recycle_post_def rr by auto
  obtain c3 where c3: "shm_value_allocator_recycle c kind k = Some (result, c3)" "bookkeeping c2 c3"
  proof (rule that)
    let ?stats = "\<lambda>f. sc_memory_update (mi_stats_update f)"
    define d1 where "d1 = ?stats (st_clear_total_update (\<lambda>n. n + cc)) c2"
    define d2 where "d2 = (if vc > 0 then ?stats (st_clear_valid_update (\<lambda>n. n + vc)) d1 else d1)"
    define d3 where "d3 = ?stats (recycle_stats_update kind
                  (rs_last_recycle_time_update (\<lambda>_. sc_g_current_time d2) \<circ> rs_total_update (\<lambda>n. n + 1))) d2"
    define d4 where "d4 = ?stats (recycle_stats_update kind (rs_success_update (\<lambda>n. n + 1))) d3"
    define d5 where "d5 = (if vc > 0 then recycle_sleep (?stats (recycle_stats_update kind
                           (rs_force_update (\<lambda>n. n + 1))) d4) else d4)"
    define d6 where "d6 = (if result = 0 then d5 else snd (sys Sys_get_current_time_us d3))"
    have "shm_value_allocator_recycle c kind k = Some (result, d6)"
      using loop unfolding c1_def t_def
      by (simp add: shm_value_allocator_recycle_def case_prod_unfold Let_def comp_assoc
          d1_def d2_def d3_def d4_def d5_def d6_def)
    then show "shm_value_allocator_recycle c kind k = Some (result, d6)" .
    have "bookkeeping c2 d1" unfolding d1_def by (rule bookkeeping_stats)
    moreover have "bookkeeping d1 d2" unfolding d2_def by (cases "vc > 0") (simp_all only: if_True if_False bookkeeping_refl bookkeeping_stats)
    moreover have "bookkeeping d2 d3" unfolding d3_def by (rule bookkeeping_stats)
    ultimately have b3: "bookkeeping c2 d3" using bookkeeping_trans by blast
    have "bookkeeping d3 d4" unfolding d4_def by (rule bookkeeping_stats)
    moreover have "bookkeeping d4 d5"
      unfolding d5_def
      by (cases "vc > 0")
        (simp_all only: if_True if_False bookkeeping_refl bookkeeping_trans [OF bookkeeping_stats bookkeeping_sleep])
    ultimately have "bookkeeping d3 d5" by (rule bookkeeping_trans)
    then have "bookkeeping d3 d6"
      unfolding d6_def by (simp only: bookkeeping_sys split: if_split) blast
    then show "bookkeeping c2 d6" using b3 bookkeeping_trans by blast
  qed
  note b3 = bookkeeping_kept [OF c3(2)]
  have sp: "spared c1 X = spared ?c X" "taken c1 X = taken ?c X" by (simp_all add: rec en(1))
  show thesis
  proof (rule that [OF c3(1) XY(1)])
    show "cache_inv c3 (spared ?c X @ Y)" using b3(1) XY(3) by (simp only: sp)
    show "entry_pairs c3 (spared ?c X @ Y) = entry_pairs c (spared ?c X @ Y)"
      using XY(4) unfolding sp b3(2) bookkeeping_kept(2) [OF b1] .
    show "stable c c3" using bookkeeping_kept(3) [OF b1] XY(5) b3(3) stable_trans by blast
    show "result = 0 \<longrightarrow> X \<noteq> [] \<and> recyclable ?c (entry c (last X)) \<and> (0 < k \<longrightarrow> k \<le> int (length (taken ?c X)))"
      using XY(7) unfolding XY(2) sp rec en(1) by simp
  qed (fact XY(6,8) t_def)+
qed

end
