(* ===== verification/SegmentCorrect.thy ===== *)
theory SegmentCorrect
  imports RecycleCorrect
begin

text \<open>
  Creating a value segment. The limits say how the segment and striping counters, the arrays and the
  queues of a context fit together; within them a new segment brings fresh stripings into the doing
  queue and keeps the invariant of the cache.
\<close>

section \<open>Limits\<close>

abbreviation stripings_per_segment :: "shmcache_context \<Rightarrow> int" where
  "stripings_per_segment c \<equiv> vs_size (mi_segment (sc_memory c)) div vs_size (mi_striping (sc_memory c))"

definition limits_ok :: "shmcache_context \<Rightarrow> bool" where
  "limits_ok c \<longleftrightarrow> 0 \<le> vs_current (mi_segment (sc_memory c))
     \<and> vs_current (mi_segment (sc_memory c)) \<le> vs_max (mi_segment (sc_memory c))
     \<and> vs_max (mi_segment (sc_memory c)) \<le> 256
     \<and> sc_values_count c = vs_current (mi_segment (sc_memory c))
     \<and> length (sc_values_items c) = nat (vs_max (mi_segment (sc_memory c)))
     \<and> 0 < vs_size (mi_striping (sc_memory c)) \<and> vs_size (mi_striping (sc_memory c)) < 2 ^ 31
     \<and> vs_size (mi_striping (sc_memory c)) \<le> vs_size (mi_segment (sc_memory c))
     \<and> vs_size (mi_segment (sc_memory c)) \<le> 2 ^ 47
     \<and> vs_current (mi_striping (sc_memory c)) = vs_current (mi_segment (sc_memory c)) * stripings_per_segment c
     \<and> vs_max (mi_segment (sc_memory c)) * stripings_per_segment c \<le> 2 ^ 15
     \<and> nat (vs_max (mi_segment (sc_memory c)) * stripings_per_segment c) \<le> length (sc_allocators c)
     \<and> nat (vs_max (mi_segment (sc_memory c)) * stripings_per_segment c) < op_capacity (sc_doing c)
     \<and> nat (vs_max (mi_segment (sc_memory c)) * stripings_per_segment c) < op_capacity (sc_done c)"

lemma limits_stable: "stable c c' \<Longrightarrow> limits_ok c \<Longrightarrow> limits_ok c'"
  by (simp add: stable_def limits_ok_def)

lemma stripings_per_segment_pos: "limits_ok c \<Longrightarrow> 0 < stripings_per_segment c"
  by (simp add: limits_ok_def pos_imp_zdiv_pos_iff)

section \<open>The loop over the new stripings\<close>

definition new_striping :: "shmcache_context \<Rightarrow> int \<Rightarrow> int \<Rightarrow> nat \<Rightarrow> nat \<Rightarrow> shm_striping_allocator" where
  "new_striping c segment_index off k j =
     (shm_striping_allocator_init (allocator c j) \<lparr>ssp_segment = int16 segment_index, ssp_striping = int16 (int j)\<rparr>
        (off + int (j - k) * vs_size (mi_striping (sc_memory c))) (vs_size (mi_striping (sc_memory c))))
     \<lparr>sa_in_which_pool := POOL_DOING\<rparr>"

lemma create_striping_loop:
  assumes "0 \<le> vs_current (mi_striping (sc_memory c))" and "nstriping c + n \<le> length (sc_allocators c)"
  defines "k \<equiv> nstriping c"
  shows "create_striping_loop n segment_index off c =
    c\<lparr>sc_memory := (sc_memory c)\<lparr>mi_striping := (mi_striping (sc_memory c))\<lparr>vs_current := int (k + n)\<rparr>\<rparr>,
      sc_doing := foldl shm_object_pool_push (sc_doing c) (map (allocator_offset c) [k..<k + n]),
      sc_allocators := map (\<lambda>j. if k \<le> j \<and> j < k + n then new_striping c segment_index off k j else allocator c j)
        [0..<length (sc_allocators c)]\<rparr>"
  using assms(1,2) unfolding k_def
proof (induction n arbitrary: c off)
  case 0
  have "map (\<lambda>j. if nstriping c \<le> j \<and> j < nstriping c + 0 then new_striping c segment_index off (nstriping c) j
      else allocator c j) [0..<length (sc_allocators c)] = sc_allocators c" by (rule nth_equalityI) auto
  then show ?case using 0 by (simp only: create_striping_loop.simps) simp
next
  case (Suc n)
  let ?k = "nstriping c" and ?sz = "vs_size (mi_striping (sc_memory c))"
  define c1 where "c1 = c\<lparr>sc_memory := (sc_memory c)\<lparr>mi_striping := (mi_striping (sc_memory c))
        \<lparr>vs_current := vs_current (mi_striping (sc_memory c)) + 1\<rparr>\<rparr>,
      sc_doing := shm_object_pool_push (sc_doing c) (allocator_offset c ?k),
      sc_allocators := (sc_allocators c)[?k := new_striping c segment_index off ?k ?k]\<rparr>"
  have c1: "length (sc_allocators c1) = length (sc_allocators c)" "allocator_offset c1 = allocator_offset c"
    "nstriping c1 = Suc ?k" "vs_size (mi_striping (sc_memory c1)) = ?sz"
    "0 \<le> vs_current (mi_striping (sc_memory c1))"
    using Suc.prems(1) by (simp_all add: c1_def fun_eq_iff allocator_offset_def nat_add_distrib)
  have al: "allocator c1 j = (if j = ?k then new_striping c segment_index off ?k ?k else allocator c j)"
    if "j < length (sc_allocators c)" for j
    using that by (simp add: c1_def)
  have upt: "[?k..<?k + Suc n] = ?k # [Suc ?k..<Suc ?k + n]" by (simp add: upt_conv_Cons)
  have new: "new_striping c1 segment_index (off + ?sz) (Suc ?k) j = new_striping c segment_index off ?k j"
    if "Suc ?k \<le> j" "j < length (sc_allocators c)" for j
  proof -
    have "int (j - ?k) = int (j - Suc ?k) + 1" using that by (simp add: of_nat_diff)
    then show ?thesis
      using that al [of j] by (simp add: new_striping_def c1(4) algebra_simps)
  qed
  have als: "map (\<lambda>j. if Suc ?k \<le> j \<and> j < Suc ?k + n then new_striping c1 segment_index (off + ?sz) (Suc ?k) j else allocator c1 j)
      [0..<length (sc_allocators c)]
    = map (\<lambda>j. if ?k \<le> j \<and> j < ?k + Suc n then new_striping c segment_index off ?k j else allocator c j)
      [0..<length (sc_allocators c)]"
    by (rule map_cong) (auto simp: al new)
  have "create_striping_loop (Suc n) segment_index off c = create_striping_loop n segment_index (off + ?sz) c1"
    using Suc.prems(1)
    by (simp add: Let_def c1_def new_striping_def)
      (simp add: allocator_offset_def, rule arg_cong [where f = "create_striping_loop n segment_index (off + ?sz)"], simp)
  also have "\<dots> = c1\<lparr>sc_memory := (sc_memory c1)\<lparr>mi_striping := (mi_striping (sc_memory c1))\<lparr>vs_current := int (Suc ?k + n)\<rparr>\<rparr>,
      sc_doing := foldl shm_object_pool_push (sc_doing c1) (map (allocator_offset c) [Suc ?k..<Suc ?k + n]),
      sc_allocators := map (\<lambda>j. if ?k \<le> j \<and> j < ?k + Suc n then new_striping c segment_index off ?k j else allocator c j)
        [0..<length (sc_allocators c)]\<rparr>"
    using Suc.IH [of c1 "off + ?sz"] Suc.prems by (simp only: c1 als)
  also have "\<dots> = c\<lparr>sc_memory := (sc_memory c)\<lparr>mi_striping := (mi_striping (sc_memory c))\<lparr>vs_current := int (?k + Suc n)\<rparr>\<rparr>,
      sc_doing := foldl shm_object_pool_push (sc_doing c) (map (allocator_offset c) [?k..<?k + Suc n]),
      sc_allocators := map (\<lambda>j. if ?k \<le> j \<and> j < ?k + Suc n then new_striping c segment_index off ?k j else allocator c j)
        [0..<length (sc_allocators c)]\<rparr>"
    unfolding upt by (simp add: c1_def)
  finally show ?case .
qed

section \<open>The new segment\<close>

lemma new_striping_fields:
  assumes "0 < vs_size (mi_striping (sc_memory c))" and "vs_size (mi_striping (sc_memory c)) < 2 ^ 31"
  shows "sa_base (new_striping c i off k j) = off + int (j - k) * vs_size (mi_striping (sc_memory c))"
    and "sa_end (new_striping c i off k j) = sa_base (new_striping c i off k j) + vs_size (mi_striping (sc_memory c))"
    and "sa_in_which_pool (new_striping c i off k j) = POOL_DOING"
    and "sa_free (new_striping c i off k j) = sa_base (new_striping c i off k j)"
    and "sa_used (new_striping c i off k j) = 0"
  using assms by (simp_all add: new_striping_def shm_striping_allocator_init_def shm_striping_allocator_reset_def Let_def)

lemma new_striping_index:
  "0 \<le> i \<Longrightarrow> i < 256 \<Longrightarrow> j < 32768 \<Longrightarrow>
   sa_index (new_striping c i off k j) = \<lparr>ssp_segment = i, ssp_striping = int j\<rparr>"
  by (simp add: new_striping_def shm_striping_allocator_init_def shm_striping_allocator_reset_def Let_def)

lemma new_striping_wf:
  assumes "0 < vs_size (mi_striping (sc_memory c))" and "vs_size (mi_striping (sc_memory c)) < 2 ^ 31" and "0 \<le> off"
  shows "striping_wf (new_striping c i off k j) []"
  using new_striping_fields [OF assms(1,2), of i off k j] assms by (simp add: striping_wf_def)

text \<open>The context after a segment was mapped at a non-null address and its stripings set up.\<close>

definition segment_added :: "shmcache_context \<Rightarrow> shmcache_segment_info \<Rightarrow> sysreq list \<Rightarrow> shmcache_context" where
  "segment_added c s h =
     (let k = nstriping c; n = nat (stripings_per_segment c); i = vs_current (mi_segment (sc_memory c)) in
      c\<lparr>sc_memory := (sc_memory c)
         \<lparr>mi_segment := (mi_segment (sc_memory c))\<lparr>vs_current := i + 1\<rparr>,
          mi_striping := (mi_striping (sc_memory c))\<lparr>vs_current := int (k + n)\<rparr>,
          mi_usage := (mi_usage (sc_memory c))\<lparr>mu_alloced := mu_alloced (mi_usage (sc_memory c)) + vs_size (mi_segment (sc_memory c))\<rparr>\<rparr>,
        sc_values_count := i + 1, sc_values_items := (sc_values_items c)[nat i := s],
        sc_doing := foldl shm_object_pool_push (sc_doing c) (map (allocator_offset c) [k..<k + n]),
        sc_allocators := map (\<lambda>j. if k \<le> j \<and> j < k + n then new_striping c i 0 k j else allocator c j)
          [0..<length (sc_allocators c)],
        sc_env := (sc_env c)\<lparr>env_history := h\<rparr>\<rparr>)"

lemma limits_room:
  assumes "limits_ok c" and "vs_current (mi_segment (sc_memory c)) < vs_max (mi_segment (sc_memory c))"
  shows "int (nstriping c + nat (stripings_per_segment c)) \<le> vs_max (mi_segment (sc_memory c)) * stripings_per_segment c"
    and "nstriping c + nat (stripings_per_segment c) \<le> length (sc_allocators c)"
    and "nstriping c + nat (stripings_per_segment c) \<le> 32768"
    and "nstriping c + nat (stripings_per_segment c) < op_capacity (sc_doing c)"
    and "nstriping c + nat (stripings_per_segment c) < op_capacity (sc_done c)"
    and "int (nstriping c + nat (stripings_per_segment c)) = (vs_current (mi_segment (sc_memory c)) + 1) * stripings_per_segment c"
proof -
  let ?p = "stripings_per_segment c" and ?i = "vs_current (mi_segment (sc_memory c))" and ?m = "vs_max (mi_segment (sc_memory c))"
  have p: "0 < ?p" by (rule stripings_per_segment_pos [OF assms(1)])
  have cur: "vs_current (mi_striping (sc_memory c)) = ?i * ?p" and i: "0 \<le> ?i" and le: "?m * ?p \<le> 32768"
    using assms(1) by (simp_all add: limits_ok_def)
  have "(?i + 1) * ?p \<le> ?m * ?p" using assms(2) p by (intro mult_right_mono) simp_all
  moreover have "0 \<le> ?i * ?p" using i p by simp
  moreover show sum: "int (nstriping c + nat ?p) = (?i + 1) * ?p"
    using p \<open>0 \<le> ?i * ?p\<close> unfolding cur by (simp add: algebra_simps)
  ultimately show room: "int (nstriping c + nat ?p) \<le> ?m * ?p" by linarith
  then have "nstriping c + nat ?p \<le> nat (?m * ?p)" by linarith
  then show "nstriping c + nat ?p \<le> length (sc_allocators c)" "nstriping c + nat ?p < op_capacity (sc_doing c)"
    "nstriping c + nat ?p < op_capacity (sc_done c)"
    using assms(1) unfolding limits_ok_def by linarith+
  show "nstriping c + nat ?p \<le> 32768" using room le by linarith
qed

section \<open>Mapping\<close>

text \<open>The hypothesis on the platform: \<^verbatim>\<open>mmap\<close> does not fail.\<close>

definition maps_ok :: "env \<Rightarrow> bool" where
  "maps_ok e \<longleftrightarrow> (\<forall>h sz fd. mapped (fst (env_sys e h (Sys_mmap sz fd))))"

lemma shm_do_mmap_fd_env [simp]: "env_sys (snd (shm_do_mmap_fd fd sz trunc e)) = env_sys e"
  by (simp add: shm_do_mmap_fd_def case_prod_unfold Let_def)

lemma shm_do_mmap_env [simp]: "env_sys (snd (shm_do_mmap mp filename proj_id sz create e)) = env_sys e"
  by (simp add: shm_do_mmap_def case_prod_unfold Let_def)

lemma shm_do_shmmap_env [simp]: "env_sys (snd (shm_do_shmmap key sz create e)) = env_sys e"
  by (simp add: shm_do_shmmap_def case_prod_unfold Let_def)

lemma shm_get_key_env [simp]: "env_sys (snd (shm_get_key filename proj_id key e)) = env_sys e"
  by (simp add: shm_get_key_def split_beta Let_def if_distrib [of snd] if_distrib [of env_sys] if_distrib [of fst])

lemma shm_mmap_env [simp]: "env_sys (snd (shm_mmap mp type filename proj_id sz key create e)) = env_sys e"
  by (simp add: shm_mmap_def case_prod_unfold Let_def)

text \<open>A mapping that is not usable is reported with an errno and the null address.\<close>

definition map_result_ok :: "int \<Rightarrow> int \<Rightarrow> bool" where
  "map_result_ok base err \<longleftrightarrow> mapped base \<or> base = 0 \<and> err \<noteq> 0"

lemma shm_do_mmap_result:
  assumes "maps_ok e" and "shm_do_mmap mp filename proj_id sz create e = ((base, err), e')"
  shows "map_result_ok base err"
  using assms
  by (auto simp: shm_do_mmap_def shm_do_mmap_fd_def case_prod_unfold Let_def errno_or_nonzero maps_ok_def syscall_def
      map_result_ok_def split: if_splits)

lemma shm_do_shmmap_result:
  "shm_do_shmmap key sz create e = ((base, err), e') \<Longrightarrow> map_result_ok base err"
  by (auto simp: shm_do_shmmap_def case_prod_unfold Let_def errno_or_nonzero mapped_def map_result_ok_def split: if_splits)

lemma shm_mmap_result:
  assumes "maps_ok e" and "shm_mmap mp type filename proj_id sz key create e = ((base, key', err), e')"
  shows "map_result_ok base err"
proof -
  obtain r k e1 where k: "shm_get_key filename proj_id key e = ((r, k), e1)" by (metis surj_pair)
  have "maps_ok (snd (shm_get_key filename proj_id key e))" using assms by (simp add: maps_ok_def)
  then have ok: "maps_ok e1" using k by simp
  show ?thesis
    using assms(2) shm_do_mmap_result [OF ok] shm_do_shmmap_result k
    by (auto simp: shm_mmap_def map_result_ok_def split: if_splits prod.splits)
qed

lemma init_segment:
  assumes "maps_ok (sc_env c)"
  obtains result s h where "shmopt_init_segment c seg proj_id sz = ((result, s), c\<lparr>sc_env := (sc_env c)\<lparr>env_history := h\<rparr>\<rparr>)"
    "result = 0 \<Longrightarrow> mapped (seg_base s)"
proof -
  define r where "r = shm_mmap (fc_max_path_size (sc_fastcommon c)) (cfg_type (sc_config c))
    (cfg_filename (sc_config c)) proj_id sz (seg_key seg) (sc_create_segment c) (sc_env c)"
  obtain base key err e where r': "r = ((base, key, err), e)" by (metis surj_pair)
  have "env_sys (snd r) = env_sys (sc_env c)" by (simp add: r_def)
  then have "env_sys e = env_sys (sc_env c)" by (simp add: r')
  then have e: "e = (sc_env c)\<lparr>env_history := env_history e\<rparr>" by simp
  have m: "map_result_ok base err"
    using shm_mmap_result [OF assms] r' unfolding r_def by blast
  have init: "shmopt_init_segment c seg proj_id sz =
      ((if base = 0 then err else 0, (if base = 0 then seg\<lparr>seg_proj_id := proj_id, seg_base := base, seg_key := key\<rparr>
         else seg\<lparr>seg_proj_id := proj_id, seg_base := base, seg_key := key, seg_size := sz\<rparr>)), c\<lparr>sc_env := e\<rparr>)"
    using r' by (simp add: shmopt_init_segment_def r_def Let_def)
  show thesis
  proof (rule that)
    show "shmopt_init_segment c seg proj_id sz =
      ((if base = 0 then err else 0, (if base = 0 then seg\<lparr>seg_proj_id := proj_id, seg_base := base, seg_key := key\<rparr>
         else seg\<lparr>seg_proj_id := proj_id, seg_base := base, seg_key := key, seg_size := sz\<rparr>)),
       c\<lparr>sc_env := (sc_env c)\<lparr>env_history := env_history e\<rparr>\<rparr>)"
      using init e by simp
  qed (use m in \<open>auto simp: map_result_ok_def mapped_def split: if_splits\<close>)
qed

section \<open>Creating a segment\<close>

definition segment_failed :: "shmcache_context \<Rightarrow> shmcache_segment_info \<Rightarrow> sysreq list \<Rightarrow> shmcache_context" where
  "segment_failed c s h = c\<lparr>sc_values_items := (sc_values_items c)[nat (sc_values_count c) := s],
     sc_env := (sc_env c)\<lparr>env_history := h\<rparr>\<rparr>"

lemma create_value_segment_cases:
  assumes "limits_ok c" and "maps_ok (sc_env c)"
  obtains (failed) result s h where "shmopt_create_value_segment c = (result, segment_failed c s h)" "result \<noteq> 0"
  | (created) s h where "shmopt_create_value_segment c = (0, segment_added c s h)" "mapped (seg_base s)"
      "vs_current (mi_segment (sc_memory c)) < vs_max (mi_segment (sc_memory c))"
proof -
  let ?i = "vs_current (mi_segment (sc_memory c))" and ?sg = "mi_segment (sc_memory c)"
  have cnt: "sc_values_count c = ?i" and i: "0 \<le> ?i" using assms(1) by (simp_all add: limits_ok_def)
  show thesis
  proof (cases "vs_max ?sg \<le> ?i")
    case True
    then have "shmopt_create_value_segment c
      = (ENOSPC, segment_failed c (sc_values_items c ! nat (sc_values_count c)) (env_history (sc_env c)))"
      by (simp add: shmopt_create_value_segment_def segment_failed_def)
    then show thesis by (rule failed) simp
  next
    case False
    obtain result s h where r: "shmopt_init_segment c (sc_values_items c ! nat ?i) (?i + 2) (vs_size ?sg)
        = ((result, s), c\<lparr>sc_env := (sc_env c)\<lparr>env_history := h\<rparr>\<rparr>)" "result = 0 \<Longrightarrow> mapped (seg_base s)"
      using init_segment [OF assms(2)] by blast
    have c1: "shmopt_init_value_segment c ?i = (result, segment_failed c s h)"
      using r(1) cnt by (simp add: shmopt_init_value_segment_def segment_failed_def)
    show thesis
    proof (cases "result = 0")
      case ok: False
      then have "shmopt_create_value_segment c = (result, segment_failed c s h)"
        using False cnt c1 by (simp add: shmopt_create_value_segment_def Let_def)
      then show thesis using ok by (rule failed)
    next
      case True
      define c2 where "c2 = sc_memory_update (mi_segment_update (vs_current_update (\<lambda>k. k + 1))) (segment_failed c s h)"
      have fields: "nstriping c2 = nstriping c" "length (sc_allocators c2) = length (sc_allocators c)"
        "allocator_offset c2 = allocator_offset c" "new_striping c2 = new_striping c" "sc_allocators c2 = sc_allocators c"
        "sc_doing c2 = sc_doing c" "vs_current (mi_striping (sc_memory c2)) = vs_current (mi_striping (sc_memory c))"
        by (simp_all add: c2_def segment_failed_def fun_eq_iff allocator_offset_def new_striping_def)
      have pos: "0 \<le> vs_current (mi_striping (sc_memory c))"
        using assms(1) stripings_per_segment_pos [OF assms(1)] by (simp add: limits_ok_def)
      have room: "nstriping c + nat (stripings_per_segment c) \<le> length (sc_allocators c)"
        using limits_room(2) [OF assms(1)] False by simp
      note loop = create_striping_loop [of c2 "nat (stripings_per_segment c)" ?i 0, unfolded fields, OF pos room]
      have "shmopt_create_value_segment c = (0, sc_memory_update (mi_usage_update (mu_alloced_update (\<lambda>a. a + vs_size ?sg)))
          ((create_striping_loop (nat (stripings_per_segment c)) ?i 0 c2)\<lparr>sc_values_count := ?i + 1\<rparr>))"
        using False cnt c1 True by (simp add: shmopt_create_value_segment_def Let_def c2_def) (simp add: segment_failed_def)
      also have "\<dots> = (0, segment_added c s h)"
        unfolding loop using cnt by (simp add: segment_added_def Let_def c2_def segment_failed_def)
      finally show thesis using r(2) True False by (intro created) simp_all
    qed
  qed
qed

section \<open>The invariant after the creation\<close>

text \<open>A context that has the same entries and possibly more segments and stripings.\<close>

definition grown :: "shmcache_context \<Rightarrow> shmcache_context \<Rightarrow> bool" where
  "grown c c' \<longleftrightarrow> sc_entries c' = sc_entries c \<and> sc_config c' = sc_config c
     \<and> sc_list_head_offset c' = sc_list_head_offset c
     \<and> mi_head (sc_memory c') = mi_head (sc_memory c) \<and> mi_count (sc_memory c') = mi_count (sc_memory c)
     \<and> mi_buckets (sc_memory c') = mi_buckets (sc_memory c) \<and> mi_capacity (sc_memory c') = mi_capacity (sc_memory c)
     \<and> mu_key (mi_usage (sc_memory c')) = mu_key (mi_usage (sc_memory c))
     \<and> mu_value (mi_usage (sc_memory c')) = mu_value (mi_usage (sc_memory c))
     \<and> mu_entry (mi_usage (sc_memory c')) = mu_entry (mi_usage (sc_memory c))
     \<and> sc_values_count c \<le> sc_values_count c' \<and> nstriping c \<le> nstriping c'
     \<and> (\<forall>j < nstriping c. allocator c' j = allocator c j)"

lemma grown_blocks:
  assumes "grown c c'" and "allocs_ok c" and "blocks_ok c L"
    and "\<And>j. nstriping c \<le> j \<Longrightarrow> j < nstriping c' \<Longrightarrow> striping_wf (allocator c' j) []"
  shows "blocks_ok c' L"
proof -
  have en: "sc_entries c' = sc_entries c" and cnt: "sc_values_count c \<le> sc_values_count c'" "nstriping c \<le> nstriping c'"
    and al: "\<And>j. j < nstriping c \<Longrightarrow> allocator c' j = allocator c j"
    using assms(1) by (auto simp: grown_def)
  have bl: "block_ok c l" if "l \<in> set L" for l using assms(3) that by (simp add: blocks_ok_def list_all_iff)
  have ok: "block_ok c' l" if l: "l \<in> set L" for l
  proof -
    obtain j where j: "j < nstriping c" "he_index (entry c l) = sa_index (allocator c j)" "fst l = ssp_segment (sa_index (allocator c j))"
      and live: "loc_live c l" "he_offset (entry c l) = snd l"
      using bl [OF l] by (auto simp: block_ok_def)
    have "j < nstriping c'" using j(1) cnt(2) by simp
    moreover have "loc_live c' l" using live(1) cnt(1) by (simp add: loc_live_def en)
    ultimately show ?thesis using j live(2) al [OF j(1)] unfolding block_ok_def en by auto
  qed
  have none: "blocks_of c L j = []" if j: "nstriping c \<le> j" for j
  proof -
    have "ssp_striping (he_index (entry c l)) \<noteq> int j" if l: "l \<in> set L" for l
    proof -
      obtain i where "i < nstriping c" "ssp_striping (he_index (entry c l)) = int i"
        using block_ok_striping [OF assms(2) bl [OF l]] by blast
      then show ?thesis using j by simp
    qed
    then show ?thesis by (simp add: blocks_of_def filter_empty_conv)
  qed
  have wf: "striping_wf (allocator c' j) (blocks_of c L j)" if j: "j < nstriping c'" for j
  proof (cases "j < nstriping c")
    case True
    then show ?thesis using assms(3) by (simp add: al blocks_ok_def)
  next
    case False
    then show ?thesis using assms(4) [of j] j none [of j] by simp
  qed
  have "blocks_of c' L j = blocks_of c L j" for j by (simp add: blocks_of_def en)
  then show ?thesis using ok wf by (simp add: blocks_ok_def list_all_iff)
qed

lemma grown_inv:
  assumes "grown c c'" and "cache_inv c L" and "segments_open c'" and "allocs_ok c'" and "pools_ok c'"
    and "\<And>j. nstriping c \<le> j \<Longrightarrow> j < nstriping c' \<Longrightarrow> striping_wf (allocator c' j) []"
  shows "cache_inv c' L" and "entry_pairs c' L = entry_pairs c L"
proof -
  have core: "core_inv c L []" and ht: "ht_ok c L" using assms(2) by (simp_all add: cache_inv_def)
  note inv = core_invD [OF core]
  have eq: "sc_entries c' = sc_entries c" "sc_config c' = sc_config c" "sc_list_head_offset c' = sc_list_head_offset c"
    "mi_head (sc_memory c') = mi_head (sc_memory c)" "mi_count (sc_memory c') = mi_count (sc_memory c)"
    "mi_buckets (sc_memory c') = mi_buckets (sc_memory c)" "mi_capacity (sc_memory c') = mi_capacity (sc_memory c)"
    "mu_key (mi_usage (sc_memory c')) = mu_key (mi_usage (sc_memory c))"
    "mu_value (mi_usage (sc_memory c')) = mu_value (mi_usage (sc_memory c))"
    "mu_entry (mi_usage (sc_memory c')) = mu_entry (mi_usage (sc_memory c))"
    using assms(1) by (simp_all add: grown_def)
  have blocks: "blocks_ok c' (L @ [])" by (rule grown_blocks [OF assms(1) inv(3,5) assms(6)])
  have "dlist c' L"
  proof (rule dlist_cong [OF inv(7)])
    show "loc_live c' l" if "l \<in> set L" for l
      using blocks that by (simp add: blocks_ok_def block_ok_def list_all_iff)
  qed (simp_all add: node.simps eq)
  moreover have "ctx_ok c'" using inv(1) assms(3) by (simp add: ctx_ok_def eq)
  moreover have "count_ok c' L []" using inv(8) by (simp add: count_ok_def eq)
  ultimately have "core_inv c' L []"
    using blocks assms(4,5) inv(6,9) by (simp add: core_inv_def eq)
  then show "cache_inv c' L" using ht_ok_same [OF ht eq(1,2,6,7)] by (simp add: cache_inv_def)
  show "entry_pairs c' L = entry_pairs c L" by (rule entry_pairs_same [OF eq(1)])
qed

lemma segment_added_fields:
  "nstriping (segment_added c s h) = nstriping c + nat (stripings_per_segment c)"
  "vs_current (mi_segment (sc_memory (segment_added c s h))) = vs_current (mi_segment (sc_memory c)) + 1"
  "sc_values_count (segment_added c s h) = vs_current (mi_segment (sc_memory c)) + 1"
  "length (sc_allocators (segment_added c s h)) = length (sc_allocators c)"
  "sc_values_items (segment_added c s h) = (sc_values_items c)[nat (vs_current (mi_segment (sc_memory c))) := s]"
  "allocator_offset (segment_added c s h) = allocator_offset c"
  "j < nstriping c \<Longrightarrow> j < length (sc_allocators c) \<Longrightarrow> allocator (segment_added c s h) j = allocator c j"
  "nstriping c \<le> j \<Longrightarrow> j < nstriping c + nat (stripings_per_segment c) \<Longrightarrow> j < length (sc_allocators c) \<Longrightarrow>
   allocator (segment_added c s h) j = new_striping c (vs_current (mi_segment (sc_memory c))) 0 (nstriping c) j"
  by (simp_all add: segment_added_def Let_def fun_eq_iff allocator_offset_def nat_add_distrib)

lemma segment_added_segments_open:
  assumes "limits_ok c" and "segments_open c" and "mapped (seg_base s)"
    and "vs_current (mi_segment (sc_memory c)) < vs_max (mi_segment (sc_memory c))"
  shows "segments_open (segment_added c s h)"
proof -
  let ?i = "vs_current (mi_segment (sc_memory c))"
  have i: "0 \<le> ?i" "sc_values_count c = ?i" "nat ?i < length (sc_values_items c)"
    using assms(1,4) by (auto simp: limits_ok_def)
  have "nat (?i + 1) = Suc (nat ?i)" using i(1) by simp
  then have "take (nat (?i + 1)) ((sc_values_items c)[nat ?i := s]) = take (nat ?i) (sc_values_items c) @ [s]"
    using i(3) by (simp add: take_Suc_conv_app_nth)
  then show ?thesis
    using assms(2,3) i by (simp add: segments_open_def segment_added_fields)
qed

lemma new_striping_end:
  assumes "limits_ok c" and "nstriping c \<le> j" and "j < nstriping c + nat (stripings_per_segment c)"
  shows "sa_end (new_striping c i 0 (nstriping c) j) \<le> 2 ^ 47"
proof -
  let ?sz = "vs_size (mi_striping (sc_memory c))" and ?p = "stripings_per_segment c"
  have sz: "0 < ?sz" "?sz < 2 ^ 31" "vs_size (mi_segment (sc_memory c)) \<le> 2 ^ 47"
    using assms(1) by (simp_all add: limits_ok_def)
  have "int (j - nstriping c) + 1 \<le> ?p" using assms(2,3) by linarith
  then have "(int (j - nstriping c) + 1) * ?sz \<le> ?p * ?sz" using sz(1) by (intro mult_right_mono) simp_all
  also have "\<dots> \<le> vs_size (mi_segment (sc_memory c))"
    using sz(1) by (metis div_mult_mod_eq le_add_same_cancel1 pos_mod_sign)
  finally show ?thesis
    using sz by (simp add: new_striping_fields [OF sz(1,2)] algebra_simps)
qed

lemma segment_added_allocs_ok:
  assumes "limits_ok c" and "allocs_ok c"
    and "vs_current (mi_segment (sc_memory c)) < vs_max (mi_segment (sc_memory c))"
  shows "allocs_ok (segment_added c s h)"
proof -
  let ?c' = "segment_added c s h" and ?i = "vs_current (mi_segment (sc_memory c))" and ?k = "nstriping c"
    and ?n = "nat (stripings_per_segment c)" and ?sz = "vs_size (mi_striping (sc_memory c))"
  note room = limits_room [OF assms(1,3)]
  have lim: "0 \<le> ?i" "?i < 256" "sc_values_count c = ?i" "0 < ?sz" "?sz < 2 ^ 31"
    using assms(1,3) by (simp_all add: limits_ok_def)
  have old: "allocator ?c' j = allocator c j" if "j < ?k" for j using that room(2) by (simp add: segment_added_fields)
  have new: "allocator ?c' j = new_striping c ?i 0 ?k j" "sa_index (new_striping c ?i 0 ?k j) = \<lparr>ssp_segment = ?i, ssp_striping = int j\<rparr>"
    if "\<not> j < ?k" "j < ?k + ?n" for j
    using that room(2,3) lim by (simp_all add: segment_added_fields new_striping_index)
  have A: "ssp_striping (sa_index (allocator c j)) = int j" "0 \<le> ssp_segment (sa_index (allocator c j))"
    "ssp_segment (sa_index (allocator c j)) < ?i" "sa_end (allocator c j) \<le> 2 ^ 47"
    "sa_in_which_pool (allocator c j) \<in> {POOL_DOING, POOL_DONE}" if "j < ?k" for j
    using assms(2) that lim(3) by (auto simp: allocs_ok_def)
  have seg: "ssp_segment (sa_index (allocator ?c' j)) < ?i \<longleftrightarrow> j < ?k" if "j < ?k + ?n" for j
    using that A(3) [of j] old [of j] new [of j] by (cases "j < ?k") simp_all
  have fields: "ssp_striping (sa_index (allocator ?c' j)) = int j \<and> 0 \<le> ssp_segment (sa_index (allocator ?c' j))
      \<and> ssp_segment (sa_index (allocator ?c' j)) < 256 \<and> ssp_segment (sa_index (allocator ?c' j)) < sc_values_count ?c'
      \<and> sa_end (allocator ?c' j) \<le> 2 ^ 47 \<and> sa_in_which_pool (allocator ?c' j) \<in> {POOL_DOING, POOL_DONE}"
    if "j < ?k + ?n" for j
  proof (cases "j < ?k")
    case True
    then show ?thesis using A [OF True] lim(2) old [OF True] by (simp add: segment_added_fields(3))
  next
    case False
    then show ?thesis
      using new [OF False that] lim new_striping_fields(3) [OF lim(4,5)] new_striping_end [OF assms(1)] that
      by (simp add: segment_added_fields(3))
  qed
  have apart: "sa_end (allocator ?c' i) \<le> sa_base (allocator ?c' j) \<or> sa_end (allocator ?c' j) \<le> sa_base (allocator ?c' i)"
    if ij: "i < ?k + ?n" "j < ?k + ?n" "i \<noteq> j"
      "ssp_segment (sa_index (allocator ?c' i)) = ssp_segment (sa_index (allocator ?c' j))" for i j
  proof (cases "i < ?k")
    case True
    then have "j < ?k" using seg ij by metis
    then show ?thesis using True assms(2) ij(3,4) old unfolding allocs_ok_def by metis
  next
    case False
    then have j: "\<not> j < ?k" using seg ij by metis
    have base: "sa_base (allocator ?c' m) = int (m - ?k) * ?sz" "sa_end (allocator ?c' m) = (int (m - ?k) + 1) * ?sz"
      if "\<not> m < ?k" "m < ?k + ?n" for m
      using new(1) [OF that] new_striping_fields [OF lim(4,5)] by (simp_all add: algebra_simps)
    have "int (i - ?k) + 1 \<le> int (j - ?k) \<or> int (j - ?k) + 1 \<le> int (i - ?k)" using ij(3) False j by linarith
    then show ?thesis using lim(4) unfolding base [OF False ij(1)] base [OF j ij(2)] by (meson less_imp_le mult_right_mono)
  qed
  have "0 < sc_allocators_offset ?c'" using assms(2) by (simp add: allocs_ok_def segment_added_def Let_def)
  then show ?thesis
    unfolding allocs_ok_def segment_added_fields(1,4) using room(2) fields apart by blast
qed

lemma segment_added_pools_ok:
  assumes "limits_ok c" and "allocs_ok c" and "pools_ok c"
    and "vs_current (mi_segment (sc_memory c)) < vs_max (mi_segment (sc_memory c))"
  shows "pools_ok (segment_added c s h)"
    and "op_capacity (sc_doing (segment_added c s h)) = op_capacity (sc_doing c)"
proof -
  let ?c' = "segment_added c s h" and ?k = "nstriping c" and ?n = "nat (stripings_per_segment c)"
  let ?xs = "map (allocator_offset c) [?k..<?k + ?n]"
  note room = limits_room [OF assms(1,4)]
  have sz: "0 < vs_size (mi_striping (sc_memory c))" "vs_size (mi_striping (sc_memory c)) < 2 ^ 31"
    using assms(1) by (simp_all add: limits_ok_def)
  obtain D E where rep: "pools_rep c D E" using assms(3) by (auto simp: pools_ok_def)
  then have wf: "pool_wf (sc_doing c)" "pool_wf (sc_done c)" and pl: "pool_list (sc_doing c) = map (allocator_offset c) D"
    and D: "distinct D" "set D \<subseteq> {j. j < ?k \<and> sa_in_which_pool (allocator c j) = POOL_DOING}"
    and E: "set E = {j. j < ?k \<and> sa_in_which_pool (allocator c j) = POOL_DONE}" "distinct E"
      "pool_list (sc_done c) = map (allocator_offset c) E"
    by (simp_all add: pools_rep_def)
  have "length D \<le> ?k" using D by (rule distinct_less_length)
  then have "pool_wf (sc_doing ?c') \<and> op_capacity (sc_doing ?c') - 1 = op_capacity (sc_doing c) - 1
      \<and> pool_list (sc_doing ?c') = map (allocator_offset c) (D @ [?k..<?k + ?n])"
    using pool.push_all [OF wf(1), of ?xs] room(4) pl by (simp add: segment_added_def Let_def)
  then have d: "pool_wf (sc_doing ?c')" "op_capacity (sc_doing ?c') = op_capacity (sc_doing c)"
    "pool_list (sc_doing ?c') = map (allocator_offset c) (D @ [?k..<?k + ?n])"
    using wf(1) by (auto simp: pool_wf_def)
  show "op_capacity (sc_doing ?c') = op_capacity (sc_doing c)" by (rule d(2))
  have old: "allocator ?c' j = allocator c j" if "j < ?k" for j using that room(2) by (simp add: segment_added_fields)
  have new: "sa_in_which_pool (allocator ?c' j) = POOL_DOING" if "\<not> j < ?k" "j < ?k + ?n" for j
    using that room(2) by (simp add: segment_added_fields new_striping_fields(3) [OF sz])
  have "set (D @ [?k..<?k + ?n]) \<subseteq> {j. j < ?k + ?n \<and> sa_in_which_pool (allocator ?c' j) = POOL_DOING}"
    using D(2) old new by auto
  moreover have "set E = {j. j < ?k + ?n \<and> sa_in_which_pool (allocator ?c' j) = POOL_DONE}"
  proof -
    have "j < ?k \<and> sa_in_which_pool (allocator c j) = POOL_DONE
      \<longleftrightarrow> j < ?k + ?n \<and> sa_in_which_pool (allocator ?c' j) = POOL_DONE" for j
      using old [of j] new [of j] by (cases "j < ?k") auto
    then show ?thesis unfolding E(1) by blast
  qed
  moreover have "distinct (D @ [?k..<?k + ?n])" using D by auto
  moreover have "sc_done ?c' = sc_done c" by (simp add: segment_added_def Let_def)
  ultimately have "pools_rep ?c' (D @ [?k..<?k + ?n]) E"
    using d wf(2) E(2,3) room(4,5) unfolding pools_rep_def segment_added_fields(1,6) by simp
  then show "pools_ok ?c'" unfolding pools_ok_def by blast
qed

text \<open>The invariant of a cache that can grow.\<close>

definition full_inv :: "shmcache_context \<Rightarrow> entry_loc list \<Rightarrow> bool" where
  "full_inv c L \<longleftrightarrow> cache_inv c L \<and> limits_ok c \<and> maps_ok (sc_env c)"

text \<open>What no operation of the table changes.\<close>

definition fixed :: "shmcache_context \<Rightarrow> shmcache_context \<Rightarrow> bool" where
  "fixed c c' \<longleftrightarrow> sc_config c' = sc_config c \<and> sc_fastcommon c' = sc_fastcommon c
     \<and> env_sys (sc_env c') = env_sys (sc_env c)"

lemma fixed_refl [simp]: "fixed c c"
  by (simp add: fixed_def)

lemma fixed_trans: "fixed c c1 \<Longrightarrow> fixed c1 c2 \<Longrightarrow> fixed c c2"
  by (simp add: fixed_def)

lemma fixed_stable: "stable c c' \<Longrightarrow> fixed c c'"
  by (simp add: fixed_def stable_def)

lemma full_inv_stable: "full_inv c L \<Longrightarrow> stable c c' \<Longrightarrow> cache_inv c' L' \<Longrightarrow> full_inv c' L'"
  using limits_stable [of c c'] by (simp add: full_inv_def stable_def maps_ok_def)

lemma segment_added_inv:
  assumes "full_inv c L" and "mapped (seg_base s)"
    and "vs_current (mi_segment (sc_memory c)) < vs_max (mi_segment (sc_memory c))"
  shows "full_inv (segment_added c s h) L" and "entry_pairs (segment_added c s h) L = entry_pairs c L"
    and "fixed c (segment_added c s h)"
proof -
  let ?c' = "segment_added c s h"
  have inv: "cache_inv c L" and lim: "limits_ok c" and maps: "maps_ok (sc_env c)"
    using assms(1) by (simp_all add: full_inv_def)
  note core = core_invD [of c L "[]"]
  have core: "segments_open c" "allocs_ok c" "pools_ok c" using inv core unfolding cache_inv_def by blast+
  note room = limits_room [OF lim assms(3)]
  have sz: "0 < vs_size (mi_striping (sc_memory c))" "vs_size (mi_striping (sc_memory c)) < 2 ^ 31"
    using lim by (simp_all add: limits_ok_def)
  have cnt: "sc_values_count c \<le> sc_values_count ?c'" "nstriping c \<le> nstriping ?c'"
    using lim by (simp_all add: limits_ok_def segment_added_fields)
  have old: "allocator ?c' j = allocator c j" if "j < nstriping c" for j using that room(2) by (simp add: segment_added_fields)
  have "grown c ?c'"
    using cnt old unfolding grown_def by (simp add: segment_added_def Let_def)
  moreover have "striping_wf (allocator ?c' j) []" if "nstriping c \<le> j" "j < nstriping ?c'" for j
    using that room(2) new_striping_wf [OF sz] by (simp add: segment_added_fields)
  ultimately have g: "cache_inv ?c' L" "entry_pairs ?c' L = entry_pairs c L"
    using grown_inv [OF _ inv segment_added_segments_open [OF lim core(1) assms(2,3)]
        segment_added_allocs_ok [OF lim core(2) assms(3)] segment_added_pools_ok(1) [OF lim core(2,3) assms(3)]] by blast+
  show "entry_pairs ?c' L = entry_pairs c L" by (rule g(2))
  have f: "vs_max (mi_segment (sc_memory ?c')) = vs_max (mi_segment (sc_memory c))"
    "vs_size (mi_segment (sc_memory ?c')) = vs_size (mi_segment (sc_memory c))"
    "vs_size (mi_striping (sc_memory ?c')) = vs_size (mi_striping (sc_memory c))"
    "sc_done ?c' = sc_done c"
    "vs_current (mi_striping (sc_memory ?c')) = int (nstriping c + nat (stripings_per_segment c))"
    by (simp_all add: segment_added_def Let_def)
  have "limits_ok ?c'"
    using lim assms(3) unfolding limits_ok_def f segment_added_fields room(6) segment_added_pools_ok(2) [OF lim core(2,3) assms(3)]
    by simp
  then show "full_inv ?c' L" using g(1) maps by (simp add: full_inv_def maps_ok_def) (simp add: segment_added_def Let_def)
  show "fixed c ?c'" by (simp add: fixed_def segment_added_def Let_def)
qed

lemma segment_failed_inv:
  assumes "full_inv c L"
  shows "full_inv (segment_failed c s h) L" and "entry_pairs (segment_failed c s h) L = entry_pairs c L"
    and "fixed c (segment_failed c s h)"
proof -
  let ?c' = "segment_failed c s h"
  have inv: "cache_inv c L" and lim: "limits_ok c" and maps: "maps_ok (sc_env c)"
    using assms(1) by (simp_all add: full_inv_def)
  have core: "segments_open c" "allocs_ok c" "pools_ok c" using inv core_invD [of c L "[]"] unfolding cache_inv_def by blast+
  have "grown c ?c'" by (simp add: grown_def segment_failed_def)
  moreover have "segments_open ?c'" using core(1) by (simp add: segments_open_def segment_failed_def)
  moreover have "allocs_ok ?c'" by (rule allocs_ok_same [OF core(2)]) (simp_all add: segment_failed_def)
  moreover have "pools_ok ?c'" by (rule pools_ok_cong [OF core(3)]) (simp_all add: segment_failed_def)
  moreover have "nstriping ?c' = nstriping c" by (simp add: segment_failed_def)
  ultimately have g: "cache_inv ?c' L" "entry_pairs ?c' L = entry_pairs c L"
    using grown_inv [OF _ inv] by auto
  show "entry_pairs ?c' L = entry_pairs c L" by (rule g(2))
  show "full_inv ?c' L"
    using g(1) lim maps by (simp add: full_inv_def limits_ok_def maps_ok_def) (simp add: segment_failed_def)
  show "fixed c ?c'" by (simp add: fixed_def segment_failed_def)
qed

text \<open>Creating a segment keeps the invariant and the represented entries, whatever its result.\<close>

lemma create_value_segment_inv:
  assumes "full_inv c L" and "shmopt_create_value_segment c = (result, c')"
  shows "full_inv c' L" and "entry_pairs c' L = entry_pairs c L" and "fixed c c'"
proof -
  have "full_inv c' L \<and> entry_pairs c' L = entry_pairs c L \<and> fixed c c'"
  proof (rule create_value_segment_cases [of c])
    show "limits_ok c" "maps_ok (sc_env c)" using assms(1) by (simp_all add: full_inv_def)
  next
    fix r s h
    assume "shmopt_create_value_segment c = (r, segment_failed c s h)"
    then show ?thesis using segment_failed_inv [OF assms(1), of s h] assms(2) by simp
  next
    fix s h
    assume "shmopt_create_value_segment c = (0, segment_added c s h)" "mapped (seg_base s)"
      "vs_current (mi_segment (sc_memory c)) < vs_max (mi_segment (sc_memory c))"
    then show ?thesis using segment_added_inv [OF assms(1), of s h] assms(2) by simp
  qed
  then show "full_inv c' L" "entry_pairs c' L = entry_pairs c L" "fixed c c'" by blast+
qed

end
