(* ===== verification/StoreCorrect.thy ===== *)
theory StoreCorrect
  imports SegmentCorrect HashTableClear "HOL-Library.Sublist"
begin

text \<open>
  Setting a key, with everything it may cause: recycling, a new segment, or a rearrangement that
  clears the table and sets every entry again. The recursion through the rearrangement always ends:
  each nested set works on a table with fewer entries.
\<close>

section \<open>Losing entries\<close>

text \<open>
  What recycling and rearranging may do to the represented pairs: drop some of them, and no pair that
  never expires unless the configuration allows to recycle valid entries.
\<close>

abbreviation permanent :: "bytes \<times> shmcache_value_info \<Rightarrow> bool" where
  "permanent p \<equiv> vi_expires (snd p) = 0"

definition thinned :: "shmcache_config \<Rightarrow> (bytes \<times> shmcache_value_info) list \<Rightarrow> (bytes \<times> shmcache_value_info) list \<Rightarrow> bool" where
  "thinned cfg A B \<longleftrightarrow> subseq B A \<and> (\<not> cfg_recycle_valid_entries cfg \<longrightarrow> filter permanent B = filter permanent A)"

lemma thinned_refl [simp]: "thinned cfg A A"
  by (simp add: thinned_def)

lemma thinned_trans: "thinned cfg A B \<Longrightarrow> thinned cfg B C \<Longrightarrow> thinned cfg A C"
  using subseq_order.trans [of C B A] by (auto simp: thinned_def)

lemma thinned_filter: "thinned cfg A B \<Longrightarrow> thinned cfg (filter P A) (filter P B)"
proof -
  assume "thinned cfg A B"
  then have "subseq B A" and eq: "\<not> cfg_recycle_valid_entries cfg \<Longrightarrow> filter permanent B = filter permanent A"
    by (simp_all add: thinned_def)
  have swap: "filter permanent (filter P xs) = filter P (filter permanent xs)" for xs :: "(bytes \<times> shmcache_value_info) list"
    by (simp add: conj_commute)
  show "thinned cfg (filter P A) (filter P B)"
    unfolding thinned_def swap using eq subseq_filter [OF \<open>subseq B A\<close>, of P] by simp
qed

lemma thinned_append: "thinned cfg A B \<Longrightarrow> thinned cfg C D \<Longrightarrow> thinned cfg (A @ C) (B @ D)"
  using list_emb_append_mono [of "(=)" B A D C] by (auto simp: thinned_def)

lemma thinned_filter_self: "(\<And>p. p \<in> set A \<Longrightarrow> permanent p \<Longrightarrow> P p) \<Longrightarrow> thinned cfg A (filter P A)"
  by (auto simp: thinned_def intro!: filter_cong)

lemma thinned_length: "thinned cfg A B \<Longrightarrow> length B \<le> length A"
  by (auto simp: thinned_def dest: list_emb_length)

lemma thinned_set: "thinned cfg A B \<Longrightarrow> set B \<subseteq> set A"
  using list_emb_set [of "(=)" B A] by (auto simp: thinned_def)

lemma length_entry_pairs [simp]: "length (entry_pairs c L) = length L"
  by (simp add: entry_pairs_def)

section \<open>Allocating a block\<close>

lemma ht_ok_entries:
  assumes "ht_ok c L" and "\<And>m. m \<in> set L \<Longrightarrow> entry c' m = entry c m" and "sc_config c' = sc_config c"
    and "mi_buckets (sc_memory c') = mi_buckets (sc_memory c)" and "mi_capacity (sc_memory c') = mi_capacity (sc_memory c)"
  shows "ht_ok c' L"
proof -
  have idx: "HT_GET_BUCKET_INDEX c' = HT_GET_BUCKET_INDEX c"
    by (simp add: fun_eq_iff HT_GET_BUCKET_INDEX_def assms(3,5))
  have "bucket_ok c' L i ls" if b: "bucket_ok c L i ls" for i ls
  proof -
    have ls: "m \<in> set L" if "m \<in> set ls" for m using b that by (auto simp: bucket_ok_def)
    have "chain (\<lambda>l. he_ht_next (entry c' l)) (mi_buckets (sc_memory c) ! i) ls"
    proof (rule chain_cong)
      show "chain (\<lambda>l. he_ht_next (entry c l)) (mi_buckets (sc_memory c) ! i) ls" using b by (simp only: bucket_ok_def)
      show "he_ht_next (entry c' l) = he_ht_next (entry c l)" if "l \<in> set ls" for l
        using assms(2) [OF ls [OF that]] by simp
    qed
    moreover have "{l \<in> set L. bucket_of c' l = i} = {l \<in> set L. bucket_of c l = i}"
    proof (rule Collect_cong)
      show "(l \<in> set L \<and> bucket_of c' l = i) = (l \<in> set L \<and> bucket_of c l = i)" for l
        using assms(2) [of l] unfolding idx by auto
    qed
    ultimately show ?thesis using b unfolding bucket_ok_def assms(4) by blast
  qed
  then have buckets: "\<exists>ls. bucket_ok c' L i ls" if "\<exists>ls. bucket_ok c L i ls" for i using that by blast
  have "inj_on (\<lambda>l. he_key (entry c' l)) (set L) = inj_on (\<lambda>l. he_key (entry c l)) (set L)"
    by (rule inj_on_cong) (simp add: assms(2))
  then show ?thesis using assms(1) buckets unfolding ht_ok_def assms(4,5) by simp
qed

lemma alloc_post_frame:
  assumes "alloc_post c L sz p c'"
  shows "stable c c'" and "sc_config c' = sc_config c" and "sc_list_head_offset c' = sc_list_head_offset c"
    and "mi_head (sc_memory c') = mi_head (sc_memory c)" and "mi_count (sc_memory c') = mi_count (sc_memory c)"
    and "mi_buckets (sc_memory c') = mi_buckets (sc_memory c)" and "mi_capacity (sc_memory c') = mi_capacity (sc_memory c)"
    and "mu_key (mi_usage (sc_memory c')) = mu_key (mi_usage (sc_memory c))"
    and "mu_value (mi_usage (sc_memory c')) = mu_value (mi_usage (sc_memory c))"
    and "sc_values_count c' = sc_values_count c" and "sc_values_items c' = sc_values_items c"
proof -
  have "alloc_frame c (c'\<lparr>sc_entries := sc_entries c\<rparr>)" using assms by (simp add: alloc_post_def)
  then obtain A d e u where "c'\<lparr>sc_entries := sc_entries c\<rparr> = c\<lparr>sc_memory := (sc_memory c)
        \<lparr>mi_usage := (mi_usage (sc_memory c))\<lparr>mu_entry := u\<rparr>\<rparr>, sc_doing := d, sc_done := e, sc_allocators := A\<rparr>"
    and len: "length A = length (sc_allocators c)"
      "op_capacity d = op_capacity (sc_doing c)" "op_capacity e = op_capacity (sc_done c)"
    by (rule alloc_frameE)
  then have c': "c' = c\<lparr>sc_memory := (sc_memory c)\<lparr>mi_usage := (mi_usage (sc_memory c))\<lparr>mu_entry := u\<rparr>\<rparr>,
      sc_doing := d, sc_done := e, sc_allocators := A, sc_entries := sc_entries c'\<rparr>"
    by (cases c', cases c) simp
  show "stable c c'" by (subst c') (simp add: stable_def len)
  show "sc_config c' = sc_config c" "sc_list_head_offset c' = sc_list_head_offset c"
    "mi_head (sc_memory c') = mi_head (sc_memory c)" "mi_count (sc_memory c') = mi_count (sc_memory c)"
    "mi_buckets (sc_memory c') = mi_buckets (sc_memory c)" "mi_capacity (sc_memory c') = mi_capacity (sc_memory c)"
    "mu_key (mi_usage (sc_memory c')) = mu_key (mi_usage (sc_memory c))"
    "mu_value (mi_usage (sc_memory c')) = mu_value (mi_usage (sc_memory c))"
    "sc_values_count c' = sc_values_count c" "sc_values_items c' = sc_values_items c"
    by (subst c', simp)+
qed

lemma alloc_post_core:
  assumes "cache_inv c L" and "alloc_post c L sz p c'"
  shows "p = None \<Longrightarrow> cache_inv c' L" and "p = Some n \<Longrightarrow> core_inv c' L [n] \<and> ht_ok c' L \<and> he_size (entry c' n) = sz"
    and "entry_pairs c' L = entry_pairs c L"
proof -
  have core: "core_inv c L []" and ht: "ht_ok c L" using assms(1) by (simp_all add: cache_inv_def)
  note inv = core_invD [OF core] and fr = alloc_post_frame [OF assms(2)]
  define M where "M = (case p of None \<Rightarrow> [] | Some n \<Rightarrow> [n])"
  have en: "entry c' m = entry c m" if "m \<in> set L" for m
    using assms(2) that unfolding alloc_post_def by (cases p) auto
  have al: "alloc_inv c' (L @ M)" and dist: "distinct (L @ M)"
    and mu: "mu_entry (mi_usage (sc_memory c')) = mu_entry (mi_usage (sc_memory c)) + (\<Sum>l\<leftarrow>M. he_size (entry c' l))"
    using assms(2) inv(6) unfolding alloc_post_def M_def by (cases p; auto)+
  have "dlist c' L"
  proof (rule dlist_cong [OF inv(7)])
    show "loc_live c' l" if "l \<in> set L" for l
      using al that by (simp add: alloc_inv_def blocks_ok_def block_ok_def list_all_iff)
  qed (simp_all add: node.simps fr(4) en)
  moreover have "count_ok c' L M"
  proof -
    have "(\<Sum>l\<leftarrow>L. he_key_len (entry c' l)) = (\<Sum>l\<leftarrow>L. he_key_len (entry c l))"
      "(\<Sum>l\<leftarrow>L. he_value_length (entry c' l)) = (\<Sum>l\<leftarrow>L. he_value_length (entry c l))"
      "(\<Sum>l\<leftarrow>L. he_size (entry c' l)) = (\<Sum>l\<leftarrow>L. he_size (entry c l))"
      by (rule sum_list_map_cong; simp add: en)+
    then show ?thesis using inv(8) mu by (simp add: count_ok_def fr(5,8,9))
  qed
  moreover have "list_all (\<lambda>l. payload_ok (entry c' l)) L" using inv(9) en by (simp add: list_all_iff)
  moreover have "ctx_ok c'" using inv(1) by (simp add: ctx_ok_def segments_open_def fr(3,10,11))
  ultimately have core': "core_inv c' L M" using al dist by (simp add: core_inv_def alloc_inv_def)
  have ht': "ht_ok c' L" by (rule ht_ok_entries [OF ht en fr(2,6,7)])
  show "cache_inv c' L" if "p = None" using core' ht' that by (simp add: cache_inv_def M_def)
  show "core_inv c' L [n] \<and> ht_ok c' L \<and> he_size (entry c' n) = sz" if p: "p = Some n"
    using core' ht' assms(2) unfolding alloc_post_def p M_def by auto
  show "entry_pairs c' L = entry_pairs c L" unfolding entry_pairs_def by (rule map_cong) (simp_all add: en)
qed

lemma do_alloc_inv:
  assumes "full_inv c L" and "0 < sz"
  obtains (none) c' where "shm_value_allocator_do_alloc c sz = Some (None, c')" "full_inv c' L" "stable c c'"
      "entry_pairs c' L = entry_pairs c L"
  | (some) n c' where "shm_value_allocator_do_alloc c sz = Some (Some n, c')" "core_inv c' L [n]" "ht_ok c' L"
      "he_size (entry c' n) = sz" "stable c c'" "entry_pairs c' L = entry_pairs c L"
proof -
  have inv: "cache_inv c L" using assms(1) by (simp add: full_inv_def)
  then have core: "core_inv c L []" by (simp add: cache_inv_def)
  have "alloc_inv c L" "segments_open c" using core_invD [OF core] by (simp_all add: alloc_inv_def)
  then obtain p c' where p: "shm_value_allocator_do_alloc c sz = Some (p, c')" "alloc_post c L sz p c'"
    using value_allocator_do_alloc assms(2) by blast
  note post = alloc_post_core [OF inv p(2)] and fr = alloc_post_frame(1) [OF p(2)]
  show thesis
  proof (cases p)
    case None
    then show thesis using none [of c'] p(1) post(1,3) full_inv_stable [OF assms(1) fr] fr by simp
  next
    case (Some n)
    then show thesis using some [of n c'] p(1) post(2) [OF Some] post(3) fr by simp
  qed
qed

lemma full_inv_done_cursor:
  assumes "full_inv c L"
  shows "full_inv (c\<lparr>sc_done := snd (shm_object_pool_first (sc_done c))\<rparr>) L"
    and "stable c (c\<lparr>sc_done := snd (shm_object_pool_first (sc_done c))\<rparr>)"
proof -
  let ?d = "snd (shm_object_pool_first (sc_done c))" let ?c' = "c\<lparr>sc_done := ?d\<rparr>"
  have inv: "cache_inv c L" using assms by (simp add: full_inv_def)
  have core: "core_inv c L []" and ht: "ht_ok c L" using inv by (simp_all add: cache_inv_def)
  note cinv = core_invD [OF core]
  have cap: "op_capacity ?d = op_capacity (sc_done c)" by (simp add: shm_object_pool_first_def)
  show st: "stable c ?c'" by (simp add: stable_def cap)
  obtain D E where rep: "pools_rep c D E" using cinv(4) by (auto simp: pools_ok_def)
  then have "pools_rep ?c' D E"
    using pool_first [of "sc_done c"] cap by (simp add: pools_rep_def allocator_offset_def [abs_def])
  then have "pools_ok ?c'" by (auto simp: pools_ok_def)
  moreover have "allocs_ok ?c'" by (rule allocs_ok_same [OF cinv(3)]) simp_all
  moreover have "grown c ?c'" by (simp add: grown_def)
  moreover have "segments_open ?c'" using cinv(2) by (simp add: segments_open_def)
  ultimately have "cache_inv ?c' L" by (intro grown_inv(1) [OF _ inv]) simp_all
  then show "full_inv ?c' L" by (rule full_inv_stable [OF assms st])
qed

lemma alloc_should_recycle_inv:
  assumes "full_inv c L" and "alloc_should_recycle c = (b, c')"
  shows "full_inv c' L" and "stable c c'" and "sc_entries c' = sc_entries c"
  using assms full_inv_done_cursor [OF assms(1)]
  by (auto simp: alloc_should_recycle_def case_prod_unfold Let_def split: if_splits)

section \<open>Recycling drops entries only\<close>

lemma spared_thinned:
  "thinned (sc_config c) (entry_pairs c (X @ Y)) (entry_pairs c (spared (c\<lparr>sc_g_current_time := t\<rparr>) X @ Y))"
proof -
  let ?P = "\<lambda>l. \<not> recyclable (c\<lparr>sc_g_current_time := t\<rparr>) (entry c l)"
  let ?f = "\<lambda>l. (he_key (entry c l), entry_value (entry c l))"
  have "?P l" if "\<not> cfg_recycle_valid_entries (sc_config c)" "permanent (?f l)" for l
    using that by (simp add: recyclable_def HT_ENTRY_IS_VALID_def entry_value_def)
  then have "filter permanent (map ?f (filter ?P X)) = filter permanent (map ?f X)"
    if "\<not> cfg_recycle_valid_entries (sc_config c)"
    using that by (auto simp: filter_map intro!: arg_cong [where f = "map _"] filter_cong)
  moreover have "subseq (map ?f (filter ?P X)) (map ?f X)" by (intro subseq_map subseq_filter_left)
  ultimately have "thinned (sc_config c) (map ?f X) (map ?f (filter ?P X))" by (auto simp: thinned_def)
  then show ?thesis using thinned_append [OF _ thinned_refl] by (simp add: entry_pairs_def)
qed

lemma recycle_thinned:
  assumes "full_inv c L"
  obtains result c' L' where "shm_value_allocator_recycle c kind k = Some (result, c')" "full_inv c' L'" "stable c c'"
    "thinned (sc_config c) (entry_pairs c L) (entry_pairs c' L')" "result \<in> {0, ENOMEM}"
proof -
  have "cache_inv c L" using assms by (simp add: full_inv_def)
  then obtain result c' X Y t where r: "shm_value_allocator_recycle c kind k = Some (result, c')" "L = X @ Y"
    "cache_inv c' (spared (c\<lparr>sc_g_current_time := t\<rparr>) X @ Y)"
    "entry_pairs c' (spared (c\<lparr>sc_g_current_time := t\<rparr>) X @ Y)
       = entry_pairs c (spared (c\<lparr>sc_g_current_time := t\<rparr>) X @ Y)" "stable c c'" "result \<in> {0, ENOMEM}"
    by (rule value_allocator_recycle [where kind = kind and k = k])
  show thesis
    using that [OF r(1) full_inv_stable [OF assms r(5,3)] r(5) _ r(6)] r(2,4) spared_thinned [of c X Y t] by simp
qed

section \<open>Listing\<close>

text \<open>The rows that a listing selects from a part of the entry list.\<close>

definition matching ::
  "shmcache_context \<Rightarrow> shmcache_match_key_info option \<Rightarrow> int \<Rightarrow> entry_loc list \<Rightarrow> (bytes \<times> shmcache_value_info) list" where
  "matching c key_info t R = entry_pairs c
     (filter (\<lambda>l. HT_ENTRY_IS_VALID (entry c l) t \<and> HT_KEY_MATCHED key_info (entry c l)) R)"

lemma matching_Cons:
  "matching c key_info t (l # R) =
     (if HT_ENTRY_IS_VALID (entry c l) t \<and> HT_KEY_MATCHED key_info (entry c l)
      then [(he_key (entry c l), entry_value (entry c l))] else []) @ matching c key_info t R"
  by (simp add: matching_def entry_pairs_def)

lemma matching_bookkeeping: "bookkeeping c c' \<Longrightarrow> matching c' key_info t R = matching c key_info t R"
  using bookkeeping_kept(4) [of c c'] by (simp add: matching_def entry_pairs_def)

lemma to_array_skip:
  assumes "cache_inv c (A @ R)" and "0 \<le> off"
  obtains X R' where "to_array_skip c key_info t off i (list_offset R) = Some (list_offset R', c)" "R = X @ R'"
    "matching c key_info t R' = drop (nat (off - i)) (matching c key_info t R)"
proof -
  have "\<exists>X R'. to_array_skip c key_info t off i (list_offset R) = Some (list_offset R', c) \<and> R = X @ R'
    \<and> matching c key_info t R' = drop (nat (off - i)) (matching c key_info t R)"
    using assms(1)
  proof (induction R arbitrary: A i)
    case Nil
    then show ?case by (subst to_array_skip.simps) (simp add: list_offset_def matching_def entry_pairs_def)
  next
    case (Cons l R)
    note inv = Cons.prems
    have live: "loc_live c l" using cache_inv_live [OF inv] by simp
    have ctx: "ctx_ok c" using inv core_invD(1) [of c "A @ l # R" "[]"] by (simp add: cache_inv_def)
    have pos: "0 < loc_offset l" using live loc_offset_pos by (simp add: loc_live_def)
    let ?m = "HT_ENTRY_IS_VALID (entry c l) t \<and> HT_KEY_MATCHED key_info (entry c l)"
    show ?case
    proof (cases "i < off")
      case False
      then have "to_array_skip c key_info t off i (list_offset (l # R)) = Some (list_offset (l # R), c)"
        by (subst to_array_skip.simps) simp
      then show ?thesis using False by auto
    next
      case True
      have run: "to_array_skip c key_info t off i (list_offset (l # R))
          = to_array_skip c key_info t off (if ?m then i + 1 else i) (list_offset R)"
        using True get_hentry_ptr_live [OF ctx live] hentry_read_live [OF live] pos list_offset_next [OF inv]
        by (subst to_array_skip.simps) (simp add: list_offset_def [of "l # R"] Let_def)
      obtain X R' where IH: "to_array_skip c key_info t off (if ?m then i + 1 else i) (list_offset R) = Some (list_offset R', c)"
        "R = X @ R'" "matching c key_info t R' = drop (nat (off - (if ?m then i + 1 else i))) (matching c key_info t R)"
        using Cons.IH [of "A @ [l]"] inv by (metis append.assoc append_Cons append_Nil)
      have "nat (off - i) = Suc (nat (off - (i + 1)))" using True by simp
      then have "drop (nat (off - (if ?m then i + 1 else i))) (matching c key_info t R) = drop (nat (off - i)) (matching c key_info t (l # R))"
        by (simp add: matching_Cons)
      then show ?thesis using run IH by (metis append_Cons)
    qed
  qed
  then show thesis using that by blast
qed

lemma row_parts:
  assumes "cache_inv c L" and "l \<in> set L"
  shows "take (nat (he_key_len (entry c l))) (he_key (entry c l)) = he_key (entry c l)"
    and "take (nat (he_value_length (entry c l))) (he_data (entry c l)) = he_data (entry c l)"
proof -
  have "payload_ok (entry c l)" using assms core_invD(9) [of c L "[]"] by (simp add: cache_inv_def list_all_iff)
  then show "take (nat (he_key_len (entry c l))) (he_key (entry c l)) = he_key (entry c l)"
    "take (nat (he_value_length (entry c l))) (he_data (entry c l)) = he_data (entry c l)"
    by (simp_all add: payload_ok_def)
qed

text \<open>The copying loop returns the selected rows, at most as many as asked for, or no row when an
  allocation fails.\<close>

definition collect_post ::
  "shmcache_context \<Rightarrow> (bytes \<times> shmcache_value_info) list \<Rightarrow> int \<times> (bytes \<times> shmcache_value_info) list \<times> shmcache_context \<Rightarrow> bool" where
  "collect_post c expected r \<longleftrightarrow> (case r of (result, rows, c') \<Rightarrow>
     bookkeeping c c' \<and> (result = 0 \<and> rows = expected \<or> result = ENOMEM \<and> rows = []))"

lemma collect_post_trans: "bookkeeping c c1 \<Longrightarrow> collect_post c1 expected r \<Longrightarrow> collect_post c expected r"
  unfolding collect_post_def using bookkeeping_trans by (fastforce split: prod.splits)

lemma to_array_collect:
  assumes "cache_inv c (A @ R)" and "int (length rows) < rc"
  shows "\<exists>r. to_array_collect c key_info t rc (list_offset R) rows = Some r
    \<and> collect_post c (rows @ take (nat rc - length rows) (matching c key_info t R)) r"
  using assms
proof (induction R arbitrary: A c rows)
  case Nil
  then show ?case
    by (subst to_array_collect.simps) (simp add: list_offset_def matching_def entry_pairs_def collect_post_def)
next
  case (Cons l R)
  note inv = Cons.prems(1)
  have live: "loc_live c l" using cache_inv_live [OF inv] by simp
  have ctx: "ctx_ok c" using inv core_invD(1) [of c "A @ l # R" "[]"] by (simp add: cache_inv_def)
  have pos: "0 < loc_offset l" using live loc_offset_pos by (simp add: loc_live_def)
  note rd = get_hentry_ptr_live [OF ctx live] hentry_read_live [OF live] pos list_offset_next [OF inv]
  have inv': "cache_inv c ((A @ [l]) @ R)" using inv by simp
  show ?case
  proof (cases "HT_ENTRY_IS_VALID (entry c l) t \<and> HT_KEY_MATCHED key_info (entry c l)")
    case False
    then have "to_array_collect c key_info t rc (list_offset (l # R)) rows = to_array_collect c key_info t rc (list_offset R) rows"
      using rd by (subst to_array_collect.simps) (auto simp: list_offset_def [of "l # R"])
    then show ?thesis using Cons.IH [OF inv' Cons.prems(2)] False by (auto simp: matching_Cons)
  next
    case True
    define q where "q = Sys_malloc (he_key_len (entry c l) + he_value_length (entry c l))"
    obtain d c1 where q: "sys q c = (d, c1)" by (metis surj_pair)
    have b: "bookkeeping c c1" using bookkeeping_sys [of c q] q by simp
    note k = bookkeeping_kept [OF b]
    have inv1: "cache_inv c1 (A @ l # R)" by (rule k(1) [OF inv])
    have core1: "core_inv c1 (A @ l # R) []" using inv1 by (simp add: cache_inv_def)
    have en: "entry c1 l = entry c l" by (simp add: k(4))
    have vp: "shm_get_value_ptr c1 (entry c l) = (Some l, c1)"
      using get_value_ptr_live [OF core1, of l] by (simp add: en)
    let ?row = "(he_key (entry c l), entry_value (entry c l))"
    have "l \<in> set (A @ l # R)" by simp
    note parts = row_parts [OF inv this]
    have run: "to_array_collect c key_info t rc (list_offset (l # R)) rows =
       (if d = 0 then Some (ENOMEM, [], c1)
        else if int (length (rows @ [?row])) = rc then Some (0, rows @ [?row], c1)
        else to_array_collect c1 key_info t rc (list_offset R) (rows @ [?row]))"
      using True
      by (subst to_array_collect.simps)
        (simp only: list_offset_def [of "l # R"] list.case rd q [unfolded q_def] prod.case Let_def bind.bind_lunit if_True vp
          parts list_offset_next [OF inv1] option.distinct simp_thms if_False entry_value_def True)
    have exp: "rows @ take (nat rc - length rows) (matching c key_info t (l # R))
      = (rows @ [?row]) @ take (nat rc - length (rows @ [?row])) (matching c key_info t R)"
      using True Cons.prems(2) by (simp add: matching_Cons take_Cons' Suc_diff_Suc)
    consider "d = 0" | "d \<noteq> 0" "int (length (rows @ [?row])) = rc"
      | "d \<noteq> 0" "int (length (rows @ [?row])) < rc" using Cons.prems(2) by fastforce
    then show ?thesis
    proof cases
      case 1
      then show ?thesis using run b by (simp add: collect_post_def)
    next
      case 2
      then show ?thesis unfolding run exp using b by (simp add: collect_post_def)
    next
      case 3
      have "cache_inv c1 ((A @ [l]) @ R)" using inv1 by simp
      then obtain r where r: "to_array_collect c1 key_info t rc (list_offset R) (rows @ [?row]) = Some r"
        "collect_post c1 ((rows @ [?row]) @ take (nat rc - length (rows @ [?row])) (matching c1 key_info t R)) r"
        using Cons.IH [OF _ 3(2)] by blast
      have "collect_post c ((rows @ [?row]) @ take (nat rc - length (rows @ [?row])) (matching c key_info t R)) r"
        using collect_post_trans [OF b] r(2) unfolding matching_bookkeeping [OF b] by blast
      then show ?thesis unfolding exp using run r(1) 3 by auto
    qed
  qed
qed

lemma shm_list_first_offset: "cache_inv c L \<Longrightarrow> shm_list_first c = list_offset L"
  using dlist_first [of c L] core_invD(1,7) [of c L "[]"] by (simp add: cache_inv_def list_offset_def)

lemma ht_to_array_ex:
  assumes "cache_inv c L" and "0 \<le> off"
  shows "\<exists>result rows c' t. shm_ht_to_array_ex c key_info off cnt = Some (result, rows, c') \<and> bookkeeping c c'
     \<and> (\<exists>n. t = int32 (fst (sys Sys_time (snd (sys (Sys_malloc n) c)))))
     \<and> (result = 0 \<and> rows = take (if 0 < cnt \<and> cnt < int (length L) - off then nat cnt else length L)
          (drop (nat off) (matching c key_info t L)) \<or> result = ENOMEM \<and> rows = [])"
proof -
  define rc where "rc = (if 0 < cnt \<and> cnt < int (length L) - off then cnt else int (length L) - off)"
  let ?q = "Sys_malloc (sizeof_shmcache_hash_entry * rc)"
  have n: "mi_count (sc_memory c) = int (length L)"
    using assms(1) core_invD(8) [of c L "[]"] by (simp add: cache_inv_def count_ok_def)
  have unf: "shm_ht_to_array_ex c key_info off cnt =
     (if rc \<le> 0 then Some (0, [], c)
      else (let (entries, c) = sys ?q c in
        if entries = 0 then Some (ENOMEM, [], c)
        else (let (t, c) = sys Sys_time c; current_time = int32 t in do {
           (entry_offset, c) \<leftarrow> to_array_skip c key_info current_time off 0 (shm_list_first c);
           to_array_collect c key_info current_time rc entry_offset [] })))"
    using assms(2) by (simp only: shm_ht_to_array_ex_def n Let_def rc_def not_less [symmetric] if_False simp_thms)
  obtain d c1 where q: "sys ?q c = (d, c1)" by (metis surj_pair)
  obtain t0 c2 where q2: "sys Sys_time c1 = (t0, c2)" by (metis surj_pair)
  define t where "t = int32 t0"
  have clock: "\<exists>n. t = int32 (fst (sys Sys_time (snd (sys (Sys_malloc n) c))))"
    using q q2 unfolding t_def by (metis fst_conv snd_conv)
  have b: "bookkeeping c c1" "bookkeeping c c2"
    using bookkeeping_sys [of c ?q] bookkeeping_sys [of c1 Sys_time] q q2 bookkeeping_trans by auto
  have inv2: "cache_inv c2 ([] @ L)" using bookkeeping_kept(1) [OF b(2) assms(1)] by simp
  have len: "length (matching c key_info t L) \<le> length L" by (simp add: matching_def)
  have take: "take (nat rc) (drop (nat off) (matching c key_info t L))
     = take (if 0 < cnt \<and> cnt < int (length L) - off then nat cnt else length L) (drop (nat off) (matching c key_info t L))"
  proof (cases "0 < cnt \<and> cnt < int (length L) - off")
    case False
    have "length (drop (nat off) (matching c key_info t L)) \<le> nat (int (length L) - off)"
      using len assms(2) by (simp; linarith)
    then show ?thesis using False len unfolding rc_def by auto
  qed (simp add: rc_def)
  show ?thesis
  proof (cases "rc \<le> 0")
    case True
    then have "int (length L) - off \<le> 0" unfolding rc_def by (auto split: if_splits)
    then have "drop (nat off) (matching c key_info t L) = []" using len by simp
    then show ?thesis unfolding unf using True clock by (intro exI [of _ 0] exI [of _ "[]"] exI [of _ c] exI [of _ t]) simp
  next
    case False
    obtain X R' where sk: "to_array_skip c2 key_info t off 0 (list_offset L) = Some (list_offset R', c2)" "L = X @ R'"
      "matching c2 key_info t R' = drop (nat (off - 0)) (matching c2 key_info t L)"
      using to_array_skip [OF inv2 assms(2)] by blast
    have inv3: "cache_inv c2 (X @ R')" and lt: "int (length ([] :: (bytes \<times> shmcache_value_info) list)) < rc"
      using inv2 sk(2) False by simp_all
    obtain r where r: "to_array_collect c2 key_info t rc (list_offset R') [] = Some r"
      "collect_post c2 (take (nat rc) (matching c2 key_info t R')) r"
      using to_array_collect [OF inv3 lt, of key_info t] by auto
    obtain result rows c' where r': "r = (result, rows, c')" by (metis surj_pair)
    have post: "bookkeeping c c'"
      "result = 0 \<and> rows = take (nat rc) (drop (nat off) (matching c key_info t L)) \<or> result = ENOMEM \<and> rows = []"
      using r(2) b(2) bookkeeping_trans sk(3) unfolding r' collect_post_def matching_bookkeeping [OF b(2)] by auto
    have run: "shm_ht_to_array_ex c key_info off cnt = (if d = 0 then Some (ENOMEM, [], c1) else Some r)"
      unfolding unf using False shm_list_first_offset [of c2 L] inv2 sk(1) r(1) q q2
      by (simp add: Let_def flip: t_def)
    show ?thesis
    proof (cases "d = 0")
      case True
      then show ?thesis using run b(1) clock by (intro exI [of _ ENOMEM] exI [of _ "[]"] exI [of _ c1] exI [of _ t]) simp
    next
      case False
      then have "shm_ht_to_array_ex c key_info off cnt = Some (result, rows, c')" using run r' by simp
      then show ?thesis using post clock unfolding take by blast
    qed
  qed
qed

end
