(* ===== verification/SetTotal.thy ===== *)
theory SetTotal
  imports StoreCorrect
begin

text \<open>
  \<^verbatim>\<open>shm_ht_set\<close> always returns, keeps the invariant, and on success the cache holds the new pair last,
  after what is left of the other pairs. The induction is on the depth of nested rearrangements.
\<close>

section \<open>Contracts\<close>

text \<open>The alignment macro of libfastcommon rounds up.\<close>

definition align_ok :: "fastcommon \<Rightarrow> bool" where
  "align_ok fc \<longleftrightarrow> (\<forall>n \<ge> 0. n \<le> fc_mem_align fc n)"

definition set_post ::
  "shmcache_context \<Rightarrow> entry_loc list \<Rightarrow> bytes \<Rightarrow> shmcache_value_info \<Rightarrow> int \<Rightarrow> shmcache_context \<Rightarrow> entry_loc list \<Rightarrow> bool" where
  "set_post c L key value result c' L' \<longleftrightarrow> full_inv c' L' \<and> fixed c c'
     \<and> (if result = 0
        then \<exists>PS. thinned (sc_config c) (filter (\<lambda>p. fst p \<noteq> key) (entry_pairs c L)) PS
               \<and> entry_pairs c' L' = PS @ [(key, value)]
        else subseq (entry_pairs c' L') (entry_pairs c L))"

text \<open>A set function that returns on every table with fewer than \<open>d\<close> entries.\<close>

definition set_total :: "nat \<Rightarrow> ht_set_fun \<Rightarrow> bool" where
  "set_total d ht_set \<longleftrightarrow> (\<forall>c L key value. full_inv c L \<longrightarrow> align_ok (sc_fastcommon c) \<longrightarrow> length L < d \<longrightarrow>
     (\<exists>result c' L'. ht_set c key value = Some (result, c') \<and> set_post c L key value result c' L'))"

lemma set_totalD:
  assumes "set_total d ht_set" and "full_inv c L" and "align_ok (sc_fastcommon c)" and "length L < d"
  obtains result c' L' where "ht_set c key value = Some (result, c')" "set_post c L key value result c' L'"
  using assms unfolding set_total_def by meson

lemma set_post_length:
  assumes "set_post c L key value result c' L'"
  shows "length L' \<le> Suc (length L)"
proof (cases "result = 0")
  case True
  then obtain PS where PS: "thinned (sc_config c) (filter (\<lambda>p. fst p \<noteq> key) (entry_pairs c L)) PS"
    "entry_pairs c' L' = PS @ [(key, value)]"
    using assms by (auto simp: set_post_def)
  have "length L' = Suc (length PS)" using arg_cong [OF PS(2), of length] by simp
  moreover have "length (filter (\<lambda>p. fst p \<noteq> key) (entry_pairs c L)) \<le> length (entry_pairs c L)" by (rule length_filter_le)
  ultimately show ?thesis using thinned_length [OF PS(1)] by simp
next
  case False
  then have "subseq (entry_pairs c' L') (entry_pairs c L)" using assms by (simp add: set_post_def)
  then have "length (entry_pairs c' L') \<le> length (entry_pairs c L)" by (rule list_emb_length)
  then show ?thesis by simp
qed

section \<open>Clearing and rearranging\<close>

lemma push_capacity [simp]: "op_capacity (shm_object_pool_push op x) = op_capacity op"
  by (simp add: shm_object_pool_push_def shm_object_pool_free_def Let_def)

lemma push_all_capacity [simp]: "op_capacity (foldl shm_object_pool_push op xs) = op_capacity op"
  by (induction xs arbitrary: op) simp_all

lemma clear_inv:
  assumes "full_inv c L"
  shows "full_inv (snd (shm_ht_clear c)) []" and "stable c (snd (shm_ht_clear c))"
proof -
  have "cache_inv c L" using assms by (simp add: full_inv_def)
  then have cl: "clearable c" by (rule cache_inv_clearable)
  then have "nstriping c \<le> length (sc_allocators c)" by (simp add: clearable_def allocs_ok_def)
  then show st: "stable c (snd (shm_ht_clear c))"
    by (simp add: ht_clear_eq stable_def cleared_def snd_sys)
  show "full_inv (snd (shm_ht_clear c)) []" by (rule full_inv_stable [OF assms st ht_clear(2) [OF cl]])
qed

lemma full_inv_bookkeeping: "full_inv c L \<Longrightarrow> bookkeeping c c' \<Longrightarrow> full_inv c' L"
  using full_inv_stable bookkeeping_kept(1,3) unfolding full_inv_def by blast

lemma fixed_bookkeeping: "bookkeeping c c' \<Longrightarrow> fixed c c'"
  using bookkeeping_kept(3) fixed_stable by blast

lemma fixed_fields: "fixed c c' \<Longrightarrow> sc_config c' = sc_config c" "fixed c c' \<Longrightarrow> sc_fastcommon c' = sc_fastcommon c"
  by (simp_all add: fixed_def)

lemma rearrange_loop:
  assumes "set_total d ht_set"
  shows "full_inv c L \<Longrightarrow> align_ok (sc_fastcommon c) \<Longrightarrow> length L + length rows \<le> d \<Longrightarrow>
    distinct (map fst rows) \<Longrightarrow> fst ` set rows \<inter> fst ` set (entry_pairs c L) = {} \<Longrightarrow>
    \<exists>result c' L'. rearrange_loop ht_set rows c = Some (result, c') \<and> full_inv c' L' \<and> fixed c c'
      \<and> (result = 0 \<longrightarrow> thinned (sc_config c) (entry_pairs c L @ rows) (entry_pairs c' L'))"
proof (induction rows arbitrary: c L)
  case Nil
  then show ?case by (intro exI [of _ 0] exI [of _ c] exI [of _ L]) simp
next
  case (Cons row rows)
  obtain key v where row: "row = (key, v)" by (cases row)
  have "length L < d" using Cons.prems(3) by simp
  then obtain result c1 L1 where r: "ht_set c key v = Some (result, c1)" "set_post c L key v result c1 L1"
    by (rule set_totalD [OF assms Cons.prems(1,2)])
  have inv1: "full_inv c1 L1" and fix1: "fixed c c1" using r(2) by (simp_all add: set_post_def)
  show ?case
  proof (cases "result = 0")
    case False
    then show ?thesis using r(1) row inv1 fix1 by (intro exI [of _ result] exI [of _ c1] exI [of _ L1]) simp
  next
    case True
    obtain PS where PS: "thinned (sc_config c) (filter (\<lambda>p. fst p \<noteq> key) (entry_pairs c L)) PS"
      "entry_pairs c1 L1 = PS @ [(key, v)]"
      using r(2) True by (auto simp: set_post_def)
    have "key \<notin> fst ` set (entry_pairs c L)" using Cons.prems(5) row by auto
    then have "filter (\<lambda>p. fst p \<noteq> key) (entry_pairs c L) = entry_pairs c L" by (auto simp: filter_id_conv)
    then have thin: "thinned (sc_config c) (entry_pairs c L) PS" using PS(1) by simp
    have "set PS \<subseteq> set (entry_pairs c L)" by (rule thinned_set [OF thin])
    then have disj: "fst ` set rows \<inter> fst ` set (entry_pairs c1 L1) = {}"
      using Cons.prems(4,5) row PS(2) by (simp; blast)
    have "length L1 + length rows \<le> d" using set_post_length [OF r(2)] Cons.prems(3) by simp
    then obtain result' c' L' where r': "rearrange_loop ht_set rows c1 = Some (result', c')" "full_inv c' L'" "fixed c1 c'"
      "result' = 0 \<longrightarrow> thinned (sc_config c1) (entry_pairs c1 L1 @ rows) (entry_pairs c' L')"
      using Cons.IH [OF inv1 _ _ _ disj] Cons.prems(2,4) fix1 by (auto simp: fixed_fields)
    have "thinned (sc_config c) (entry_pairs c L @ row # rows) (entry_pairs c1 L1 @ rows)"
      using thinned_append [OF thin thinned_refl, of "row # rows"] PS(2) row by simp
    then have "result' = 0 \<longrightarrow> thinned (sc_config c) (entry_pairs c L @ row # rows) (entry_pairs c' L')"
      using r'(4) thinned_trans fix1 by (auto simp: fixed_fields)
    then show ?thesis
      using r(1) r'(1-3) True row fixed_trans [OF fix1]
      by (intro exI [of _ result'] exI [of _ c'] exI [of _ L']) simp
  qed
qed

lemma matching_all_thinned: "thinned cfg (entry_pairs c L) (matching c None t L)"
proof -
  let ?f = "\<lambda>l. (he_key (entry c l), entry_value (entry c l))" and ?P = "\<lambda>l. HT_ENTRY_IS_VALID (entry c l) t"
  have "matching c None t L = map ?f (filter ?P L)" by (simp add: matching_def entry_pairs_def HT_KEY_MATCHED_def)
  moreover have "filter permanent (map ?f (filter ?P L)) = filter permanent (map ?f L)"
    by (auto simp: filter_map HT_ENTRY_IS_VALID_def entry_value_def intro!: arg_cong [where f = "map _"] filter_cong)
  moreover have "subseq (map ?f (filter ?P L)) (map ?f L)" by (intro subseq_map subseq_filter_left)
  ultimately show ?thesis by (simp add: thinned_def entry_pairs_def)
qed

lemma matching_keys_distinct: "cache_inv c L \<Longrightarrow> distinct (map fst (matching c key_info t L))"
  using core_invD(6) [of c L "[]"]
  by (auto simp: matching_def entry_pairs_def cache_inv_def ht_ok_def distinct_map comp_def inj_on_def)

lemma to_array_all:
  assumes "cache_inv c L"
  obtains result rows c' t where "shm_ht_to_array c = Some (result, rows, c')" "bookkeeping c c'"
    "result = 0 \<longrightarrow> rows = matching c None t L" "result = 0 \<or> result = ENOMEM"
proof -
  obtain result rows c' t where r: "shm_ht_to_array_ex c None 0 0 = Some (result, rows, c')" "bookkeeping c c'"
    "result = 0 \<and> rows = take (if 0 < (0 :: int) \<and> 0 < int (length L) - 0 then nat 0 else length L)
       (drop (nat 0) (matching c None t L)) \<or> result = ENOMEM \<and> rows = []"
    using ht_to_array_ex [OF assms, of 0 None 0] by auto
  have "length (matching c None t L) \<le> length L" by (simp add: matching_def)
  then show thesis using that [of result rows c' t] r by (auto simp: shm_ht_to_array_def)
qed

text \<open>What an attempt to make room leaves: a part of the pairs, and on success no permanent one is lost.\<close>

definition room_post :: "shmcache_context \<Rightarrow> entry_loc list \<Rightarrow> int \<Rightarrow> shmcache_context \<Rightarrow> entry_loc list \<Rightarrow> bool" where
  "room_post c L result c' L' \<longleftrightarrow> full_inv c' L' \<and> fixed c c' \<and> subseq (entry_pairs c' L') (entry_pairs c L)
     \<and> (result = 0 \<longrightarrow> thinned (sc_config c) (entry_pairs c L) (entry_pairs c' L'))"

lemma room_post_thinned:
  "full_inv c' L' \<Longrightarrow> fixed c c' \<Longrightarrow> thinned (sc_config c) (entry_pairs c L) (entry_pairs c' L') \<Longrightarrow> room_post c L result c' L'"
  by (simp add: room_post_def thinned_def)

lemma room_post_trans:
  assumes "full_inv c1 L1" and "fixed c c1" and "thinned (sc_config c) (entry_pairs c L) (entry_pairs c1 L1)"
    and "room_post c1 L1 result c' L'"
  shows "room_post c L result c' L'"
  using assms thinned_trans [of "sc_config c" "entry_pairs c L" "entry_pairs c1 L1" "entry_pairs c' L'"]
    subseq_order.trans [of "entry_pairs c' L'" "entry_pairs c1 L1" "entry_pairs c L"] fixed_trans [of c c1 c']
  by (auto simp: room_post_def fixed_fields thinned_def)

lemma try_rearrange:
  assumes "set_total d ht_set" and "full_inv c L" and "align_ok (sc_fastcommon c)" and "length L \<le> d"
  obtains result c' L' where "shm_value_allocator_try_rearrange ht_set c = Some (result, c')" "room_post c L result c' L'"
proof -
  obtain t0 c1 where q: "sys Sys_get_current_time_us c = (t0, c1)" by (metis surj_pair)
  have b1: "bookkeeping c c1" using bookkeeping_sys [of c Sys_get_current_time_us] q by simp
  have i1: "full_inv c1 L" by (rule full_inv_bookkeeping [OF assms(2) b1])
  have "cache_inv c1 L" using i1 by (simp add: full_inv_def)
  then obtain r rows c2 t where arr: "shm_ht_to_array c1 = Some (r, rows, c2)" "bookkeeping c1 c2"
    "r = 0 \<longrightarrow> rows = matching c1 None t L" "r = 0 \<or> r = ENOMEM"
    by (rule to_array_all)
  have b2: "bookkeeping c c2" using bookkeeping_trans [OF b1 arr(2)] .
  have i2: "full_inv c2 L" by (rule full_inv_bookkeeping [OF assms(2) b2])
  have p2: "entry_pairs c2 L = entry_pairs c L" by (rule bookkeeping_kept(2) [OF b2])
  obtain n c3 where cl: "shm_ht_clear c2 = (n, c3)" by (metis surj_pair)
  define c4 where "c4 = (if n > 0 then recycle_sleep c3 else c3)"
  have "bookkeeping c3 c4" unfolding c4_def by (simp add: bookkeeping_sleep)
  moreover have "full_inv c3 []" "stable c2 c3" using clear_inv [OF i2] cl by simp_all
  ultimately have i4: "full_inv c4 []" and f4: "fixed c c4"
    using full_inv_bookkeeping fixed_trans fixed_bookkeeping [OF b2] fixed_stable fixed_bookkeeping by blast+
  let ?low = "mu_alloced (mi_usage (sc_memory c)) - (mu_common (mi_usage (sc_memory c)) + mu_entry (mi_usage (sc_memory c)))
      < (SHMCACHE_MAX_KEY_SIZE + cfg_max_value_size (sc_config c))
         + (vs_current (mi_striping (sc_memory c)) * cfg_discard_memory_size (sc_config c)) + vs_size (mi_striping (sc_memory c))"
  consider "?low" | "\<not> ?low" "r \<noteq> 0" | "\<not> ?low" "r = 0" by blast
  then show thesis
  proof cases
    case 1
    then have "shm_value_allocator_try_rearrange ht_set c = Some (ENOSPC, c)"
      by (simp add: shm_value_allocator_try_rearrange_def Let_def)
    then show thesis by (rule that) (rule room_post_thinned [OF assms(2)], simp_all)
  next
    case 2
    then have "shm_value_allocator_try_rearrange ht_set c = Some (r, c2)"
      using q arr(1) by (simp add: shm_value_allocator_try_rearrange_def Let_def)
    then show thesis
      by (rule that) (rule room_post_thinned [OF i2 fixed_bookkeeping [OF b2]], simp add: p2)
  next
    case 3
    have rows: "rows = matching c None t L" using arr(3) 3(2) matching_bookkeeping [OF b1] by simp
    have len: "length [] + length rows \<le> d" using assms(4) le_trans [OF length_filter_le] unfolding rows matching_def by simp
    have "cache_inv c L" using assms(2) by (simp add: full_inv_def)
    then have dist: "distinct (map fst rows)" unfolding rows by (rule matching_keys_distinct)
    obtain r5 c5 L5 where loop: "rearrange_loop ht_set rows c4 = Some (r5, c5)" "full_inv c5 L5" "fixed c4 c5"
      "r5 = 0 \<longrightarrow> thinned (sc_config c4) (entry_pairs c4 [] @ rows) (entry_pairs c5 L5)"
      using rearrange_loop [OF assms(1) i4 _ _ dist] assms(3) f4 len by (auto simp: fixed_fields entry_pairs_def)
    have f5: "fixed c c5" using fixed_trans [OF f4 loop(3)] .
    have run: "shm_value_allocator_try_rearrange ht_set c = Some
       (if r5 = 0 then (r5, snd (sys Sys_get_current_time_us c5)) else (r5, snd (shm_ht_clear c5)))"
      using 3 q arr(1) cl loop(1) by (simp add: shm_value_allocator_try_rearrange_def Let_def c4_def)
    show thesis
    proof (cases "r5 = 0")
      case True
      let ?c6 = "snd (sys Sys_get_current_time_us c5)"
      have b6: "bookkeeping c5 ?c6" by (rule bookkeeping_sys)
      have "thinned (sc_config c) rows (entry_pairs c5 L5)"
        using loop(4) True f4 by (simp add: fixed_fields entry_pairs_def)
      then have "thinned (sc_config c) (entry_pairs c L) (entry_pairs ?c6 L5)"
        using thinned_trans [OF matching_all_thinned] bookkeeping_kept(2) [OF b6] unfolding rows by simp
      then show thesis
        using that [of r5 ?c6 L5] run True full_inv_bookkeeping [OF loop(2) b6] fixed_trans [OF f5 fixed_bookkeeping [OF b6]]
          room_post_thinned by simp
    next
      case False
      have "room_post c L r5 (snd (shm_ht_clear c5)) []"
        using False clear_inv [OF loop(2)] fixed_trans [OF f5 fixed_stable] by (simp add: room_post_def entry_pairs_def)
      then show thesis using that run False by simp
    qed
  qed
qed

section \<open>Allocating an entry\<close>

text \<open>Making room: recycling, a new segment, or a rearrangement.\<close>

definition make_room :: "ht_set_fun \<Rightarrow> bool \<Rightarrow> shmcache_context \<Rightarrow> (int \<times> shmcache_context) option" where
  "make_room ht_set recycle c =
     (if recycle then do {
        (result, c) \<leftarrow> shm_value_allocator_recycle c Recycle_Value_Striping (- 1);
        if result \<noteq> 0 \<and> \<not> cfg_recycle_valid_entries (sc_config c) then
          (if vs_current (mi_segment (sc_memory c)) < vs_max (mi_segment (sc_memory c))
           then Some (shmopt_create_value_segment c)
           else shm_value_allocator_try_rearrange ht_set c)
        else Some (result, c)
      }
      else Some (shmopt_create_value_segment c))"

lemma create_segment_room:
  assumes "full_inv c L"
  obtains result c' where "shmopt_create_value_segment c = (result, c')" "room_post c L result c' L"
proof -
  obtain result c' where r: "shmopt_create_value_segment c = (result, c')" by (metis surj_pair)
  note inv = create_value_segment_inv [OF assms r]
  have "room_post c L result c' L" by (rule room_post_thinned [OF inv(1,3)]) (simp add: inv(2))
  with r show thesis by (rule that)
qed

lemma make_room:
  assumes "set_total d ht_set" and "full_inv c L" and "align_ok (sc_fastcommon c)" and "length L \<le> d"
  obtains result c' L' where "make_room ht_set recycle c = Some (result, c')" "room_post c L result c' L'"
proof (cases recycle)
  case False
  then show thesis using create_segment_room [OF assms(2)] that unfolding make_room_def by auto
next
  case True
  obtain r1 c1 L1 where 1: "shm_value_allocator_recycle c Recycle_Value_Striping (- 1) = Some (r1, c1)" "full_inv c1 L1"
    "stable c c1" "thinned (sc_config c) (entry_pairs c L) (entry_pairs c1 L1)"
    using recycle_thinned [OF assms(2)] by metis
  have f1: "fixed c c1" by (rule fixed_stable [OF 1(3)])
  have al1: "align_ok (sc_fastcommon c1)" "length L1 \<le> d"
    using assms(3,4) f1 thinned_length [OF 1(4)] by (simp_all add: fixed_fields)
  consider "r1 \<noteq> 0 \<and> \<not> cfg_recycle_valid_entries (sc_config c1)" "vs_current (mi_segment (sc_memory c1)) < vs_max (mi_segment (sc_memory c1))"
    | "r1 \<noteq> 0 \<and> \<not> cfg_recycle_valid_entries (sc_config c1)" "\<not> vs_current (mi_segment (sc_memory c1)) < vs_max (mi_segment (sc_memory c1))"
    | "\<not> (r1 \<noteq> 0 \<and> \<not> cfg_recycle_valid_entries (sc_config c1))" by blast
  then show thesis
  proof cases
    case a: 1
    obtain r2 c2 where "shmopt_create_value_segment c1 = (r2, c2)" "room_post c1 L1 r2 c2 L1"
      using 1(2) by (rule create_segment_room)
    then show thesis using that [of r2 c2 L1] True 1(1) a room_post_trans [OF 1(2) f1 1(4)] by (simp add: make_room_def)
  next
    case a: 2
    obtain r2 c2 L2 where "shm_value_allocator_try_rearrange ht_set c1 = Some (r2, c2)" "room_post c1 L1 r2 c2 L2"
      by (rule try_rearrange [OF assms(1) 1(2) al1])
    then show thesis using that [of r2 c2 L2] True 1(1) a room_post_trans [OF 1(2) f1 1(4)] by (simp add: make_room_def)
  next
    case a: 3
    have "room_post c L r1 c1 L1" by (rule room_post_thinned [OF 1(2) f1 1(4)])
    moreover have "make_room ht_set recycle c = Some (r1, c1)" using True 1(1) a by (auto simp: make_room_def)
    ultimately show thesis using that by blast
  qed
qed

lemma alloc_unfold:
  "shm_value_allocator_alloc ht_set c key_len value_len =
     (let sz = sizeof_shm_hash_entry + fc_mem_align (sc_fastcommon c) key_len + fc_mem_align (sc_fastcommon c) value_len in do {
        (p, c) \<leftarrow> shm_value_allocator_do_alloc c sz;
        if p \<noteq> None then Some (p, c)
        else
          (let (recycle, c) = alloc_should_recycle c in do {
             (result, c) \<leftarrow> make_room ht_set recycle c;
             if result = 0 then shm_value_allocator_do_alloc c sz else Some (None, c)
           })
      })"
  unfolding shm_value_allocator_alloc_def make_room_def Let_def ..

text \<open>The result of an allocation: no entry and a part of the pairs, or a new entry of the asked size.\<close>

definition entry_post ::
  "shmcache_context \<Rightarrow> entry_loc list \<Rightarrow> int \<Rightarrow> entry_loc option \<Rightarrow> shmcache_context \<Rightarrow> entry_loc list \<Rightarrow> bool" where
  "entry_post c L sz p c' L' \<longleftrightarrow> fixed c c' \<and> limits_ok c' \<and> maps_ok (sc_env c')
     \<and> (case p of
          None \<Rightarrow> cache_inv c' L' \<and> subseq (entry_pairs c' L') (entry_pairs c L)
        | Some n \<Rightarrow> core_inv c' L' [n] \<and> ht_ok c' L' \<and> he_size (entry c' n) = sz
            \<and> thinned (sc_config c) (entry_pairs c L) (entry_pairs c' L'))"

lemma entry_post_do_alloc:
  assumes "full_inv c L" and "0 < sz"
  obtains p c' where "shm_value_allocator_do_alloc c sz = Some (p, c')" "entry_post c L sz p c' L"
    "p = None \<longrightarrow> full_inv c' L \<and> stable c c' \<and> entry_pairs c' L = entry_pairs c L"
proof -
  have lim: "limits_ok c" "maps_ok (sc_env c)" using assms(1) by (simp_all add: full_inv_def)
  have st: "fixed c c' \<and> limits_ok c' \<and> maps_ok (sc_env c')" if "stable c c'" for c'
    using that lim limits_stable [OF that] fixed_stable [OF that] by (simp add: maps_ok_def stable_def)
  from assms show thesis
  proof (cases rule: do_alloc_inv)
    case (none c')
    have "entry_post c L sz None c' L" using none(2,4) st [OF none(3)] by (simp add: entry_post_def full_inv_def)
    then show thesis using that [OF none(1)] none by simp
  next
    case (some n c')
    have "entry_post c L sz (Some n) c' L" using some(2-6) st [OF some(5)] by (simp add: entry_post_def)
    then show thesis using that [OF some(1)] by simp
  qed
qed

lemma entry_post_room:
  assumes "room_post c L 0 c1 L1" and "entry_post c1 L1 sz p c' L'"
  shows "entry_post c L sz p c' L'"
proof -
  have r: "fixed c c1" "subseq (entry_pairs c1 L1) (entry_pairs c L)" "thinned (sc_config c) (entry_pairs c L) (entry_pairs c1 L1)"
    using assms(1) by (simp_all add: room_post_def)
  show ?thesis
  proof (cases p)
    case None
    then show ?thesis
      using assms(2) fixed_trans [OF r(1)] subseq_order.trans [OF _ r(2)] by (auto simp: entry_post_def)
  next
    case (Some n)
    then show ?thesis
      using assms(2) fixed_trans [OF r(1)] thinned_trans [OF r(3)] r(1) by (auto simp: entry_post_def fixed_fields)
  qed
qed

lemma allocator_alloc:
  assumes "set_total d ht_set" and "full_inv c L" and "align_ok (sc_fastcommon c)" and "length L \<le> d"
    and "0 \<le> key_len" and "0 \<le> value_len"
  obtains sz p c' L' where "shm_value_allocator_alloc ht_set c key_len value_len = Some (p, c')"
    "entry_post c L sz p c' L'" "sizeof_shm_hash_entry + key_len + value_len \<le> sz"
proof -
  define sz where "sz = sizeof_shm_hash_entry + fc_mem_align (sc_fastcommon c) key_len + fc_mem_align (sc_fastcommon c) value_len"
  have "key_len \<le> fc_mem_align (sc_fastcommon c) key_len" "value_len \<le> fc_mem_align (sc_fastcommon c) value_len"
    using assms(3,5,6) unfolding align_ok_def by blast+
  then have sz: "sizeof_shm_hash_entry + key_len + value_len \<le> sz" by (simp add: sz_def)
  have pos: "0 < sz" using sz assms(5,6) by simp
  obtain p1 c1 where 1: "shm_value_allocator_do_alloc c sz = Some (p1, c1)" "entry_post c L sz p1 c1 L"
    "p1 = None \<longrightarrow> full_inv c1 L \<and> stable c c1 \<and> entry_pairs c1 L = entry_pairs c L"
    by (rule entry_post_do_alloc [OF assms(2) pos])
  show thesis
  proof (cases "p1 = None")
    case False
    then have "shm_value_allocator_alloc ht_set c key_len value_len = Some (p1, c1)"
      using 1(1) unfolding alloc_unfold sz_def [symmetric] by (simp add: Let_def)
    then show thesis using that 1(2) sz by blast
  next
    case None: True
    obtain b c2 where b: "alloc_should_recycle c1 = (b, c2)" by (metis surj_pair)
    have i1: "full_inv c1 L" "stable c c1" "entry_pairs c1 L = entry_pairs c L" using 1(3) None by blast+
    note i2 = alloc_should_recycle_inv [OF i1(1) b]
    have p2: "entry_pairs c2 L = entry_pairs c L" using entry_pairs_same [OF i2(3), of L] i1(3) by simp
    have f2: "fixed c c2" using fixed_trans [OF fixed_stable [OF i1(2)] fixed_stable [OF i2(2)]] .
    have al2: "align_ok (sc_fastcommon c2)" using assms(3) f2 by (simp add: fixed_fields)
    obtain r c3 L3 where 3: "make_room ht_set b c2 = Some (r, c3)" "room_post c2 L r c3 L3"
      by (rule make_room [OF assms(1) i2(1) al2 assms(4)])
    have post3: "room_post c L r c3 L3"
      by (rule room_post_trans [OF i2(1) f2 _ 3(2)]) (simp add: p2)
    have run: "shm_value_allocator_alloc ht_set c key_len value_len =
       (if r = 0 then shm_value_allocator_do_alloc c3 sz else Some (None, c3))"
      using 1(1) None b 3(1) unfolding alloc_unfold sz_def [symmetric] by (simp add: Let_def)
    show thesis
    proof (cases "r = 0")
      case False
      have "entry_post c L sz None c3 L3"
        using post3 by (simp add: room_post_def entry_post_def full_inv_def)
      then show thesis using that run False sz by simp
    next
      case True
      have "full_inv c3 L3" using post3 by (simp add: room_post_def)
      then obtain p4 c4 where 4: "shm_value_allocator_do_alloc c3 sz = Some (p4, c4)" "entry_post c3 L3 sz p4 c4 L3"
        using entry_post_do_alloc [OF _ pos] by metis
      have "entry_post c L sz p4 c4 L3" using entry_post_room [OF _ 4(2)] post3 True by simp
      then show thesis using that run True 4(1) sz by simp
    qed
  qed
qed

section \<open>Setting a key\<close>

lemma set_clock_bookkeeping:
  "bookkeeping c (if \<not> sc_g_schedule_flag c then (let (t, c) = sys Sys_time c in c\<lparr>sc_g_current_time := t\<rparr>) else c)"
  using bookkeeping_trans [OF bookkeeping_sys bookkeeping_time] by (simp add: case_prod_unfold Let_def)

lemma set_post_thinned:
  assumes "fixed c c1" and "thinned (sc_config c) (entry_pairs c L) (entry_pairs c1 L1)"
    and "set_post c1 L1 key value result c' L'"
  shows "set_post c L key value result c' L'"
proof -
  have cfg: "sc_config c1 = sc_config c" by (rule fixed_fields(1) [OF assms(1)])
  have sub: "subseq (entry_pairs c1 L1) (entry_pairs c L)" using assms(2) by (simp add: thinned_def)
  show ?thesis
    using assms(3) fixed_trans [OF assms(1)] thinned_trans [OF thinned_filter [OF assms(2)]] subseq_order.trans [OF _ sub]
    unfolding set_post_def cfg by (metis (no_types, lifting))
qed

lemma set_allocated:
  assumes "entry_post c L sz (Some n) c1 L1" and "sizeof_shm_hash_entry + int (length key) + int (length (vi_data v)) \<le> sz"
  obtains c' L' where "ht_set_link c1 key v (Some n) = Some (0, c')" "set_post c L key v 0 c' L'"
proof -
  have e: "fixed c c1" "limits_ok c1" "maps_ok (sc_env c1)" "core_inv c1 L1 [n]" "ht_ok c1 L1" "he_size (entry c1 n) = sz"
    "thinned (sc_config c) (entry_pairs c L) (entry_pairs c1 L1)"
    using assms(1) by (simp_all add: entry_post_def)
  obtain c' L' where l: "ht_set_link c1 key v (Some n) = Some (0, c')" "cache_inv c' L'"
    "entry_pairs c' L' = filter (\<lambda>p. fst p \<noteq> key) (entry_pairs c1 L1) @ [(key, v)]" "ht_frame c1 c'"
    using ht_set_link [OF e(4,5)] assms(2) e(6) by metis
  have st: "stable c1 c'" by (rule stable_ht_frame [OF l(4)])
  have "full_inv c' L'"
    using l(2) limits_stable [OF st e(2)] e(3) st by (simp add: full_inv_def maps_ok_def stable_def)
  moreover have "fixed c c'" using fixed_trans [OF e(1) fixed_stable [OF st]] .
  moreover have "thinned (sc_config c) (filter (\<lambda>p. fst p \<noteq> key) (entry_pairs c L)) (filter (\<lambda>p. fst p \<noteq> key) (entry_pairs c1 L1))"
    by (rule thinned_filter [OF e(7)])
  ultimately have "set_post c L key v 0 c' L'" using l(3) by (auto simp: set_post_def)
  with l(1) show thesis by (rule that)
qed

lemma set_post_error: "full_inv c' L' \<Longrightarrow> fixed c c' \<Longrightarrow> subseq (entry_pairs c' L') (entry_pairs c L) \<Longrightarrow> result \<noteq> 0 \<Longrightarrow>
  set_post c L key v result c' L'"
  by (simp add: set_post_def)

lemma recycle_keys_thinned:
  assumes "full_inv c L"
  obtains result c' L' where "(if b then shm_value_allocator_recycle c kind k else Some (0, c)) = Some (result, c')"
    "full_inv c' L'" "stable c c'" "thinned (sc_config c) (entry_pairs c L) (entry_pairs c' L')"
proof (cases b)
  case True
  obtain result c' L' where "shm_value_allocator_recycle c kind k = Some (result, c')" "full_inv c' L'" "stable c c'"
    "thinned (sc_config c) (entry_pairs c L) (entry_pairs c' L')" by (rule recycle_thinned [OF assms])
  then show thesis using that [of result c' L'] True by simp
next
  case False
  then show thesis using that [of 0 c L] assms by simp
qed

lemma set_body_total:
  assumes "set_total d ht_set" and "full_inv c L" and "align_ok (sc_fastcommon c)" and "length L \<le> d"
  shows "\<exists>result c' L'. ht_set_body ht_set c key v = Some (result, c') \<and> set_post c L key v result c' L'"
proof -
  consider "int (length key) > SHMCACHE_MAX_KEY_SIZE"
    | "\<not> int (length key) > SHMCACHE_MAX_KEY_SIZE" "int (length (vi_data v)) > cfg_max_value_size (sc_config c)"
    | "\<not> int (length key) > SHMCACHE_MAX_KEY_SIZE" "\<not> int (length (vi_data v)) > cfg_max_value_size (sc_config c)" by blast
  then show ?thesis
  proof cases
    case 1
    then have "ht_set_body ht_set c key v = Some (ENAMETOOLONG, c)" by (simp add: ht_set_body_def)
    then show ?thesis
      by (intro exI [of _ ENAMETOOLONG] exI [of _ c] exI [of _ L]) (simp add: set_post_def assms(2))
  next
    case 2
    then have "ht_set_body ht_set c key v = Some (EINVAL, c)" by (simp add: ht_set_body_def)
    then show ?thesis
      by (intro exI [of _ EINVAL] exI [of _ c] exI [of _ L]) (simp add: set_post_def assms(2))
  next
    case 3
    obtain r1 c1 L1 where 1: "(if mi_count (sc_memory c) \<ge> cfg_max_key_count (sc_config c)
           then shm_value_allocator_recycle c Recycle_Key (cfg_recycle_key_once (sc_config c)) else Some (0, c)) = Some (r1, c1)"
      "full_inv c1 L1" "stable c c1" "thinned (sc_config c) (entry_pairs c L) (entry_pairs c1 L1)"
      by (rule recycle_keys_thinned [OF assms(2)])
    have f1: "fixed c c1" by (rule fixed_stable [OF 1(3)])
    define c2 where "c2 = (if \<not> sc_g_schedule_flag c1 then (let (t, c) = sys Sys_time c1 in c\<lparr>sc_g_current_time := t\<rparr>) else c1)"
    have b2: "bookkeeping c1 c2" unfolding c2_def by (rule set_clock_bookkeeping)
    have i2: "full_inv c2 L1" by (rule full_inv_bookkeeping [OF 1(2) b2])
    have f2: "fixed c c2" using fixed_trans [OF f1 fixed_bookkeeping [OF b2]] .
    have t2: "thinned (sc_config c) (entry_pairs c L) (entry_pairs c2 L1)" using 1(4) bookkeeping_kept(2) [OF b2] by simp
    have al2: "align_ok (sc_fastcommon c2)" using assms(3) f2 by (simp add: fixed_fields)
    have len1: "length L1 \<le> d" using thinned_length [OF 1(4)] assms(4) by simp
    obtain sz p c3 L3 where al3: "shm_value_allocator_alloc ht_set c2 (int (length key)) (int (length (vi_data v))) = Some (p, c3)"
      "entry_post c2 L1 sz p c3 L3" "sizeof_shm_hash_entry + int (length key) + int (length (vi_data v)) \<le> sz"
      by (rule allocator_alloc [OF assms(1) i2 al2 len1 of_nat_0_le_iff of_nat_0_le_iff])
    have run: "ht_set_body ht_set c key v =
       (if r1 \<noteq> 0 then Some (r1, c1) else if p = None then Some (ENOMEM, c3) else ht_set_link c3 key v p)"
      using 3 1(1) al3(1) by (simp add: ht_set_body_def flip: c2_def)
    consider "r1 \<noteq> 0" | "r1 = 0" "p = None" | n where "r1 = 0" "p = Some n" by (cases p) blast+
    then show ?thesis
    proof cases
      case 1
      have "set_post c L key v r1 c1 L1"
        using set_post_error [OF \<open>full_inv c1 L1\<close> f1 _ 1] \<open>thinned _ _ (entry_pairs c1 L1)\<close> by (simp add: thinned_def)
      then show ?thesis using run 1 by auto
    next
      case 2
      have "full_inv c3 L3" "fixed c2 c3" "subseq (entry_pairs c3 L3) (entry_pairs c2 L1)"
        using al3(2) 2(2) by (simp_all add: entry_post_def full_inv_def)
      then have "set_post c2 L1 key v ENOMEM c3 L3" by (rule set_post_error) simp
      then have "set_post c L key v ENOMEM c3 L3" by (rule set_post_thinned [OF f2 t2])
      then show ?thesis using run 2 by auto
    next
      case (3 n)
      obtain c' L' where l: "ht_set_link c3 key v (Some n) = Some (0, c')" "set_post c2 L1 key v 0 c' L'"
        using set_allocated [OF al3(2) [unfolded 3(2)] al3(3)] by blast
      have "set_post c L key v 0 c' L'" by (rule set_post_thinned [OF f2 t2 l(2)])
      then show ?thesis using run 3 l(1) by auto
    qed
  qed
qed

lemma set_depth_total: "set_total d (ht_set_depth d)"
proof (induction d)
  case 0
  then show ?case by (simp add: set_total_def)
next
  case (Suc d)
  show ?case unfolding set_total_def
  proof (intro allI impI)
    fix c L key v
    assume "full_inv c L" "align_ok (sc_fastcommon c)" "length L < Suc d"
    then show "\<exists>result c' L'. ht_set_depth (Suc d) c key v = Some (result, c') \<and> set_post c L key v result c' L'"
      using set_body_total [OF Suc.IH] by simp
  qed
qed

lemma ht_set_total:
  assumes "full_inv c L" and "align_ok (sc_fastcommon c)"
  obtains result c' L' where "shm_ht_set c key v = Some (result, c')" "set_post c L key v result c' L'"
proof -
  have "cache_inv c L" using assms(1) by (simp add: full_inv_def)
  then have "mi_count (sc_memory c) = int (length L)"
    using core_invD(8) [of c L "[]"] by (simp add: cache_inv_def count_ok_def)
  then have "length L < Suc (Suc (nat (mi_count (sc_memory c))))" by simp
  then show thesis
    using set_totalD [OF set_depth_total assms] that unfolding shm_ht_set_def by blast
qed

end
