(* ===== verification/CacheStore.thy ===== *)
theory CacheStore
  imports SetTotal
begin

text \<open>
  The contract of the cache towards its users, as a locale: a store that may lose entries but never
  returns a wrong one. The client lemma is about every sequence of operations; the interpretation
  discharges the laws for the hash table.
\<close>

section \<open>Operations and traces\<close>

datatype ('k, 'v) store_op = Op_Set 'k 'v | Op_Get 'k | Op_Delete 'k | Op_Clear

datatype ('k, 'v) store_event = Ev_Set 'k 'v int | Ev_Get 'k "'v option" | Ev_Delete 'k int | Ev_Clear

fun event_op :: "('k, 'v) store_event \<Rightarrow> ('k, 'v) store_op" where
  "event_op (Ev_Set k v r) = Op_Set k v"
| "event_op (Ev_Get k x) = Op_Get k"
| "event_op (Ev_Delete k r) = Op_Delete k"
| "event_op Ev_Clear = Op_Clear"

text \<open>Running a sequence of operations.\<close>

fun store_run ::
  "('c \<Rightarrow> 'k \<Rightarrow> ('v option \<times> 'c) option) \<Rightarrow> ('c \<Rightarrow> 'k \<Rightarrow> 'v \<Rightarrow> (int \<times> 'c) option)
   \<Rightarrow> ('c \<Rightarrow> 'k \<Rightarrow> (int \<times> 'c) option) \<Rightarrow> ('c \<Rightarrow> 'c option)
   \<Rightarrow> ('k, 'v) store_op list \<Rightarrow> 'c \<Rightarrow> (('k, 'v) store_event list \<times> 'c) option" where
  "store_run g s d cl [] c = Some ([], c)"
| "store_run g s d cl (p # ps) c = do {
     (e, c) \<leftarrow> (case p of
         Op_Set k v \<Rightarrow> map_option (\<lambda>(r, c). (Ev_Set k v r, c)) (s c k v)
       | Op_Get k \<Rightarrow> map_option (\<lambda>(x, c). (Ev_Get k x, c)) (g c k)
       | Op_Delete k \<Rightarrow> map_option (\<lambda>(r, c). (Ev_Delete k r, c)) (d c k)
       | Op_Clear \<Rightarrow> map_option (\<lambda>c. (Ev_Clear, c)) (cl c));
     (es, c) \<leftarrow> store_run g s d cl ps c;
     Some (e # es, c)
   }"

text \<open>
  The specification, over the map of the keys set last: a read returns that value or nothing, a set
  counts when it reports success, and deleting or clearing removes for certain.
\<close>

fun trace_sound :: "('k \<rightharpoonup> 'v) \<Rightarrow> ('k, 'v) store_event list \<Rightarrow> bool" where
  "trace_sound m [] \<longleftrightarrow> True"
| "trace_sound m (Ev_Set k v r # es) \<longleftrightarrow> trace_sound (if r = 0 then m(k \<mapsto> v) else m) es"
| "trace_sound m (Ev_Get k x # es) \<longleftrightarrow> (x = None \<or> x = m k) \<and> trace_sound m es"
| "trace_sound m (Ev_Delete k r # es) \<longleftrightarrow> trace_sound (m(k := None)) es"
| "trace_sound m (Ev_Clear # es) \<longleftrightarrow> trace_sound Map.empty es"

lemma map_le_upd_None: "k \<notin> dom f \<Longrightarrow> f \<subseteq>\<^sub>m m(k := None) \<longleftrightarrow> f \<subseteq>\<^sub>m m"
  by (auto simp: map_le_def)

section \<open>Events of a lossy store\<close>

text \<open>From one list of pairs to another by a sequence of events.\<close>

inductive lossy :: "('k \<times> 'v) list \<Rightarrow> ('k, 'v) store_event list \<Rightarrow> ('k \<times> 'v) list \<Rightarrow> bool" where
  lossy_nil: "lossy ps [] ps"
| lossy_stored: "subseq qs (filter (\<lambda>p. fst p \<noteq> k) ps) \<Longrightarrow> lossy (qs @ [(k, v)]) es ps' \<Longrightarrow> lossy ps (Ev_Set k v 0 # es) ps'"
| lossy_failed: "r \<noteq> 0 \<Longrightarrow> subseq qs ps \<Longrightarrow> lossy qs es ps' \<Longrightarrow> lossy ps (Ev_Set k v r # es) ps'"
| lossy_get: "lossy ps es ps' \<Longrightarrow> lossy ps (Ev_Get k (map_of ps k) # es) ps'"
| lossy_delete: "lossy (filter (\<lambda>p. fst p \<noteq> k) ps) es ps' \<Longrightarrow> lossy ps (Ev_Delete k r # es) ps'"
| lossy_clear: "lossy [] es ps' \<Longrightarrow> lossy ps (Ev_Clear # es) ps'"

lemma lossy_append: "lossy ps es ps1 \<Longrightarrow> lossy ps1 es' ps2 \<Longrightarrow> lossy ps (es @ es') ps2"
  by (induction rule: lossy.induct) (auto intro: lossy.intros)

lemma lossy_set:
  "(if r = 0 then \<exists>qs. subseq qs (filter (\<lambda>p. fst p \<noteq> k) ps) \<and> ps' = qs @ [(k, v)] else subseq ps' ps)
    \<Longrightarrow> lossy ps [Ev_Set k v r] ps'"
  by (cases "r = 0") (auto intro: lossy.intros)

lemma subseq_set_subset: "subseq xs ys \<Longrightarrow> set xs \<subseteq> set ys"
  using list_emb_set [of "(=)" xs ys] by auto

lemma distinct_keys_subseq: "subseq qs ps \<Longrightarrow> distinct (map fst ps) \<Longrightarrow> distinct (map fst qs)"
  by (induction rule: list_emb.induct) (auto dest: subseq_set_subset)

lemma map_of_subset_keys:
  assumes "distinct (map fst ps)" and "distinct (map fst qs)" and "set qs \<subseteq> set ps"
  shows "map_of qs \<subseteq>\<^sub>m map_of ps"
  unfolding map_le_def using assms by (force simp: dom_map_of_conv_image_fst)

text \<open>Such a sequence is a sound trace.\<close>

lemma lossy_sound: "lossy ps es ps' \<Longrightarrow> distinct (map fst ps) \<Longrightarrow> map_of ps \<subseteq>\<^sub>m m \<Longrightarrow> trace_sound m es"
proof (induction arbitrary: m rule: lossy.induct)
  case (lossy_stored qs k ps v es ps')
  have sub: "set qs \<subseteq> set (filter (\<lambda>p. fst p \<noteq> k) ps)" by (rule subseq_set_subset [OF lossy_stored.hyps(1)])
  have "distinct (map fst (filter (\<lambda>p. fst p \<noteq> k) ps))" using lossy_stored.prems(1) by (simp add: distinct_map_filter)
  then have d: "distinct (map fst qs)" "k \<notin> fst ` set qs"
    using distinct_keys_subseq [OF lossy_stored.hyps(1)] sub by auto
  have "map_of qs \<subseteq>\<^sub>m m"
    by (rule map_le_trans [OF map_of_subset_keys [OF lossy_stored.prems(1) d(1)] lossy_stored.prems(2)]) (use sub in auto)
  moreover have "map_of qs k = None" using d(2) by (simp add: map_of_eq_None_iff)
  ultimately have "map_of (qs @ [(k, v)]) \<subseteq>\<^sub>m m(k \<mapsto> v)"
    by (auto simp: map_le_def map_add_def dom_def split: option.splits)
  then show ?case using lossy_stored.IH d by auto
next
  case (lossy_failed r qs ps es ps' k v)
  have d: "distinct (map fst qs)" by (rule distinct_keys_subseq [OF lossy_failed.hyps(2) lossy_failed.prems(1)])
  have "map_of qs \<subseteq>\<^sub>m m"
    by (rule map_le_trans [OF map_of_subset_keys [OF lossy_failed.prems(1) d] lossy_failed.prems(2)])
      (rule subseq_set_subset [OF lossy_failed.hyps(2)])
  then show ?case using lossy_failed d by simp
next
  case (lossy_get ps es ps' k)
  have "map_of ps k = None \<or> map_of ps k = m k" using lossy_get.prems(2) by (cases "map_of ps k") (auto simp: map_le_def dom_def)
  then show ?case using lossy_get by simp
next
  case (lossy_delete k ps es ps' r)
  have d: "distinct (map fst (filter (\<lambda>p. fst p \<noteq> k) ps))" using lossy_delete.prems(1) by (simp add: distinct_map_filter)
  have "map_of (filter (\<lambda>p. fst p \<noteq> k) ps) \<subseteq>\<^sub>m m"
    by (rule map_le_trans [OF map_of_subset_keys [OF lossy_delete.prems(1) d] lossy_delete.prems(2)]) auto
  moreover have "k \<notin> dom (map_of (filter (\<lambda>p. fst p \<noteq> k) ps))" unfolding dom_map_of_conv_image_fst by auto
  ultimately have "map_of (filter (\<lambda>p. fst p \<noteq> k) ps) \<subseteq>\<^sub>m m(k := None)" by (simp add: map_le_upd_None)
  then show ?case using lossy_delete.IH [OF d] by simp
qed simp_all

text \<open>Running a sequence of operations, one operation at a time.\<close>

lemma store_run_Cons:
  "store_run g s d cl (p # ps) c = do {
     (es, c) \<leftarrow> store_run g s d cl [p] c;
     (es', c) \<leftarrow> store_run g s d cl ps c;
     Some (es @ es', c)
   }"
  by (cases p) (auto simp: map_option_case split: option.splits)

section \<open>The contract\<close>

locale lossy_store =
  fixes rep :: "'c \<Rightarrow> ('k \<times> 'v) list \<Rightarrow> bool"
    and get :: "'c \<Rightarrow> 'k \<Rightarrow> ('v option \<times> 'c) option"
    and set_key :: "'c \<Rightarrow> 'k \<Rightarrow> 'v \<Rightarrow> (int \<times> 'c) option"
    and delete :: "'c \<Rightarrow> 'k \<Rightarrow> (int \<times> 'c) option"
    and clear :: "'c \<Rightarrow> 'c option"
  assumes rep_keys: "rep c ps \<Longrightarrow> distinct (map fst ps)"
    and get_law: "rep c ps \<Longrightarrow> \<exists>c'. get c k = Some (map_of ps k, c') \<and> rep c' ps"
    and set_law: "rep c ps \<Longrightarrow> \<exists>r c' ps'. set_key c k v = Some (r, c') \<and> rep c' ps'
      \<and> (if r = 0 then \<exists>qs. subseq qs (filter (\<lambda>p. fst p \<noteq> k) ps) \<and> ps' = qs @ [(k, v)] else subseq ps' ps)"
    and delete_law: "rep c ps \<Longrightarrow> \<exists>r c'. delete c k = Some (r, c') \<and> rep c' (filter (\<lambda>p. fst p \<noteq> k) ps)"
    and clear_law: "rep c ps \<Longrightarrow> \<exists>c'. clear c = Some c' \<and> rep c' []"
begin

lemma map_of_subset:
  assumes "rep c ps" and "rep c' ps'" and "set ps' \<subseteq> set ps"
  shows "map_of ps' \<subseteq>\<^sub>m map_of ps"
proof -
  have "map_of ps k = Some v" if kv: "map_of ps' k = Some v" for k v
  proof -
    have "(k, v) \<in> set ps" using assms(3) map_of_SomeD [OF kv] by blast
    then show ?thesis using rep_keys [OF assms(1)] by simp
  qed
  then show ?thesis unfolding map_le_def by force
qed

lemma set_content:
  assumes "rep c ps" and "rep c' (qs @ [(k, v)])" and "subseq qs (filter (\<lambda>p. fst p \<noteq> k) ps)"
  shows "map_of (qs @ [(k, v)]) \<subseteq>\<^sub>m (map_of ps)(k \<mapsto> v)" and "map_of (qs @ [(k, v)]) k = Some v"
proof -
  have k: "k \<notin> fst ` set qs" and dist: "distinct (map fst (qs @ [(k, v)]))"
    using rep_keys [OF assms(2)] by auto
  have none: "map_of qs k = None" using k by (simp add: map_of_eq_None_iff)
  then show "map_of (qs @ [(k, v)]) k = Some v" by (simp add: map_add_def)
  have sub: "set qs \<subseteq> set ps" using subseq_set_subset [OF assms(3)] by auto
  have "map_of (qs @ [(k, v)]) a = ((map_of ps)(k \<mapsto> v)) a" if a: "a \<in> dom (map_of (qs @ [(k, v)]))" for a
  proof (cases "a = k")
    case True
    then show ?thesis using none by (simp add: map_add_def)
  next
    case False
    then obtain w where w: "map_of qs a = Some w" using a by (auto simp: map_add_def split: option.splits)
    then have "(a, w) \<in> set ps" using sub map_of_SomeD [OF w] by blast
    then show ?thesis using rep_keys [OF assms(1)] w False by (simp add: map_add_def)
  qed
  then show "map_of (qs @ [(k, v)]) \<subseteq>\<^sub>m (map_of ps)(k \<mapsto> v)" unfolding map_le_def by blast
qed

text \<open>After a successful set a read of the key returns the value; after a deletion, nothing.\<close>

lemma get_after_set:
  assumes "rep c ps" and "set_key c k v = Some (0, c')"
  shows "\<exists>c''. get c' k = Some (Some v, c'')"
proof -
  obtain ps' qs where ps': "rep c' ps'" "subseq qs (filter (\<lambda>p. fst p \<noteq> k) ps)" "ps' = qs @ [(k, v)]"
    using set_law [OF assms(1), of k v] assms(2) by auto
  then show ?thesis using get_law [OF ps'(1), of k] set_content(2) [OF assms(1) _ ps'(2)] by metis
qed

lemma get_after_delete:
  assumes "rep c ps" and "delete c k = Some (r, c')"
  shows "\<exists>c''. get c' k = Some (None, c'')"
proof -
  have "rep c' (filter (\<lambda>p. fst p \<noteq> k) ps)" using delete_law [OF assms(1), of k] assms(2) by auto
  moreover have "map_of (filter (\<lambda>p. fst p \<noteq> k) ps) k = None" by (auto simp: map_of_eq_None_iff)
  ultimately show ?thesis using get_law by metis
qed

text \<open>Every sequence of operations runs to its end, and its trace meets the specification.\<close>

lemma step_lossy:
  assumes "rep c ps"
  shows "\<exists>e c' ps'. store_run get set_key delete clear [p] c = Some ([e], c') \<and> rep c' ps' \<and> event_op e = p \<and> lossy ps [e] ps'"
proof (cases p)
  case (Op_Set k v)
  obtain r c' ps' where "set_key c k v = Some (r, c')" "rep c' ps'"
    "if r = 0 then \<exists>qs. subseq qs (filter (\<lambda>p. fst p \<noteq> k) ps) \<and> ps' = qs @ [(k, v)] else subseq ps' ps"
    using set_law [OF assms] by blast
  then show ?thesis using lossy_set [of r k ps ps' v] by (auto simp: Op_Set)
next
  case (Op_Get k)
  then show ?thesis using get_law [OF assms, of k] lossy_get [OF lossy_nil, of ps k] by auto
next
  case (Op_Delete k)
  obtain r c' where "delete c k = Some (r, c')" "rep c' (filter (\<lambda>p. fst p \<noteq> k) ps)" using delete_law [OF assms] by blast
  then show ?thesis
    using lossy_delete [where k = k and ps = ps and r = r, OF lossy_nil]
    by (intro exI [of _ "Ev_Delete k r"] exI [of _ c'] exI [of _ "filter (\<lambda>p. fst p \<noteq> k) ps"]) (simp add: Op_Delete)
next
  case Op_Clear
  then show ?thesis using clear_law [OF assms] lossy_clear [OF lossy_nil, of ps] by auto
qed

lemma run_lossy:
  "rep c ps \<Longrightarrow>
   \<exists>es c' ps'. store_run get set_key delete clear ops c = Some (es, c') \<and> rep c' ps' \<and> map event_op es = ops \<and> lossy ps es ps'"
proof (induction ops arbitrary: c ps)
  case (Cons p ops)
  obtain e c1 ps1 where 1: "store_run get set_key delete clear [p] c = Some ([e], c1)" "rep c1 ps1" "event_op e = p" "lossy ps [e] ps1"
    using step_lossy [OF Cons.prems] by blast
  obtain es c' ps' where 2: "store_run get set_key delete clear ops c1 = Some (es, c')" "rep c' ps'" "map event_op es = ops" "lossy ps1 es ps'"
    using Cons.IH [OF 1(2)] by blast
  have "store_run get set_key delete clear (p # ops) c = Some (e # es, c')" using 1(1) 2(1) by (subst store_run_Cons) simp
  then show ?case using lossy_append [OF 1(4) 2(4)] 1(3) 2(2,3) by (intro exI [of _ "e # es"] exI [of _ c'] exI [of _ ps']) simp
qed (auto intro: lossy_nil)

lemma run_sound:
  "rep c ps \<Longrightarrow> map_of ps \<subseteq>\<^sub>m m \<Longrightarrow>
   \<exists>es c' ps'. store_run get set_key delete clear ops c = Some (es, c') \<and> rep c' ps' \<and> map event_op es = ops \<and> trace_sound m es"
  using run_lossy [of c ps ops] lossy_sound rep_keys by blast

end

section \<open>The hash table is a lossy store\<close>

definition cache_rep :: "shmcache_context \<Rightarrow> (bytes \<times> shmcache_value_info) list \<Rightarrow> bool" where
  "cache_rep c ps \<longleftrightarrow> (\<exists>L. full_inv c L \<and> align_ok (sc_fastcommon c) \<and> ps = entry_pairs c L)"

text \<open>A read without the expiry test, and clearing without its count.\<close>

definition ht_read :: "shmcache_context \<Rightarrow> bytes \<Rightarrow> (shmcache_value_info option \<times> shmcache_context) option" where
  "ht_read c key = map_option snd (shm_ht_get c key)"

definition ht_empty :: "shmcache_context \<Rightarrow> shmcache_context option" where
  "ht_empty c = Some (snd (shm_ht_clear c))"

lemma entry_pairs_distinct: "cache_inv c L \<Longrightarrow> distinct (map fst (entry_pairs c L))"
  using core_invD(6) [of c L "[]"] by (simp add: cache_inv_def ht_ok_def entry_pairs_def distinct_map comp_def)

lemma ht_delete_map:
  assumes "cache_inv c L"
  obtains c' where "shm_ht_delete c key = Some (if key \<in> fst ` set (entry_pairs c L) then 0 else ENOENT, c')"
    "cache_inv c' (filter (\<lambda>m. he_key (entry c m) \<noteq> key) L)" "ht_frame c c'"
    "entry_pairs c' (filter (\<lambda>m. he_key (entry c m) \<noteq> key) L) = filter (\<lambda>p. fst p \<noteq> key) (entry_pairs c L)"
proof -
  have inv: "core_inv c L []" "ht_ok c L" using assms by (simp_all add: cache_inv_def)
  obtain r c' where d: "shm_ht_delete_ex c key False = Some (if key \<in> fst ` set (entry_pairs c L) then 0 else ENOENT, r, c')"
    "core_inv c' (filter (\<lambda>m. he_key (entry c m) \<noteq> key) L) []" "ht_ok c' (filter (\<lambda>m. he_key (entry c m) \<noteq> key) L)" "ht_frame c c'"
    "\<And>m. m \<in> set (filter (\<lambda>m. he_key (entry c m) \<noteq> key) L @ []) \<Longrightarrow> payload (entry c' m) = payload (entry c m)"
    using ht_delete_ex [OF inv, of key False] by metis
  have "entry_pairs c' (filter (\<lambda>m. he_key (entry c m) \<noteq> key) L) = filter (\<lambda>p. fst p \<noteq> key) (entry_pairs c L)"
    by (rule entry_pairs_filter) (use d(5) in simp)
  then show thesis using that [of c'] d(1-4) by (simp add: shm_ht_delete_def cache_inv_def)
qed

lemma ht_get_read:
  assumes "full_inv c L"
  shows "\<exists>c'. ht_read c key = Some (map_of (entry_pairs c L) key, c') \<and> full_inv c' L \<and> entry_pairs c' L = entry_pairs c L
    \<and> sc_fastcommon c' = sc_fastcommon c"
proof -
  have inv: "cache_inv c L" using assms by (simp add: full_inv_def)
  let ?c1 = "snd (get_current_time c)"
  have b: "bookkeeping c ?c1" by (rule bookkeeping_sys)
  have "full_inv ?c1 L \<and> entry_pairs ?c1 L = entry_pairs c L \<and> sc_fastcommon ?c1 = sc_fastcommon c"
    using full_inv_bookkeeping [OF assms b] bookkeeping_kept(2) [OF b] fixed_fields(2) [OF fixed_bookkeeping [OF b]] by simp
  then show ?thesis
    using assms ht_get_map [OF inv, of key]
    by (cases "cache_map c L key") (auto simp: ht_read_def cache_map_def case_prod_unfold Let_def split: if_splits)
qed

interpretation ht: lossy_store cache_rep ht_read shm_ht_set shm_ht_delete ht_empty
proof
  fix c ps k v
  assume rep: "cache_rep c ps"
  then obtain L where L: "full_inv c L" "align_ok (sc_fastcommon c)" "ps = entry_pairs c L" by (auto simp: cache_rep_def)
  have inv: "cache_inv c L" using L(1) by (simp add: full_inv_def)
  show "distinct (map fst ps)" using entry_pairs_distinct [OF inv] L(3) by simp
  show "\<exists>c'. ht_read c k = Some (map_of ps k, c') \<and> cache_rep c' ps"
    using ht_get_read [OF L(1), of k] L(2,3) unfolding cache_rep_def by metis
  show "\<exists>r c' ps'. shm_ht_set c k v = Some (r, c') \<and> cache_rep c' ps'
      \<and> (if r = 0 then \<exists>qs. subseq qs (filter (\<lambda>p. fst p \<noteq> k) ps) \<and> ps' = qs @ [(k, v)] else subseq ps' ps)"
  proof -
    obtain r c' L' where s: "shm_ht_set c k v = Some (r, c')" "set_post c L k v r c' L'" by (rule ht_set_total [OF L(1,2)])
    then have "cache_rep c' (entry_pairs c' L')" using L(2) by (auto simp: cache_rep_def set_post_def fixed_fields)
    moreover have "if r = 0 then \<exists>qs. subseq qs (filter (\<lambda>p. fst p \<noteq> k) ps) \<and> entry_pairs c' L' = qs @ [(k, v)]
        else subseq (entry_pairs c' L') ps"
      using s(2) L(3) by (auto simp: set_post_def thinned_def)
    ultimately show ?thesis using s(1) by blast
  qed
  show "\<exists>r c'. shm_ht_delete c k = Some (r, c') \<and> cache_rep c' (filter (\<lambda>p. fst p \<noteq> k) ps)"
  proof -
    obtain c' where d: "shm_ht_delete c k = Some (if k \<in> fst ` set (entry_pairs c L) then 0 else ENOENT, c')"
      "cache_inv c' (filter (\<lambda>m. he_key (entry c m) \<noteq> k) L)" "ht_frame c c'"
      "entry_pairs c' (filter (\<lambda>m. he_key (entry c m) \<noteq> k) L) = filter (\<lambda>p. fst p \<noteq> k) (entry_pairs c L)"
      by (rule ht_delete_map [OF inv])
    have st: "stable c c'" by (rule stable_ht_frame [OF d(3)])
    have "cache_rep c' (filter (\<lambda>p. fst p \<noteq> k) ps)"
      unfolding cache_rep_def using full_inv_stable [OF L(1) st d(2)] L(2,3) d(4) st by (auto simp: stable_def)
    then show ?thesis using d(1) by blast
  qed
  show "\<exists>c'. ht_empty c = Some c' \<and> cache_rep c' []"
    using clear_inv [OF L(1)] L(2) by (auto simp: ht_empty_def cache_rep_def entry_pairs_def stable_def)
qed

end
