(* ===== verification/ApiCorrect.thy ===== *)
theory ApiCorrect
  imports CacheStore ShmCache
begin

text \<open>
  The public operations around the hash table: taking and releasing the lock changes the statistics,
  the recorded pid and the system call history only, so the contract of the hash table carries over.
  The recovery from a dead holder, as \<^verbatim>\<open>shm_lock\<close> runs it, ends and leaves an empty cache.
\<close>

section \<open>What locking changes\<close>

definition locking :: "shmcache_context \<Rightarrow> shmcache_context \<Rightarrow> bool" where
  "locking c c' \<longleftrightarrow> (\<exists>s p f h. c' = c\<lparr>sc_lock_fd := f, sc_memory := (sc_memory c)\<lparr>mi_stats := s, mi_lock_pid := p\<rparr>,
     sc_env := (sc_env c)\<lparr>env_history := h\<rparr>\<rparr>)"

lemma lockingI:
  "c' = c\<lparr>sc_lock_fd := f, sc_memory := (sc_memory c)\<lparr>mi_stats := s, mi_lock_pid := p\<rparr>,
     sc_env := (sc_env c)\<lparr>env_history := h\<rparr>\<rparr> \<Longrightarrow> locking c c'"
  unfolding locking_def by blast

lemma lockingE:
  assumes "locking c c'"
  obtains s p f h where "c' = c\<lparr>sc_lock_fd := f, sc_memory := (sc_memory c)\<lparr>mi_stats := s, mi_lock_pid := p\<rparr>,
     sc_env := (sc_env c)\<lparr>env_history := h\<rparr>\<rparr>"
  using assms unfolding locking_def by blast

lemma locking_trans:
  assumes "locking c c1" and "locking c1 c2"
  shows "locking c c2"
proof -
  obtain s p f h where 1: "c1 = c\<lparr>sc_lock_fd := f, sc_memory := (sc_memory c)\<lparr>mi_stats := s, mi_lock_pid := p\<rparr>,
     sc_env := (sc_env c)\<lparr>env_history := h\<rparr>\<rparr>" using assms(1) by (rule lockingE)
  obtain s' p' f' h' where 2: "c2 = c1\<lparr>sc_lock_fd := f', sc_memory := (sc_memory c1)\<lparr>mi_stats := s', mi_lock_pid := p'\<rparr>,
     sc_env := (sc_env c1)\<lparr>env_history := h'\<rparr>\<rparr>" using assms(2) by (rule lockingE)
  show ?thesis by (rule lockingI [where s = s' and p = p' and f = f' and h = h']) (simp add: 2 1)
qed

lemma locking_stats: "locking c (sc_memory_update (mi_stats_update g) c)"
  by (rule lockingI [where s = "g (mi_stats (sc_memory c))" and p = "mi_lock_pid (sc_memory c)" and f = "sc_lock_fd c"
        and h = "env_history (sc_env c)"]) simp

lemma locking_pid: "locking c (set_lock_pid p c)"
  by (rule lockingI [where s = "mi_stats (sc_memory c)" and p = p and f = "sc_lock_fd c" and h = "env_history (sc_env c)"])
    (simp add: set_lock_pid_def)

lemma locking_sys: "locking c (snd (sys r c))"
  by (rule lockingI [where s = "mi_stats (sc_memory c)" and p = "mi_lock_pid (sc_memory c)" and f = "sc_lock_fd c"
        and h = "env_history (sc_env c) @ [r]"]) (simp add: snd_sys sysval_def syscall_def)

lemma locking_fd: "locking c (c\<lparr>sc_lock_fd := f\<rparr>)"
  by (rule lockingI [where s = "mi_stats (sc_memory c)" and p = "mi_lock_pid (sc_memory c)" and f = f
        and h = "env_history (sc_env c)"]) simp

lemma locking_refl [simp]: "locking c c"
  using locking_fd [of c "sc_lock_fd c"] by simp

lemma locking_unlock: "locking c (snd (shm_unlock c))"
  unfolding shm_unlock_def by (rule locking_trans [OF locking_pid locking_sys])

lemma locking_kept:
  assumes "locking c c'"
  shows "cache_inv c L \<Longrightarrow> cache_inv c' L" and "entry_pairs c' L = entry_pairs c L" and "stable c c'"
    and "clearable c' = clearable c"
proof -
  obtain s p f h where c': "c' = c\<lparr>sc_lock_fd := f, sc_memory := (sc_memory c)\<lparr>mi_stats := s, mi_lock_pid := p\<rparr>,
     sc_env := (sc_env c)\<lparr>env_history := h\<rparr>\<rparr>" using assms by (rule lockingE)
  show "cache_inv c' L" if "cache_inv c L" by (rule cache_inv_same [OF that]) (simp_all add: c')
  show "entry_pairs c' L = entry_pairs c L" by (rule entry_pairs_same) (simp add: c')
  show "stable c c'" by (simp add: stable_def c')
  show "clearable c' = clearable c" by (simp add: c' clearable_def ctx_ok_def segments_open_def allocs_ok_def)
qed

lemma full_inv_locking:
  assumes "full_inv c L" and "locking c c'"
  shows "full_inv c' L"
proof -
  have "cache_inv c L" using assms(1) by (simp add: full_inv_def)
  then show ?thesis by (rule full_inv_stable [OF assms(1) locking_kept(3,1) [OF assms(2)]])
qed

lemma locking_rep:
  assumes "locking c c'" and "cache_rep c ps"
  shows "cache_rep c' ps"
proof -
  obtain L where L: "full_inv c L" "align_ok (sc_fastcommon c)" "ps = entry_pairs c L"
    using assms(2) by (auto simp: cache_rep_def)
  have "sc_fastcommon c' = sc_fastcommon c" using locking_kept(3) [OF assms(1)] by (simp add: stable_def)
  then show ?thesis
    using full_inv_locking [OF L(1) assms(1)] L(2,3) locking_kept(2) [OF assms(1), of L] unfolding cache_rep_def by auto
qed

section \<open>The critical sections\<close>

text \<open>
  What a public operation does once it has the lock, whatever happened before: the contract of the table carries over
  to the entries that the process finds then.
\<close>

lemma locking_fixed: "locking c c' \<Longrightarrow> fixed c c'"
  by (rule fixed_stable [OF locking_kept(3)])

lemma rep_ht_set:
  assumes "cache_rep c ps"
  obtains r c' ps' where "shm_ht_set c k v = Some (r, c')" "cache_rep c' ps'" "fixed c c'"
    "if r = 0 then \<exists>qs. subseq qs (filter (\<lambda>p. fst p \<noteq> k) ps) \<and> ps' = qs @ [(k, v)] else subseq ps' ps"
proof -
  obtain L where L: "full_inv c L" "align_ok (sc_fastcommon c)" "ps = entry_pairs c L"
    using assms by (auto simp: cache_rep_def)
  obtain r c' L' where s: "shm_ht_set c k v = Some (r, c')" "set_post c L k v r c' L'" by (rule ht_set_total [OF L(1,2)])
  then have "cache_rep c' (entry_pairs c' L')" "fixed c c'" using L(2) by (auto simp: cache_rep_def set_post_def fixed_fields)
  moreover have "if r = 0 then \<exists>qs. subseq qs (filter (\<lambda>p. fst p \<noteq> k) ps) \<and> entry_pairs c' L' = qs @ [(k, v)]
        else subseq (entry_pairs c' L') ps"
    using s(2) L(3) by (auto simp: set_post_def thinned_def)
  ultimately show thesis using that s(1) by blast
qed

lemma locked_set_ex:
  assumes "shm_lock others c = Some (0, c1)" and "cache_rep c1 ps"
  obtains r c' ps' where "shmcache_set_ex others c k v = Some (r, c')" "cache_rep c' ps'" "fixed c1 c'"
    "if r = 0 then \<exists>qs. subseq qs (filter (\<lambda>p. fst p \<noteq> k) ps) \<and> ps' = qs @ [(k, v)] else subseq ps' ps"
proof -
  define c2 where "c2 = lock_stats (st_set_update count_total) c1"
  have 2: "cache_rep c2 ps" "fixed c1 c2" unfolding c2_def using locking_rep [OF locking_stats assms(2)] locking_fixed [OF locking_stats] by auto
  then obtain r c3 ps' where 3: "shm_ht_set c2 k v = Some (r, c3)" "cache_rep c3 ps'" "fixed c2 c3"
    "if r = 0 then \<exists>qs. subseq qs (filter (\<lambda>p. fst p \<noteq> k) ps) \<and> ps' = qs @ [(k, v)] else subseq ps' ps"
    by (metis rep_ht_set)
  let ?c4 = "snd (shm_unlock (lock_stats (st_set_update (count_result r)) c3))"
  have l4: "locking c3 ?c4" by (rule locking_trans [OF locking_stats locking_unlock])
  have "shmcache_set_ex others c k v = Some (r, ?c4)"
    using assms(1) 3(1) by (simp add: shmcache_set_ex_def Let_def flip: c2_def)
  then show thesis
    using that locking_rep [OF l4 3(2)] fixed_trans [OF fixed_trans [OF 2(2) 3(3)] locking_fixed [OF l4]] 3(4) by blast
qed

lemma rep_ht_delete:
  assumes "cache_rep c ps"
  obtains c' where "shm_ht_delete c k = Some (if k \<in> fst ` set ps then 0 else ENOENT, c')"
    "cache_rep c' (filter (\<lambda>p. fst p \<noteq> k) ps)" "fixed c c'"
proof -
  obtain L where L: "full_inv c L" "align_ok (sc_fastcommon c)" "ps = entry_pairs c L" using assms by (auto simp: cache_rep_def)
  have "cache_inv c L" using L(1) by (simp add: full_inv_def)
  then obtain c' where d: "shm_ht_delete c k = Some (if k \<in> fst ` set (entry_pairs c L) then 0 else ENOENT, c')"
    "cache_inv c' (filter (\<lambda>m. he_key (entry c m) \<noteq> k) L)" "ht_frame c c'"
    "entry_pairs c' (filter (\<lambda>m. he_key (entry c m) \<noteq> k) L) = filter (\<lambda>p. fst p \<noteq> k) (entry_pairs c L)"
    by (rule ht_delete_map)
  have st: "stable c c'" by (rule stable_ht_frame [OF d(3)])
  have "cache_rep c' (filter (\<lambda>p. fst p \<noteq> k) ps)"
    unfolding cache_rep_def using full_inv_stable [OF L(1) st d(2)] L(2,3) d(4) st by (auto simp: stable_def)
  then show thesis using that d(1) L(3) fixed_stable [OF st] by blast
qed

lemma locked_delete:
  assumes "shm_lock others c = Some (0, c1)" and "cache_rep c1 ps"
  obtains c' where "shmcache_delete others c k = Some (if k \<in> fst ` set ps then 0 else ENOENT, c')"
    "cache_rep c' (filter (\<lambda>p. fst p \<noteq> k) ps)" "fixed c1 c'"
proof -
  define c2 where "c2 = lock_stats (st_del_update count_total) c1"
  have 2: "cache_rep c2 ps" "fixed c1 c2" unfolding c2_def using locking_rep [OF locking_stats assms(2)] locking_fixed [OF locking_stats] by auto
  let ?r = "if k \<in> fst ` set ps then 0 else ENOENT"
  obtain c3 where 3: "shm_ht_delete c2 k = Some (?r, c3)" "cache_rep c3 (filter (\<lambda>p. fst p \<noteq> k) ps)" "fixed c2 c3"
    using 2(1) by (rule rep_ht_delete)
  let ?c4 = "snd (shm_unlock (lock_stats (st_del_update (count_result ?r)) c3))"
  have l4: "locking c3 ?c4" by (rule locking_trans [OF locking_stats locking_unlock])
  have "shmcache_delete others c k = Some (?r, ?c4)"
    using assms(1) 3(1) by (simp add: shmcache_delete_def Let_def flip: c2_def)
  then show thesis
    using that locking_rep [OF l4 3(2)] fixed_trans [OF fixed_trans [OF 2(2) 3(3)] locking_fixed [OF l4]] by blast
qed

text \<open>What the result of a read says about the entry.\<close>

definition get_result :: "shmcache_value_info option \<Rightarrow> int \<Rightarrow> bool" where
  "get_result x r \<longleftrightarrow> (case x of None \<Rightarrow> r = ENOENT | Some v \<Rightarrow> r \<in> {0, ETIMEDOUT} \<and> (vi_expires v = 0 \<longrightarrow> r = 0))"

lemma rep_ht_get:
  assumes "cache_rep c ps"
  obtains r c' where "shm_ht_get c k = Some (r, map_of ps k, c')" "cache_rep c' ps" "fixed c c'" "get_result (map_of ps k) r"
proof -
  obtain L where L: "full_inv c L" "align_ok (sc_fastcommon c)" "ps = entry_pairs c L"
    using assms by (auto simp: cache_rep_def)
  have inv: "cache_inv c L" using L(1) by (simp add: full_inv_def)
  have "cache_rep (snd (get_current_time c)) ps" "fixed c (snd (get_current_time c))"
    using locking_rep [OF locking_sys assms] locking_fixed [OF locking_sys] by auto
  then show thesis
    using that assms ht_get_map [OF inv, of k] L(3)
    by (cases "map_of ps k") (auto simp: cache_map_def get_result_def case_prod_unfold Let_def split: if_splits)
qed

text \<open>The read of the table together with its counters, in or out of the lock.\<close>

lemma counted_get:
  assumes "cache_rep c ps"
  obtains r c1 where "shm_ht_get (lock_stats (st_get_update count_total) c) k = Some (r, map_of ps k, c1)"
    "get_result (map_of ps k) r" "\<And>c2. locking (lock_stats (st_get_update (count_result r)) c1) c2 \<Longrightarrow> cache_rep c2 ps \<and> fixed c c2"
proof -
  have 1: "cache_rep (lock_stats (st_get_update count_total) c) ps" by (rule locking_rep [OF locking_stats assms])
  obtain r c1 where g: "shm_ht_get (lock_stats (st_get_update count_total) c) k = Some (r, map_of ps k, c1)" "cache_rep c1 ps"
    "fixed (lock_stats (st_get_update count_total) c) c1" "get_result (map_of ps k) r" using 1 by (rule rep_ht_get)
  have "cache_rep c2 ps \<and> fixed c c2" if "locking (lock_stats (st_get_update (count_result r)) c1) c2" for c2
  proof -
    have l: "locking c1 c2" by (rule locking_trans [OF locking_stats that])
    show ?thesis
      using locking_rep [OF l g(2)] fixed_trans [OF fixed_trans [OF locking_fixed [OF locking_stats] g(3)] locking_fixed [OF l]] by blast
  qed
  then show thesis using that g(1,4) by blast
qed

lemma locked_get:
  assumes "cfg_read_within_lock (sc_config c)" and "shm_lock others c = Some (0, c1)" and "cache_rep c1 ps"
  obtains r c' where "shmcache_get others c k = Some (r, map_of ps k, c')" "cache_rep c' ps" "fixed c1 c'" "get_result (map_of ps k) r"
proof -
  obtain r c2 where 2: "shm_ht_get (lock_stats (st_get_update count_total) c1) k = Some (r, map_of ps k, c2)"
    "get_result (map_of ps k) r" "\<And>c'. locking (lock_stats (st_get_update (count_result r)) c2) c' \<Longrightarrow> cache_rep c' ps \<and> fixed c1 c'"
    using assms(3) by (rule counted_get) blast
  let ?c3 = "snd (shm_unlock (lock_stats (st_get_update (count_result r)) c2))"
  have "shmcache_get others c k = Some (r, map_of ps k, ?c3)" using assms(1,2) 2(1) by (simp add: shmcache_get_def Let_def)
  then show thesis using that 2(2,3) locking_unlock by blast
qed

lemma unlocked_get:
  assumes "\<not> cfg_read_within_lock (sc_config c)" and "cache_rep c ps"
  obtains r c' where "shmcache_get others c k = Some (r, map_of ps k, c')" "cache_rep c' ps" "fixed c c'" "get_result (map_of ps k) r"
proof -
  obtain r c2 where 2: "shm_ht_get (lock_stats (st_get_update count_total) c) k = Some (r, map_of ps k, c2)"
    "get_result (map_of ps k) r" "\<And>c'. locking (lock_stats (st_get_update (count_result r)) c2) c' \<Longrightarrow> cache_rep c' ps \<and> fixed c c'"
    using assms(2) by (rule counted_get) blast
  have "shmcache_get others c k = Some (r, map_of ps k, lock_stats (st_get_update (count_result r)) c2)"
    using assms(1) 2(1) by (simp add: shmcache_get_def Let_def)
  then show thesis using that 2(2,3) locking_refl by blast
qed

lemma rep_ht_clear:
  assumes "cache_rep c ps"
  shows "cache_rep (snd (shm_ht_clear c)) []" and "fixed c (snd (shm_ht_clear c))"
proof -
  obtain L where L: "full_inv c L" "align_ok (sc_fastcommon c)" using assms by (auto simp: cache_rep_def)
  have "full_inv (snd (shm_ht_clear c)) []" and st: "stable c (snd (shm_ht_clear c))" using clear_inv [OF L(1)] by simp_all
  then show "cache_rep (snd (shm_ht_clear c)) []" using L(2) by (auto simp: cache_rep_def entry_pairs_def stable_def)
  show "fixed c (snd (shm_ht_clear c))" by (rule fixed_stable [OF st])
qed

lemma locked_clear:
  assumes "shm_lock others c = Some (0, c1)" and "cache_rep c1 ps"
  obtains c' where "shmcache_clear others c = Some (0, c')" "cache_rep c' []" "fixed c1 c'"
proof -
  obtain n c2 where cl: "shm_ht_clear c1 = (n, c2)" by (metis surj_pair)
  have 2: "cache_rep c2 []" "fixed c1 c2" using rep_ht_clear [OF assms(2)] cl by simp_all
  define c3 where "c3 = (if n > 0 then recycle_sleep c2 else c2)"
  have "locking c2 c3" by (simp add: c3_def recycle_sleep_def locking_sys)
  then have l: "locking c2 (snd (shm_unlock c3))" by (rule locking_trans [OF _ locking_unlock])
  have "shmcache_clear others c = Some (0, snd (shm_unlock c3))"
    using assms(1) cl by (simp add: shmcache_clear_def Let_def c3_def)
  then show thesis using that locking_rep [OF l 2(1)] fixed_trans [OF 2(2) locking_fixed [OF l]] by blast
qed

section \<open>An uncontended lock\<close>

text \<open>The hypothesis on the platform for one process at work: \<^verbatim>\<open>trylock\<close> succeeds.\<close>

definition trylock_ok :: "env \<Rightarrow> bool" where
  "trylock_ok e \<longleftrightarrow> (\<forall>h. fst (env_sys e h Sys_pthread_mutex_trylock) = 0)"

lemma shm_lock_uncontended:
  assumes "trylock_ok (sc_env c)"
  obtains c' where "shm_lock others c = Some (0, c')" "locking c c'" "mi_lock_pid (sc_memory c') = sc_pid c"
proof -
  define c1 where "c1 = sc_memory_update (mi_stats_update (st_lock_total_update (\<lambda>n. n + 1))) c"
  obtain r c2 where q: "sys Sys_pthread_mutex_trylock c1 = (r, c2)" by (metis surj_pair)
  have "r = 0" using q assms by (auto simp: sys_def sysval_def syscall_def c1_def trylock_ok_def)
  then have run: "shm_lock others c = Some (0, set_lock_pid (sc_pid c2) c2)"
    using q by (simp add: shm_lock_def c1_def [symmetric]) (subst lock_loop.simps, simp)
  have l2: "locking c c2" using locking_trans [OF locking_stats locking_sys] q unfolding c1_def by (metis snd_conv)
  then have "sc_pid c2 = sc_pid c" by (auto elim!: lockingE)
  then show thesis
    using that [OF run locking_trans [OF l2 locking_pid]] by (simp add: set_lock_pid_def)
qed

section \<open>The public operations are a lossy store\<close>

definition api_rep :: "shmcache_context \<Rightarrow> (bytes \<times> shmcache_value_info) list \<Rightarrow> bool" where
  "api_rep c ps \<longleftrightarrow> cache_rep c ps \<and> trylock_ok (sc_env c)"

text \<open>The value stored by a read, whatever its result, and clearing without its result.\<close>

definition api_read :: "interference \<Rightarrow> shmcache_context \<Rightarrow> bytes \<Rightarrow> (shmcache_value_info option \<times> shmcache_context) option" where
  "api_read others c key = map_option snd (shmcache_get others c key)"

definition api_clear :: "interference \<Rightarrow> shmcache_context \<Rightarrow> shmcache_context option" where
  "api_clear others c = map_option snd (shmcache_clear others c)"

lemma locking_api: "locking c c' \<Longrightarrow> api_rep c ps \<Longrightarrow> api_rep c' ps"
  using locking_rep locking_kept(3) [of c c'] by (simp add: api_rep_def stable_def trylock_ok_def)

lemma api_rep_fixed: "api_rep c ps \<Longrightarrow> fixed c c' \<Longrightarrow> cache_rep c' ps' \<Longrightarrow> api_rep c' ps'"
  by (simp add: api_rep_def fixed_def trylock_ok_def)

lemma api_rep_cache: "api_rep c ps \<Longrightarrow> cache_rep c ps"
  by (simp add: api_rep_def)

lemma api_lock:
  assumes "api_rep c ps"
  obtains c' where "shm_lock others c = Some (0, c')" "api_rep c' ps"
proof -
  obtain c' where "shm_lock others c = Some (0, c')" "locking c c'"
    by (rule shm_lock_uncontended [where c = c and others = others]) (use assms in \<open>simp add: api_rep_def\<close>)
  then show thesis using that locking_api [OF _ assms] by blast
qed

lemma api_ht_set:
  assumes "api_rep c ps"
  obtains r c' ps' where "shm_ht_set c k v = Some (r, c')" "api_rep c' ps'"
    "if r = 0 then \<exists>qs. subseq qs (filter (\<lambda>p. fst p \<noteq> k) ps) \<and> ps' = qs @ [(k, v)] else subseq ps' ps"
  using rep_ht_set [OF api_rep_cache [OF assms]] api_rep_fixed [OF assms] by metis

lemma api_set_ex:
  assumes "api_rep c ps"
  obtains r c' ps' where "shmcache_set_ex others c k v = Some (r, c')" "api_rep c' ps'"
    "if r = 0 then \<exists>qs. subseq qs (filter (\<lambda>p. fst p \<noteq> k) ps) \<and> ps' = qs @ [(k, v)] else subseq ps' ps"
proof -
  obtain c1 where 1: "shm_lock others c = Some (0, c1)" "api_rep c1 ps" using assms by (rule api_lock)
  show thesis using locked_set_ex [OF 1(1) api_rep_cache [OF 1(2)]] api_rep_fixed [OF 1(2)] that by metis
qed

lemma api_delete:
  assumes "api_rep c ps"
  obtains c' where "shmcache_delete others c k = Some (if k \<in> fst ` set ps then 0 else ENOENT, c')"
    "api_rep c' (filter (\<lambda>p. fst p \<noteq> k) ps)"
proof -
  obtain c1 where 1: "shm_lock others c = Some (0, c1)" "api_rep c1 ps" using assms by (rule api_lock)
  show thesis using locked_delete [OF 1(1) api_rep_cache [OF 1(2)]] api_rep_fixed [OF 1(2)] that by metis
qed

lemma api_ht_get_result:
  assumes "api_rep c ps"
  obtains r c' where "shm_ht_get c k = Some (r, map_of ps k, c')" "api_rep c' ps" "get_result (map_of ps k) r"
  using rep_ht_get [OF api_rep_cache [OF assms]] api_rep_fixed [OF assms] by metis

lemma api_ht_get:
  assumes "api_rep c ps"
  obtains r c' where "shm_ht_get c k = Some (r, map_of ps k, c')" "api_rep c' ps"
  using api_ht_get_result [OF assms] by metis

lemma api_get_result:
  assumes "api_rep c ps"
  obtains r c' where "shmcache_get others c k = Some (r, map_of ps k, c')" "api_rep c' ps" "get_result (map_of ps k) r"
proof (cases "cfg_read_within_lock (sc_config c)")
  case True
  obtain c1 where 1: "shm_lock others c = Some (0, c1)" "api_rep c1 ps" using assms by (rule api_lock)
  show thesis using locked_get [OF True 1(1) api_rep_cache [OF 1(2)]] api_rep_fixed [OF 1(2)] that by metis
next
  case False
  show thesis using unlocked_get [OF False api_rep_cache [OF assms]] api_rep_fixed [OF assms] that by metis
qed

lemma api_get:
  assumes "api_rep c ps"
  obtains r c' where "shmcache_get others c k = Some (r, map_of ps k, c')" "api_rep c' ps"
  using api_get_result [OF assms] by metis

lemma api_clear:
  assumes "api_rep c ps"
  obtains c' where "shmcache_clear others c = Some (0, c')" "api_rep c' []"
proof -
  obtain c1 where 1: "shm_lock others c = Some (0, c1)" "api_rep c1 ps" using assms by (rule api_lock)
  show thesis using locked_clear [OF 1(1) api_rep_cache [OF 1(2)]] api_rep_fixed [OF 1(2)] that by metis
qed

lemma api_lossy_store:
  "lossy_store api_rep (api_read others) (shmcache_set_ex others) (shmcache_delete others) (api_clear others)"
proof
  fix c ps k v
  assume rep: "api_rep c ps"
  show "distinct (map fst ps)" using ht.rep_keys [of c ps] rep by (simp add: api_rep_def)
  show "\<exists>c'. api_read others c k = Some (map_of ps k, c') \<and> api_rep c' ps"
    using api_get [OF rep, of others k] unfolding api_read_def by (metis option.simps(9) snd_conv)
  show "\<exists>r c' ps'. shmcache_set_ex others c k v = Some (r, c') \<and> api_rep c' ps'
      \<and> (if r = 0 then \<exists>qs. subseq qs (filter (\<lambda>p. fst p \<noteq> k) ps) \<and> ps' = qs @ [(k, v)] else subseq ps' ps)"
    using api_set_ex [OF rep, of others k v] by metis
  show "\<exists>r c'. shmcache_delete others c k = Some (r, c') \<and> api_rep c' (filter (\<lambda>p. fst p \<noteq> k) ps)"
    using api_delete [OF rep, of others k] by metis
  show "\<exists>c'. api_clear others c = Some c' \<and> api_rep c' []"
    using api_clear [OF rep, of others] unfolding api_clear_def by (metis option.simps(9) snd_conv)
qed

interpretation api: lossy_store api_rep "api_read others" "shmcache_set_ex others" "shmcache_delete others" "api_clear others"
  for others by (rule api_lossy_store)

section \<open>Recovery from a dead holder\<close>

text \<open>The platform as a process sees it whose lock holder is gone: the mutex is busy until it is unlocked,
  the holder does not exist any more, and the file can be locked.\<close>

definition holder_gone :: "env \<Rightarrow> bool" where
  "holder_gone e \<longleftrightarrow>
     (\<forall>h. fst (env_sys e h Sys_pthread_mutex_trylock) = (if Sys_pthread_mutex_unlock \<in> set h then 0 else EBUSY))
   \<and> (\<forall>h pid. fst (env_sys e h (Sys_kill pid)) \<noteq> 0 \<and> snd (env_sys e h (Sys_kill pid)) = ESRCH)
   \<and> (\<forall>h name. 0 \<le> fst (env_sys e h (Sys_open_lock name)))
   \<and> (\<forall>h fd. fst (env_sys e h (Sys_file_write_lock fd)) = 0)
   \<and> (\<forall>h. fst (env_sys e h Sys_pthread_mutex_unlock) = 0)"

lemma fst_sys: "fst (sys r c) = fst (env_sys (sc_env c) (env_history (sc_env c)) r)"
  by (simp add: sys_def sysval_def syscall_def)

lemma locking_lock_file:
  assumes "holder_gone (sc_env c)"
  obtains c' where "shm_lock_file (\<lambda>c. c) c = (0, c')" "locking c c'" "mi_lock_pid (sc_memory c') = mi_lock_pid (sc_memory c)"
proof -
  define c1 where "c1 = (if sc_lock_fd c > 0 then snd (sys (Sys_close (sc_lock_fd c)) c) else c)"
  have l1: "locking c c1" by (simp add: c1_def locking_sys)
  have p1: "mi_lock_pid (sc_memory c1) = mi_lock_pid (sc_memory c)" "env_sys (sc_env c1) = env_sys (sc_env c)"
    by (simp_all add: c1_def snd_sys)
  let ?q = "Sys_open_lock (cfg_filename (sc_config c1))"
  obtain fd err e where q: "syscall ?q (sc_env c1) = ((fd, err), e)" by (metis surj_pair)
  have fd: "0 \<le> fd" "e = (sc_env c1)\<lparr>env_history := env_history (sc_env c1) @ [?q]\<rparr>"
    using q assms p1(2) by (auto simp: syscall_def holder_gone_def) (metis fst_conv)
  define c2 where "c2 = c1\<lparr>sc_lock_fd := fd, sc_env := e\<rparr>"
  have l2: "locking c1 c2"
    by (rule lockingI [where s = "mi_stats (sc_memory c1)" and p = "mi_lock_pid (sc_memory c1)" and f = fd
          and h = "env_history (sc_env c1) @ [?q]"]) (simp add: c2_def fd(2))
  obtain r c3 where w: "sys (Sys_file_write_lock fd) c2 = (r, c3)" by (metis surj_pair)
  have "r = 0" using w assms p1(2) fst_sys [of "Sys_file_write_lock fd" c2] by (simp add: c2_def fd(2) holder_gone_def)
  moreover have "c3 = snd (sys (Sys_file_write_lock fd) c2)" using w by simp
  moreover have "shm_lock_file (\<lambda>c. c) c = (r, c3)"
    using q w fd(1) \<open>r = 0\<close> unfolding shm_lock_file_def c1_def [symmetric] c2_def by (simp add: Let_def)
  ultimately show thesis
    using that [of c3] locking_trans [OF locking_trans [OF l1 l2] locking_sys] p1(1) by (simp add: snd_sys c2_def)
qed

lemma cleared_fields:
  assumes "clearable c"
  shows "sc_pid (snd (shm_ht_clear c)) = sc_pid c" and "env_sys (sc_env (snd (shm_ht_clear c))) = env_sys (sc_env c)"
    and "sc_lock_fd (snd (shm_ht_clear c)) = sc_lock_fd c"
  using assms by (simp_all add: ht_clear_eq cleared_def clearable_def allocs_ok_def snd_sys)

lemma locking_pid_kept: "locking c c' \<Longrightarrow> sc_pid c' = sc_pid c \<and> env_sys (sc_env c') = env_sys (sc_env c)"
  by (auto elim!: lockingE)

lemma sys_history: "env_history (sc_env (snd (sys r c))) = env_history (sc_env c) @ [r]"
  by (simp add: snd_sys sysval_def)

lemma detect_deadlock:
  assumes "holder_gone (sc_env c)" and "clearable c" and "mi_lock_pid (sc_memory c) = pid"
  obtains c' where "shm_detect_deadlock (\<lambda>c. c) c pid = (0, c')" "cache_inv c' []" "sc_pid c' = sc_pid c"
    "holder_gone (sc_env c')" "Sys_pthread_mutex_unlock \<in> set (env_history (sc_env c'))"
proof -
  obtain c1 where 1: "shm_lock_file (\<lambda>c. c) c = (0, c1)" "locking c c1" "mi_lock_pid (sc_memory c1) = mi_lock_pid (sc_memory c)"
    using assms(1) by (rule locking_lock_file)
  define c2 where "c2 = set_lock_pid 0 c1"
  have l2: "locking c c2" unfolding c2_def by (rule locking_trans [OF 1(2) locking_pid])
  have cl2: "clearable c2" using locking_kept(4) [OF l2] assms(2) by simp
  obtain n c3 where cl: "shm_ht_clear c2 = (n, c3)" by (metis surj_pair)
  have i3: "cache_inv c3 []" "sc_pid c3 = sc_pid c" "env_sys (sc_env c3) = env_sys (sc_env c)"
    using ht_clear(2) [OF cl2] cleared_fields [OF cl2] cl locking_pid_kept [OF l2] by simp_all
  define c4 where "c4 = (if n > 0 then recycle_sleep c3 else c3)"
  have l4: "locking c3 c4" by (simp add: c4_def recycle_sleep_def locking_sys)
  have e4: "env_sys (sc_env c4) = env_sys (sc_env c)" using locking_pid_kept [OF l4] i3(3) by simp
  obtain r c5 where u: "sys Sys_pthread_mutex_unlock c4 = (r, c5)" by (metis surj_pair)
  have "r = 0" using u assms(1) e4 fst_sys [of Sys_pthread_mutex_unlock c4] by (simp add: holder_gone_def)
  have h5: "Sys_pthread_mutex_unlock \<in> set (env_history (sc_env c5))" using u sys_history [of Sys_pthread_mutex_unlock c4] by simp
  have l5: "locking c4 c5" using u locking_sys [of c4 Sys_pthread_mutex_unlock] by simp
  define c6 where "c6 = lock_stats (st_lock_unlock_deadlock_update (\<lambda>n. n + 1)) c5"
  obtain t c7 where g: "get_current_time c6 = (t, c7)" by (metis surj_pair)
  define c8 where "c8 = lock_stats (st_lock_last_unlock_deadlock_time_update (\<lambda>_. t)) c7"
  have h8: "Sys_pthread_mutex_unlock \<in> set (env_history (sc_env c8))"
    using h5 sys_history [of Sys_get_current_time c6] g by (simp add: c8_def c6_def)
  have "locking c6 c7" using g locking_sys [of c6 Sys_get_current_time] by simp
  then have l8: "locking c3 c8"
    unfolding c8_def using locking_trans [OF locking_trans [OF l4 l5] locking_trans [OF _ locking_stats]]
      locking_trans [OF locking_stats] c6_def by metis
  let ?c9 = "shm_unlock_file c8"
  have l9: "locking c3 ?c9"
    unfolding shm_unlock_file_def using locking_trans [OF l8 locking_trans [OF locking_sys locking_fd]] .
  have "shm_detect_deadlock (\<lambda>c. c) c pid = (0, ?c9)"
    using 1(1,3) assms(3) cl u g \<open>r = 0\<close>
    unfolding shm_detect_deadlock_def by (simp add: Let_def flip: c2_def c4_def c6_def c8_def)
  moreover have "Sys_pthread_mutex_unlock \<in> set (env_history (sc_env ?c9))"
    using h8 sys_history [of "Sys_close (sc_lock_fd c8)" c8] by (simp add: shm_unlock_file_def)
  moreover have "cache_inv ?c9 []" by (rule locking_kept(1) [OF l9 i3(1)])
  moreover have "sc_pid ?c9 = sc_pid c" "holder_gone (sc_env ?c9)"
    using locking_pid_kept [OF l9] i3(2,3) assms(1) by (simp_all add: holder_gone_def)
  ultimately show thesis by (intro that)
qed

lemma lock_loop_unlocked:
  assumes "holder_gone (sc_env c)" and "Sys_pthread_mutex_unlock \<in> set (env_history (sc_env c))"
  shows "lock_loop others c clocks = Some (0, set_lock_pid (sc_pid c) (snd (sys Sys_pthread_mutex_trylock c)))"
proof -
  obtain r c1 where q: "sys Sys_pthread_mutex_trylock c = (r, c1)" by (metis surj_pair)
  have "r = 0" using q fst_sys [of Sys_pthread_mutex_trylock c] assms by (simp add: holder_gone_def)
  moreover have "sc_pid c1 = sc_pid c" using locking_pid_kept [OF locking_sys [of c Sys_pthread_mutex_trylock]] q by simp
  ultimately show ?thesis using q by (subst lock_loop.simps) simp
qed

definition waiting :: "shmcache_context \<Rightarrow> bool" where
  "waiting c \<longleftrightarrow> holder_gone (sc_env c) \<and> clearable c \<and> mi_lock_pid (sc_memory c) > 0
     \<and> Sys_pthread_mutex_unlock \<notin> set (env_history (sc_env c))"

lemma waiting_sys: "waiting c \<Longrightarrow> r \<noteq> Sys_pthread_mutex_unlock \<Longrightarrow> waiting (snd (sys r c))"
  using locking_kept(4) [OF locking_sys [of c r]] locking_pid_kept [OF locking_sys [of c r]]
  by (auto simp: waiting_def sys_history holder_gone_def) (simp add: snd_sys)

lemma waiting_stats: "waiting c \<Longrightarrow> waiting (lock_stats f c)"
  using locking_kept(4) [OF locking_stats [of c f]] by (simp add: waiting_def)

text \<open>One turn of the waiting loop: it waits on, or the dead holder is found and the cache is recovered.\<close>

lemma lock_retry:
  assumes "waiting c"
  obtains (wait) c' where "clocks + 1 \<le> sc_detect_deadlock_clocks c" "lock_retry (\<lambda>c. c) c clocks = (clocks + 1, c')" "waiting c'"
      "sc_pid c' = sc_pid c" "sc_detect_deadlock_clocks c' = sc_detect_deadlock_clocks c"
  | (recovered) c' where "lock_retry (\<lambda>c. c) c clocks = (0, c')" "cache_inv c' []" "sc_pid c' = sc_pid c"
      "holder_gone (sc_env c')" "Sys_pthread_mutex_unlock \<in> set (env_history (sc_env c'))"
proof -
  let ?u = "Sys_usleep (cfg_trylock_interval_us (sc_config c))"
  define c1 where "c1 = snd (sys ?u (lock_stats (st_lock_retry_update (\<lambda>n. n + 1)) c))"
  have w1: "waiting c1" unfolding c1_def by (rule waiting_sys [OF waiting_stats [OF assms]]) simp
  have f1: "sc_pid c1 = sc_pid c" "sc_detect_deadlock_clocks c1 = sc_detect_deadlock_clocks c"
    by (simp_all add: c1_def snd_sys)
  let ?pid = "mi_lock_pid (sc_memory c1)"
  have pid: "?pid > 0" using w1 by (simp add: waiting_def)
  show thesis
  proof (cases "clocks + 1 > sc_detect_deadlock_clocks c")
    case False
    then have "lock_retry (\<lambda>c. c) c clocks = (clocks + 1, c1)"
      using f1(2) by (simp add: lock_retry_def Let_def flip: c1_def)
    then show thesis using wait [of c1] False w1 f1 by simp
  next
    case True
    obtain r err e where k: "syscall (Sys_kill ?pid) (sc_env c1) = ((r, err), e)" by (metis surj_pair)
    define c2 where "c2 = c1\<lparr>sc_env := e\<rparr>"
    have "c2 = snd (sys (Sys_kill ?pid) c1)" using k by (simp add: c2_def snd_sys sysval_def)
    then have w2: "waiting c2" using waiting_sys [OF w1] by simp
    have r: "r \<noteq> 0" "err = ESRCH" using k w1 by (auto simp: syscall_def waiting_def holder_gone_def) (metis fst_conv snd_conv)+
    define c3 where "c3 = lock_stats (st_lock_detect_deadlock_update (\<lambda>n. n + 1)) c2"
    obtain t c4 where g: "get_current_time c3 = (t, c4)" by (metis surj_pair)
    have c4: "c4 = snd (sys Sys_get_current_time c3)" using g by simp
    define c5 where "c5 = lock_stats (st_lock_last_detect_deadlock_time_update (\<lambda>_. t)) c4"
    have w5: "waiting c5"
      unfolding c5_def c4 c3_def by (intro waiting_stats waiting_sys w2) simp
    have f5: "sc_pid c5 = sc_pid c" "mi_lock_pid (sc_memory c5) = ?pid"
      by (simp_all add: c5_def c4 c3_def c2_def f1 snd_sys)
    obtain c6 where d: "shm_detect_deadlock (\<lambda>c. c) c5 ?pid = (0, c6)" "cache_inv c6 []" "sc_pid c6 = sc_pid c5"
      "holder_gone (sc_env c6)" "Sys_pthread_mutex_unlock \<in> set (env_history (sc_env c6))"
      using w5 f5(2) detect_deadlock [of c5 ?pid] unfolding waiting_def by metis
    have "lock_retry (\<lambda>c. c) c clocks = (0, c6)"
      using True f1(2) pid k r g d(1)
      by (simp add: lock_retry_def Let_def flip: c1_def c2_def c3_def c5_def)
    then show thesis using recovered [of c6] d f5(1) by simp
  qed
qed

lemma lock_loop_recovers:
  assumes "waiting c"
  shows "\<exists>c'. lock_loop (\<lambda>c. c) c clocks = Some (0, c') \<and> cache_inv c' [] \<and> mi_lock_pid (sc_memory c') = sc_pid c"
  using assms
proof (induction "nat (sc_detect_deadlock_clocks c - clocks)" arbitrary: c clocks rule: less_induct)
  case less
  define c1 where "c1 = snd (sys Sys_pthread_mutex_trylock c)"
  have w1: "waiting c1" unfolding c1_def by (rule waiting_sys [OF less.prems]) simp
  have f1: "sc_pid c1 = sc_pid c" "sc_detect_deadlock_clocks c1 = sc_detect_deadlock_clocks c" by (simp_all add: c1_def snd_sys)
  have "fst (sys Sys_pthread_mutex_trylock c) = EBUSY"
    using less.prems fst_sys [of Sys_pthread_mutex_trylock c] by (simp add: waiting_def holder_gone_def)
  then have q: "sys Sys_pthread_mutex_trylock c = (EBUSY, c1)" by (metis c1_def prod.collapse)
  have run: "lock_loop (\<lambda>c. c) c clocks = (let (clocks, c) = lock_retry (\<lambda>c. c) c1 clocks in lock_loop (\<lambda>c. c) c clocks)"
    using q by (subst lock_loop.simps) simp
  from w1 show ?case
  proof (cases rule: lock_retry [where clocks = clocks])
    case (wait c')
    have "nat (sc_detect_deadlock_clocks c' - (clocks + 1)) < nat (sc_detect_deadlock_clocks c - clocks)"
      using wait(1,5) f1(2) by simp
    then show ?thesis using less.hyps [OF _ wait(3)] run wait(2,4) f1(1) by simp
  next
    case (recovered c')
    have "locking c' (set_lock_pid (sc_pid c') (snd (sys Sys_pthread_mutex_trylock c')))"
      by (rule locking_trans [OF locking_sys locking_pid])
    then have "cache_inv (set_lock_pid (sc_pid c') (snd (sys Sys_pthread_mutex_trylock c'))) []"
      by (rule locking_kept(1) [OF _ recovered(2)])
    then show ?thesis
      using run recovered(1,3) lock_loop_unlocked [OF recovered(4,5), of "\<lambda>c. c" 0] f1(1) by (simp add: set_lock_pid_def)
  qed
qed

end
