(* ===== verification/InitCorrect.thy ===== *)
theory InitCorrect
  imports ApiCorrect ShmInit
begin

text \<open>
  Initialisation: what the size computations guarantee, and that the first process that attaches to
  zeroed memory leaves an empty cache that satisfies the invariant.
\<close>

section \<open>Sizes\<close>

text \<open>A page size is a power of two; the alignment macro then rounds up to a multiple of it.\<close>

lemma mem_align_eq: "SHMCACE_MEM_ALIGN x (2 ^ k) = (x + (2 ^ k - 1)) div 2 ^ k * 2 ^ k"
proof -
  let ?y = "x + (2 ^ k - 1)"
  have "?y AND NOT (2 ^ k - 1) = ?y AND NOT (mask k)" by (simp add: mask_eq_exp_minus_1)
  also have "\<dots> = push_bit k (drop_bit k ?y)"
    by (rule bit_eqI) (auto simp: bit_simps not_le)
  also have "\<dots> = ?y div 2 ^ k * 2 ^ k" by (simp add: push_bit_eq_mult drop_bit_eq_div)
  finally show ?thesis by (simp add: SHMCACE_MEM_ALIGN_def)
qed

lemma mem_align_bounds:
  "x \<le> SHMCACE_MEM_ALIGN x (2 ^ k)" "SHMCACE_MEM_ALIGN x (2 ^ k) < x + 2 ^ k" "2 ^ k dvd SHMCACE_MEM_ALIGN x (2 ^ k)"
proof -
  have "SHMCACE_MEM_ALIGN x (2 ^ k) = (x + (2 ^ k - 1)) - (x + (2 ^ k - 1)) mod 2 ^ k"
    by (simp add: mem_align_eq minus_mod_eq_div_mult)
  moreover have "0 \<le> (x + (2 ^ k - 1)) mod 2 ^ k" "(x + (2 ^ k - 1)) mod 2 ^ k < 2 ^ k" by simp_all
  ultimately show "x \<le> SHMCACE_MEM_ALIGN x (2 ^ k)" "SHMCACE_MEM_ALIGN x (2 ^ k) < x + 2 ^ k" by linarith+
  show "2 ^ k dvd SHMCACE_MEM_ALIGN x (2 ^ k)" by (simp add: mem_align_eq)
qed

lemma striping_mb_count_values: "0 \<le> n \<Longrightarrow> n < 2 ^ 47 \<Longrightarrow> striping_mb_count n \<in> {1, 2, 4, 8}"
proof -
  assume n: "0 \<le> n" "n < 2 ^ 47"
  have "n div 134217728 < 2147483648" "0 \<le> n div 134217728" using n by simp_all
  then show ?thesis using n by (auto simp: striping_mb_count_def Let_def)
qed

text \<open>The hypothesis on the platform: pages of \<open>2 ^ k\<close> bytes.\<close>

definition pages_ok :: "nat \<Rightarrow> env \<Rightarrow> bool" where
  "pages_ok k e \<longleftrightarrow> (\<forall>h. fst (env_sys e h Sys_getpagesize) = 2 ^ k)"

lemma page_size: "pages_ok k (sc_env c) \<Longrightarrow> sys Sys_getpagesize c = (2 ^ k, snd (sys Sys_getpagesize c))"
  by (simp add: pages_ok_def sys_def sysval_def syscall_def)

lemma segment_count_size:
  assumes "pages_ok k (sc_env c)" and "0 < cfg_segment_size config" and "0 \<le> m" 
    and "m div SHMCACE_MEM_ALIGN (cfg_segment_size config) (2 ^ k) < 2 ^ 31"
    and "get_value_segment_count_size c config m = (segment, c')"
  shows "vs_size segment = SHMCACE_MEM_ALIGN (cfg_segment_size config) (2 ^ k)" and "vs_current segment = 0"
    and "vs_max segment = max 1 (m div vs_size segment)" and "c' = snd (sys Sys_getpagesize c)"
proof -
  let ?sz = "SHMCACE_MEM_ALIGN (cfg_segment_size config) (2 ^ k)"
  have sz: "cfg_segment_size config \<le> ?sz" by (rule mem_align_bounds(1))
  then have pos: "0 < ?sz" using assms(2) by linarith
  have "m div ?sz < 2147483648" "0 \<le> m div ?sz" using assms(3,4) pos by (simp_all add: pos_imp_zdiv_nonneg_iff)
  then have cnt: "int32 (cdiv m ?sz) = m div ?sz" using assms(3) pos by simp
  have eq: "segment = \<lparr>vs_size = ?sz, vs_current = 0, vs_max = (if m div ?sz = 0 then 1 else m div ?sz)\<rparr>"
    "c' = snd (sys Sys_getpagesize c)"
    using assms(5) page_size [OF assms(1)] cnt by (auto simp: get_value_segment_count_size_def case_prod_unfold Let_def)
  show "vs_size segment = ?sz" "vs_current segment = 0" "c' = snd (sys Sys_getpagesize c)" by (simp_all add: eq)
  show "vs_max segment = max 1 (m div vs_size segment)" using \<open>0 \<le> m div ?sz\<close> by (simp add: eq max_def)
qed

text \<open>The configured segment size is at most 255 times smaller than the memory, after alignment to pages.\<close>

lemma segment_limit:
  assumes "0 < max_memory" and "0 < segment_size" and "8 \<le> k"
    and "s = (if cdiv max_memory segment_size > 255 then cdiv max_memory 255 else segment_size)"
  shows "max_memory div SHMCACE_MEM_ALIGN s (2 ^ k) \<le> 255" and "0 < s"
proof -
  define q where "q = max_memory div 255"
  have big: "1 \<le> q" if "255 < max_memory div segment_size"
  proof -
    have "max_memory div segment_size \<le> max_memory div 1"
      using assms(1,2) by (intro zdiv_mono2) simp_all
    then have "255 div 255 \<le> max_memory div 255" using that by (intro zdiv_mono1) simp_all
    then show ?thesis by (simp add: q_def)
  qed
  show s: "0 < s" using assms(1,2,4) big by (auto simp: q_def)
  have page: "(256 :: int) \<le> 2 ^ k" using power_increasing [OF assms(3), of "2 :: int"] by simp
  let ?a = "SHMCACE_MEM_ALIGN s (2 ^ k)"
  have a: "s \<le> ?a" "2 ^ k dvd ?a" using mem_align_bounds by blast+
  then have a256: "256 \<le> ?a" using s page zdvd_imp_le [OF a(2)] by linarith
  show "max_memory div ?a \<le> 255"
  proof (cases "255 < max_memory div segment_size")
    case False
    then have "max_memory div s \<le> 255" using assms(1,2,4) by simp
    then show ?thesis using zdiv_mono2 [OF _ s a(1), of max_memory] assms(1) by linarith
  next
    case True
    then have sq: "s = q" using assms(1,2,4) by (simp add: q_def)
    have "max_memory < 255 * q + 255" unfolding q_def by simp
    then have "max_memory < 256 * ?a" using a(1) a256 unfolding sq by linarith
    moreover have "max_memory div ?a * ?a \<le> max_memory" using a256 by (simp add: minus_mod_eq_div_mult [symmetric])
    ultimately have "max_memory div ?a * ?a < 256 * ?a" by linarith
    then have "max_memory div ?a < 256" using a256 by (simp add: mult_less_cancel_right)
    then show ?thesis by simp
  qed
qed

text \<open>
  What the sizes of the segments and the stripings must satisfy, for the indices to fit into the fields
  that hold them.
\<close>

definition sizes_ok :: "shm_value_size_info \<Rightarrow> shm_value_size_info \<Rightarrow> bool" where
  "sizes_ok segment striping \<longleftrightarrow> vs_current segment = 0 \<and> vs_current striping = 0
     \<and> 0 < vs_max segment \<and> vs_max segment \<le> 256
     \<and> 0 < vs_size striping \<and> vs_size striping < 2 ^ 31 \<and> vs_size striping \<le> vs_size segment
     \<and> vs_size segment \<le> 2 ^ 47
     \<and> vs_max striping = vs_max segment * (vs_size segment div vs_size striping)
     \<and> vs_max striping \<le> 2 ^ 15"

lemma product_div: "0 < d \<Longrightarrow> 0 \<le> a \<Longrightarrow> a * b \<le> n \<Longrightarrow> a * (b div d) \<le> n div (d :: int)"
proof -
  assume d: "0 < d" and a: "0 \<le> a" and n: "a * b \<le> n"
  have "a * (b div d) * d \<le> a * b"
    using d a by (simp add: mult.assoc mult_left_mono minus_mod_eq_div_mult [symmetric])
  then have "a * (b div d) * d \<le> n" using n by linarith
  then show ?thesis using zdiv_mono1 [OF _ d, of "a * (b div d) * d" n] d by simp
qed

lemma striping_mb_bounds:
  "0 \<le> n \<Longrightarrow> n < 2 ^ 47 \<Longrightarrow> 2 ^ 20 \<le> striping_mb_count n * 1024 * 1024"
  "0 \<le> n \<Longrightarrow> n < 2 ^ 47 \<Longrightarrow> striping_mb_count n * 1024 * 1024 \<le> 2 ^ 23"
  using striping_mb_count_values [of n] by auto

text \<open>The size of a striping, and how many there are.\<close>

lemma striping_size:
  assumes "k \<le> 30" and "0 < n" and "n < 2 ^ 47" and "0 \<le> v" and "v < 2 ^ 29"
    and "sz = int32 (striping_mb_count n * 1024 * 1024)"
    and "sz1 = (if sz < int32 (v * 2) then int32 (v * 2) else sz)"
    and "sz2 = SHMCACE_MEM_ALIGN sz1 (2 ^ k)"
    and "sz3 = (if sz2 > n then n else sz2)"
  shows "0 < sz3" and "sz3 < 2 ^ 31" and "sz3 \<le> n" and "sz3 = n \<or> 2 ^ 20 \<le> sz3"
proof -
  have "0 \<le> n" using assms(2) by simp
  note mb = striping_mb_bounds [OF this assms(3)]
  have sz: "sz = striping_mb_count n * 1024 * 1024" using mb by (simp add: assms(6))
  have "int32 (v * 2) = v * 2" using assms(4,5) by simp
  then have sz1: "2 ^ 20 \<le> sz1" "sz1 < 2 ^ 30" using mb assms(5,7) sz by auto
  have "(2 :: int) ^ k \<le> 2 ^ 30" using assms(1) by (intro power_increasing) simp_all
  then have "2 ^ 20 \<le> sz2 \<and> sz2 < 2 ^ 31"
    using sz1 mem_align_bounds(1,2) [where k = k and x = sz1] unfolding assms(8) by simp
  then have sz2: "2 ^ 20 \<le> sz2" "sz2 < 2 ^ 31" by blast+
  show "0 < sz3" "sz3 < 2 ^ 31" "sz3 \<le> n" "sz3 = n \<or> 2 ^ 20 \<le> sz3"
    using sz2 assms(2) unfolding assms(9) by auto
qed
definition striping_bytes :: "nat \<Rightarrow> shmcache_config \<Rightarrow> int" where
  "striping_bytes k config =
     (let segment_size = SHMCACE_MEM_ALIGN (cfg_segment_size config) (2 ^ k);
          sz = int32 (striping_mb_count segment_size * 1024 * 1024);
          sz = (if sz < int32 (cfg_max_value_size config * 2) then int32 (cfg_max_value_size config * 2) else sz);
          sz = SHMCACE_MEM_ALIGN sz (2 ^ k)
      in if sz > segment_size then segment_size else sz)"

lemma striping_count_size:
  assumes "pages_ok k (sc_env c)" and "8 \<le> k" and "k \<le> 30"
    and "0 < cfg_segment_size config" and "cfg_segment_size config \<le> 2 ^ 34" and "0 \<le> m" and "m \<le> 2 ^ 35"
    and "m div SHMCACE_MEM_ALIGN (cfg_segment_size config) (2 ^ k) \<le> 256"
    and "0 \<le> cfg_max_value_size config" and "cfg_max_value_size config < 2 ^ 29"
    and "get_value_striping_count_size c config m = ((segment, striping), c')"
  shows "sizes_ok segment striping"
    and "vs_size segment = SHMCACE_MEM_ALIGN (cfg_segment_size config) (2 ^ k)"
    and "vs_max segment = max 1 (m div vs_size segment)"
    and "vs_size striping = striping_bytes k config"
    and "\<exists>h. c' = c\<lparr>sc_env := (sc_env c)\<lparr>env_history := h\<rparr>\<rparr>"
proof -
  let ?a = "SHMCACE_MEM_ALIGN (cfg_segment_size config) (2 ^ k)"
  obtain segment' c1 where seg: "get_value_segment_count_size c config m = (segment', c1)" by (metis surj_pair)
  have "m div ?a < 2 ^ 31" using assms(8) by simp
  note sc = segment_count_size [OF assms(1,4,6) this seg]
  have pages: "pages_ok k (sc_env (snd (sys Sys_getpagesize c)))"
    using assms(1) by (simp add: pages_ok_def snd_sys)
  have "(2 :: int) ^ k \<le> 2 ^ 30" using assms(3) by (intro power_increasing) simp_all
  then have "0 < ?a \<and> ?a < 2 ^ 35"
    using mem_align_bounds(1,2) [where k = k and x = "cfg_segment_size config"] assms(4,5) by simp
  then have a: "0 < ?a" "?a < 2 ^ 35" by blast+
  define sz0 where "sz0 = int32 (striping_mb_count ?a * 1024 * 1024)"
  define sz1 where "sz1 = (if sz0 < int32 (cfg_max_value_size config * 2) then int32 (cfg_max_value_size config * 2) else sz0)"
  define sz2 where "sz2 = SHMCACE_MEM_ALIGN sz1 (2 ^ k)"
  define sz3 where "sz3 = (if sz2 > ?a then ?a else sz2)"
  have "?a < 2 ^ 47" using a by simp
  note sz = striping_size [OF assms(3) a(1) this assms(9,10) sz0_def sz1_def sz2_def sz3_def]
  define count where "count = max 1 (m div ?a)"
  have mx: "vs_max segment' = count" using sc by (simp add: count_def)
  have c0: "0 < count" "count \<le> 256" using assms(8) by (simp_all add: count_def)
  have "count * ?a \<le> max m ?a" 
  proof (cases "m div ?a \<le> 1")
    case False
    then have "count * ?a = m div ?a * ?a" by (simp add: count_def)
    also have "\<dots> \<le> m" using a(1) by (simp add: minus_mod_eq_div_mult [symmetric])
    finally show ?thesis by simp
  qed (simp add: count_def)
  then have prod: "count * (?a div sz3) \<le> max m ?a div sz3" using product_div [OF sz(1)] c0 by simp
  have lim: "count * (?a div sz3) \<le> 2 ^ 15"
  proof (cases "sz3 = ?a")
    case True
    then show ?thesis using c0 a by simp
  next
    case False
    then have "2 ^ 20 \<le> sz3" using sz(4) by blast
    then have "max m ?a div sz3 \<le> max m ?a div 2 ^ 20" using a by (intro zdiv_mono2) simp_all
    also have "\<dots> \<le> 2 ^ 35 div 2 ^ 20" using assms(7) a(2) by (intro zdiv_mono1) simp_all
    finally show ?thesis using prod by simp
  qed
  have pos: "0 \<le> count * (?a div sz3)" using c0 sz(1) a(1) by (simp add: pos_imp_zdiv_nonneg_iff)
  then have cnt: "int32 (count * cdiv ?a sz3) = count * (?a div sz3)" using lim a(1) sz(1) by simp
  define c2 where "c2 = snd (sys Sys_getpagesize (snd (sys Sys_getpagesize c)))"
  note page = page_size [OF pages, folded c2_def]
  have "get_value_striping_count_size c config m
    = ((segment', \<lparr>vs_size = sz3, vs_current = 0, vs_max = int32 (count * cdiv ?a sz3)\<rparr>), c2)"
    unfolding get_value_striping_count_size_def seg sc(4) page sc(1) mx Let_def prod.case
      sz0_def [symmetric] sz1_def [symmetric] sz2_def [symmetric] sz3_def [symmetric] ..
  then have eq: "segment = segment'" "striping = \<lparr>vs_size = sz3, vs_current = 0, vs_max = count * (?a div sz3)\<rparr>" "c' = c2"
    using assms(11) cnt by simp_all
  show "sizes_ok segment striping" using sc sz lim a c0 mx by (simp add: sizes_ok_def eq)
  show "vs_size segment = ?a" "vs_max segment = max 1 (m div vs_size segment)" using sc by (simp_all add: eq)
  show "vs_size striping = striping_bytes k config"
    unfolding eq striping_bytes_def Let_def sz0_def sz1_def sz2_def sz3_def by simp
  show "\<exists>h. c' = c\<lparr>sc_env := (sc_env c)\<lparr>env_history := h\<rparr>\<rparr>"
    unfolding eq(3) c2_def by (simp add: snd_sys sysval_def syscall_def) blast
qed

text \<open>
  The configurations for which the sizes fit: at most 32 GB of memory, segments of at most 16 GB, values below
  512 MB, and a segment count that the segment index can hold.
\<close>

definition config_ok :: "nat \<Rightarrow> shmcache_config \<Rightarrow> bool" where
  "config_ok k config \<longleftrightarrow> 8 \<le> k \<and> k \<le> 30
     \<and> 0 < cfg_segment_size config \<and> cfg_segment_size config \<le> 2 ^ 34
     \<and> 0 \<le> cfg_max_memory config \<and> cfg_max_memory config \<le> 2 ^ 35
     \<and> cfg_max_memory config div SHMCACE_MEM_ALIGN (cfg_segment_size config) (2 ^ k) \<le> 256
     \<and> 0 \<le> cfg_max_value_size config \<and> cfg_max_value_size config < 2 ^ 29 \<and> 0 < cfg_max_key_count config"

text \<open>The hypothesis on the table of primes: an entry is a positive number.\<close>

definition primes_ok :: "fastcommon \<Rightarrow> bool" where
  "primes_ok fc \<longleftrightarrow> (\<forall>n p. fc_prime_capacity fc n = Some p \<longrightarrow> 0 < p)"

lemma ht_capacity_pos: "primes_ok fc \<Longrightarrow> 0 < n \<Longrightarrow> 0 < shm_ht_get_capacity fc n"
  by (auto simp: shm_ht_get_capacity_def primes_ok_def split: option.split)

lemma striping_sizes:
  assumes "pages_ok k (sc_env c)" and "config_ok k config" and "0 \<le> m" and "m \<le> cfg_max_memory config"
    and "get_value_striping_count_size c config m = ((segment, striping), c')"
  shows "sizes_ok segment striping"
    and "vs_size segment = SHMCACE_MEM_ALIGN (cfg_segment_size config) (2 ^ k)"
    and "vs_max segment = max 1 (m div vs_size segment)"
    and "vs_size striping = striping_bytes k config"
    and "\<exists>h. c' = c\<lparr>sc_env := (sc_env c)\<lparr>env_history := h\<rparr>\<rparr>"
proof -
  let ?a = "SHMCACE_MEM_ALIGN (cfg_segment_size config) (2 ^ k)"
  have "cfg_segment_size config \<le> ?a" by (rule mem_align_bounds)
  then have "0 < ?a" using assms(2) by (simp add: config_ok_def)
  then have "m div ?a \<le> cfg_max_memory config div ?a" using assms(4) by (intro zdiv_mono1)
  then have *: "m div ?a \<le> 256" "m \<le> 2 ^ 35" "8 \<le> k" "k \<le> 30" "0 < cfg_segment_size config" "cfg_segment_size config \<le> 2 ^ 34"
    "0 \<le> cfg_max_value_size config" "cfg_max_value_size config < 2 ^ 29"
    using assms(2,4) by (simp_all add: config_ok_def)
  note r = striping_count_size [OF assms(1) *(3-6) assms(3) *(2,1,7,8) assms(5)]
  show "sizes_ok segment striping" "vs_size segment = ?a" "vs_max segment = max 1 (m div vs_size segment)"
    "vs_size striping = striping_bytes k config" "\<exists>h. c' = c\<lparr>sc_env := (sc_env c)\<lparr>env_history := h\<rparr>\<rparr>" by (rule r)+
qed

text \<open>
  The parts of the hash table segment follow each other, and each is large enough for what is put there. The
  queues and the allocators are laid out for the stripings of the whole memory; the stripings that are used
  are those of the memory without the segment itself, which are not more.
\<close>

definition layout_ok :: "int \<Rightarrow> int \<Rightarrow> shm_value_size_info \<Rightarrow> int \<Rightarrow> ht_offsets \<Rightarrow> bool" where
  "layout_ok sz keys striping capacity offs \<longleftrightarrow>
     off_ht_buckets offs = sizeof_shm_memory_info
     \<and> off_ht_buckets offs + 8 * capacity \<le> off_ht_pool_queue offs
     \<and> off_ht_pool_queue offs + 8 * (keys + 1) \<le> off_va_pool_queue_doing offs
     \<and> off_va_pool_queue_doing offs + 8 * (vs_max striping + 1) \<le> off_va_pool_queue_done offs
     \<and> off_va_pool_queue_done offs + 8 * (vs_max striping + 1) \<le> off_va_pool_object offs
     \<and> off_va_pool_object offs + sizeof_shm_striping_allocator * vs_max striping \<le> sz"

lemma ht_segment_layout:
  assumes "pages_ok k (sc_env c)" and "config_ok k (sc_config c)"
    and "shmcache_get_ht_segment_size c = ((sz, segment, striping, capacity, offs), c')"
    and "sz \<le> cfg_max_memory (sc_config c)"
    and "primes_ok (sc_fastcommon c)"
  shows "sizes_ok segment striping" and "layout_ok sz (cfg_max_key_count (sc_config c)) striping capacity offs"
    and "capacity = shm_ht_get_capacity (sc_fastcommon c) (cfg_max_key_count (sc_config c) + 1)"
    and "0 < capacity" and "\<exists>h. c' = c\<lparr>sc_env := (sc_env c)\<lparr>env_history := h\<rparr>\<rparr>"
proof -
  let ?config = "sc_config c"
  obtain segment1 striping1 c1 where 1: "get_value_striping_count_size c ?config (cfg_max_memory ?config)
      = ((segment1, striping1), c1)" by (metis surj_pair)
  have "0 \<le> cfg_max_memory ?config" using assms(2) by (simp add: config_ok_def)
  note s1 = striping_sizes [OF assms(1,2) this order_refl 1]
  obtain h where c1: "c1 = c\<lparr>sc_env := (sc_env c)\<lparr>env_history := h\<rparr>\<rparr>" using s1(5) by blast
  have c: "capacity = shm_ht_get_capacity (sc_fastcommon c) (cfg_max_key_count ?config + 1)"
    and 2: "get_value_striping_count_size c1 ?config (cfg_max_memory ?config - sz) = ((segment, striping), c')"
    using assms(3) 1 by (auto simp: shmcache_get_ht_segment_size_def Let_def c1 split: prod.splits)
  have pages: "pages_ok k (sc_env c1)" using assms(1) by (simp add: pages_ok_def c1)
  have layout: "layout_ok sz (cfg_max_key_count ?config) striping1 capacity offs"
    using assms(3) 1 c unfolding shmcache_get_ht_segment_size_def layout_ok_def
    by (auto simp: Let_def shm_object_pool_get_queue_memory_size_def shm_object_pool_get_object_memory_size_def
        shm_ht_get_memory_size_def split: prod.splits)
  have pos: "0 \<le> vs_max striping1" using s1(1) by (auto simp: sizes_ok_def pos_imp_zdiv_nonneg_iff)
  moreover have "0 < capacity" unfolding c using assms(5) by (rule ht_capacity_pos) (use assms(2) in \<open>simp add: config_ok_def\<close>)
  moreover have "0 < cfg_max_key_count ?config" using assms(2) by (simp add: config_ok_def)
  ultimately have "0 \<le> sz" using layout unfolding layout_ok_def distrib_left by linarith
  then have m: "0 \<le> cfg_max_memory ?config - sz" "cfg_max_memory ?config - sz \<le> cfg_max_memory ?config"
    using assms(4) by simp_all
  note s2 = striping_sizes [OF pages assms(2) m 2]
  have sz: "vs_size segment = vs_size segment1" "vs_size striping = vs_size striping1" by (simp_all add: s1 s2)
  have pos: "0 < vs_size segment1" using s1(1) by (simp add: sizes_ok_def)
  have "vs_max segment \<le> vs_max segment1"
    unfolding s1(3) s2(3) sz using zdiv_mono1 [OF m(2) pos] by simp
  then have "vs_max striping \<le> vs_max striping1"
    using s1(1) s2(1) sz by (simp add: sizes_ok_def mult_right_mono pos_imp_zdiv_nonneg_iff)
  then show "layout_ok sz (cfg_max_key_count ?config) striping capacity offs"
    using layout unfolding layout_ok_def distrib_left by linarith
  show "sizes_ok segment striping" by (rule s2)
  show "capacity = shm_ht_get_capacity (sc_fastcommon c) (cfg_max_key_count ?config + 1)" by (rule c)
  show "0 < capacity" by fact
  show "\<exists>h. c' = c\<lparr>sc_env := (sc_env c)\<lparr>env_history := h\<rparr>\<rparr>" using s2(5) by (auto simp: c1)
qed

section \<open>An empty cache\<close>

definition empty_cache :: "shmcache_context \<Rightarrow> bool" where
  "empty_cache c \<longleftrightarrow> sizes_ok (mi_segment (sc_memory c)) (mi_striping (sc_memory c))
     \<and> sc_list_head_offset c = head_offset
     \<and> mi_head (sc_memory c) = \<lparr>sl_prev = head_offset, sl_next = head_offset\<rparr>
     \<and> mi_count (sc_memory c) = 0 \<and> mu_key (mi_usage (sc_memory c)) = 0
     \<and> mu_value (mi_usage (sc_memory c)) = 0 \<and> mu_entry (mi_usage (sc_memory c)) = 0
     \<and> 0 < mi_capacity (sc_memory c) \<and> mi_buckets (sc_memory c) = replicate (nat (mi_capacity (sc_memory c))) 0
     \<and> sc_values_count c = 0 \<and> length (sc_values_items c) = nat (vs_max (mi_segment (sc_memory c)))
     \<and> 0 < sc_allocators_offset c \<and> nat (vs_max (mi_striping (sc_memory c))) \<le> length (sc_allocators c)
     \<and> pool_wf (sc_doing c) \<and> pool_list (sc_doing c) = [] \<and> pool_wf (sc_done c) \<and> pool_list (sc_done c) = []
     \<and> nat (vs_max (mi_striping (sc_memory c))) < op_capacity (sc_doing c)
     \<and> nat (vs_max (mi_striping (sc_memory c))) < op_capacity (sc_done c)"

lemma empty_cache_inv:
  assumes "empty_cache c"
  shows "cache_inv c []" and "limits_ok c"
proof -
  have n: "nstriping c = 0" using assms by (simp add: empty_cache_def sizes_ok_def)
  have "ctx_ok c" using assms by (simp add: empty_cache_def ctx_ok_def segments_open_def)
  moreover have "allocs_ok c" using assms n by (simp add: empty_cache_def allocs_ok_def)
  moreover have "pools_rep c [] []" using assms n by (auto simp: empty_cache_def pools_rep_def)
  moreover have "blocks_ok c []" using n by (simp add: blocks_ok_def)
  moreover have "dlist c []"
    using assms by (simp add: empty_cache_def dlist_def edge_def mi_head_node ptr_off.simps)
  moreover have "count_ok c [] []" using assms by (simp add: empty_cache_def count_ok_def)
  ultimately have "core_inv c [] []" unfolding core_inv_def pools_ok_def by auto
  moreover have "ht_ok c []"
    using assms by (auto simp: empty_cache_def ht_ok_def bucket_ok_def intro!: exI [of _ "[]"])
  ultimately show "cache_inv c []" by (simp add: cache_inv_def)
  have "vs_max (mi_segment (sc_memory c)) * stripings_per_segment c = vs_max (mi_striping (sc_memory c))"
    using assms by (simp add: empty_cache_def sizes_ok_def)
  then show "limits_ok c" using assms unfolding limits_ok_def by (simp add: empty_cache_def sizes_ok_def)
qed

section \<open>The first process\<close>

text \<open>A hash table segment that was just created: every byte is zero.\<close>

definition zero_memory :: "nat \<Rightarrow> shm_memory_info" where
  "zero_memory capacity =
     (let counter = \<lparr>ctr_total = 0, ctr_success = 0\<rparr>;
          recycle = \<lparr>rs_total = 0, rs_success = 0, rs_force = 0, rs_last_recycle_time = 0\<rparr>;
          sizes = \<lparr>vs_size = 0, vs_current = 0, vs_max = 0\<rparr>
      in \<lparr>mi_size = 0, mi_status = 0, mi_init_time = 0, mi_max_key_count = 0, mi_lock_pid = 0,
         mi_segment = sizes, mi_striping = sizes,
         mi_stats = \<lparr>st_set = counter, st_get = counter, st_del = counter, st_incr = counter,
           st_last_clear_time = 0, st_clear_total = 0, st_clear_valid = 0, st_recycle_key = recycle,
           st_recycle_value_striping = recycle, st_lock_total = 0, st_lock_retry = 0,
           st_lock_detect_deadlock = 0, st_lock_unlock_deadlock = 0, st_lock_last_detect_deadlock_time = 0,
           st_lock_last_unlock_deadlock_time = 0, st_last_get = counter, st_last_calc_time = 0, st_init_time = 0\<rparr>,
         mi_usage = \<lparr>mu_alloced = 0, mu_common = 0, mu_entry = 0, mu_key = 0, mu_value = 0\<rparr>,
         mi_head = \<lparr>sl_prev = 0, sl_next = 0\<rparr>, mi_capacity = 0, mi_count = 0,
         mi_buckets = replicate capacity 0\<rparr>)"

definition zero_pool :: "nat \<Rightarrow> object_pool" where
  "zero_pool n = \<lparr>op_base_offset = 0, op_element_size = 0, op_capacity = 0, op_head = 0, op_tail = 0,
     op_offsets = replicate n 0, op_index = 0\<rparr>"

definition zero_allocator :: shm_striping_allocator where
  "zero_allocator = \<lparr>sa_last_alloc_time = 0, sa_fail_times = 0, sa_in_which_pool = 0,
     sa_index = \<lparr>ssp_segment = 0, ssp_striping = 0\<rparr>, sa_total = 0, sa_used = 0, sa_base = 0, sa_free = 0, sa_end = 0\<rparr>"

definition zero_image :: "nat \<Rightarrow> nat \<Rightarrow> shm_image" where
  "zero_image capacity stripings = \<lparr>im_memory = zero_memory capacity, im_doing = zero_pool (Suc stripings),
     im_done = zero_pool (Suc stripings), im_allocators = replicate stripings zero_allocator, im_entries = (\<lambda>_. None)\<rparr>"

text \<open>The context of a process that attached to zeroed memory.\<close>

definition attached :: "shmcache_context \<Rightarrow> nat \<Rightarrow> shm_value_size_info \<Rightarrow> shm_value_size_info \<Rightarrow> ht_offsets \<Rightarrow> bool" where
  "attached c capacity segment striping offs \<longleftrightarrow> sizes_ok segment striping \<and> 0 < capacity
     \<and> mi_status (sc_memory c) = SHMCACHE_STATUS_INIT \<and> mi_buckets (sc_memory c) = replicate capacity 0
     \<and> mi_usage (sc_memory c) = mi_usage (zero_memory capacity)
     \<and> sc_list_head_offset c = head_offset \<and> sc_values_count c = 0
     \<and> length (sc_values_items c) = nat (vs_max segment) \<and> 0 < sc_allocators_offset c
     \<and> nat (vs_max striping) \<le> length (sc_allocators c)
     \<and> nat (vs_max striping) < length (op_offsets (sc_doing c)) \<and> nat (vs_max striping) < length (op_offsets (sc_done c))"

lemma object_pool_context:
  assumes "0 < queue_capacity" and "nat queue_capacity \<le> length (op_offsets op)"
  shows "pool_wf (shmcache_set_object_pool_context op element_size base queue_capacity False)"
    and "pool_list (shmcache_set_object_pool_context op element_size base queue_capacity False) = []"
    and "op_capacity (shmcache_set_object_pool_context op element_size base queue_capacity False) = nat queue_capacity"
  using assms by (simp_all add: shmcache_set_object_pool_context_def shm_object_pool_set_def shm_object_pool_init_empty_def
      pool_wf_def pool_list_def shm_object_pool_get_count_def)

text \<open>Setting up the header, the table, the list and the queues, up to the first value segment.\<close>

definition header_set ::
  "shmcache_context \<Rightarrow> int \<Rightarrow> shm_value_size_info \<Rightarrow> shm_value_size_info \<Rightarrow> ht_offsets \<Rightarrow> shmcache_context" where
  "header_set c ht_capacity segment striping offs =
     (let c = shm_list_init (shm_ht_init
            (sc_memory_update (mi_segment_update (\<lambda>_. segment) \<circ> mi_striping_update (\<lambda>_. striping)) c) ht_capacity)
      in c\<lparr>sc_doing := shmcache_set_object_pool_context (sc_doing c) sizeof_shm_striping_allocator
             (off_va_pool_object offs) (vs_max striping + 1) False,
           sc_done := shmcache_set_object_pool_context (sc_done c) sizeof_shm_striping_allocator
             (off_va_pool_object offs) (vs_max striping + 1) False\<rparr>)"

lemma header_set_empty:
  assumes "attached c capacity segment striping offs"
  shows "empty_cache (header_set c (int capacity) segment striping offs)"
proof -
  have m: "0 \<le> vs_max striping"
    using assms by (auto simp: attached_def sizes_ok_def pos_imp_zdiv_nonneg_iff)
  then have q: "0 < vs_max striping + 1" "nat (vs_max striping + 1) \<le> length (op_offsets (sc_doing c))"
    "nat (vs_max striping + 1) \<le> length (op_offsets (sc_done c))" "nat (vs_max striping + 1) = Suc (nat (vs_max striping))"
    using assms by (auto simp: attached_def)
  show ?thesis
    using assms object_pool_context [OF q(1,2)] object_pool_context [OF q(1,3)] q(4) m
    unfolding empty_cache_def header_set_def attached_def
    by (simp add: Let_def shm_list_init_def shm_ht_init_def zero_memory_def)
qed

lemma locking_sys_eq: "sys r c = (v, c') \<Longrightarrow> locking c c'"
  using locking_sys [of c r] by simp

lemma lock_init_locking:
  assumes "shm_lock_init c = (result, c')"
  shows "locking c c'"
proof -
  obtain r1 c1 where 1: "sys Sys_pthread_mutexattr_init c = (r1, c1)" by (metis surj_pair)
  obtain r2 c2 where 2: "sys Sys_pthread_mutexattr_setpshared c1 = (r2, c2)" by (metis surj_pair)
  obtain r3 c3 where 3: "sys Sys_pthread_mutexattr_settype c2 = (r3, c3)" by (metis surj_pair)
  obtain r4 c4 where 4: "sys Sys_pthread_mutex_init c3 = (r4, c4)" by (metis surj_pair)
  have l: "locking c c1" "locking c c2" "locking c c3" "locking c c4"
    using 1 2 3 4 locking_sys_eq locking_trans by blast+
  have "c' \<in> {c1, c2, c3, c4, set_lock_pid 0 c4}"
    using assms 1 2 3 4 by (auto simp: shm_lock_init_def split: if_splits)
  then show ?thesis using l locking_trans [OF l(4) locking_pid] by blast
qed

lemma do_init_header:
  assumes "shmcache_do_init (shm_list_init (shm_ht_init
      (sc_memory_update (mi_segment_update (\<lambda>_. segment) \<circ> mi_striping_update (\<lambda>_. striping)) c) capacity)) offs = (0, c')"
  shows "locking (header_set c capacity segment striping offs) c'"
proof -
  define c1 where "c1 = shm_list_init (shm_ht_init
      (sc_memory_update (mi_segment_update (\<lambda>_. segment) \<circ> mi_striping_update (\<lambda>_. striping)) c) capacity)"
  obtain r c2 where 2: "shm_lock_init c1 = (r, c2)" by (metis surj_pair)
  then obtain s p f h where c2: "c2 = c1\<lparr>sc_lock_fd := f, sc_memory := (sc_memory c1)\<lparr>mi_stats := s, mi_lock_pid := p\<rparr>,
     sc_env := (sc_env c1)\<lparr>env_history := h\<rparr>\<rparr>" using lock_init_locking lockingE by metis
  have st: "mi_striping (sc_memory c1) = striping" by (simp add: c1_def shm_list_init_def shm_ht_init_def)
  have c': "c' = c2\<lparr>sc_doing := sc_doing (header_set c capacity segment striping offs),
      sc_done := sc_done (header_set c capacity segment striping offs)\<rparr>"
    using assms 2 st by (auto simp: shmcache_do_init_def header_set_def Let_def c2 split: if_splits simp flip: c1_def)
  show ?thesis
  proof (rule lockingI [where s = s and p = p and f = f and h = h])
    show "c' = (header_set c capacity segment striping offs)\<lparr>sc_lock_fd := f,
      sc_memory := (sc_memory (header_set c capacity segment striping offs))\<lparr>mi_stats := s, mi_lock_pid := p\<rparr>,
      sc_env := (sc_env (header_set c capacity segment striping offs))\<lparr>env_history := h\<rparr>\<rparr>"
      unfolding c' by (rule shmcache_context.equality) (simp_all add: c2 header_set_def Let_def flip: c1_def)
  qed
qed

lemma empty_cache_locking: "locking c c' \<Longrightarrow> empty_cache c \<Longrightarrow> empty_cache c'"
  by (erule lockingE) (simp add: empty_cache_def)

lemma do_init_failed:
  assumes "shmcache_do_init c offs = (r, c')" and "r \<noteq> 0"
  shows "locking c c'"
  using assms lock_init_locking by (auto simp: shmcache_do_init_def Let_def split: if_splits prod.splits)

text \<open>
  Whatever goes wrong, the status of the header is set last: where it says that the memory is initialised, the
  invariant holds.
\<close>

definition initialised :: "shmcache_context \<Rightarrow> bool" where
  "initialised c \<longleftrightarrow> mi_status (sc_memory c) = SHMCACHE_STATUS_NORMAL"

lemma create_failed:
  assumes "limits_ok c" and "maps_ok (sc_env c)" and "shmopt_create_value_segment c = (r, c')" and "r \<noteq> 0"
  shows "sc_memory c' = sc_memory c"
  using assms(1,2)
proof (rule create_value_segment_cases)
  fix s h assume "shmopt_create_value_segment c = (0, segment_added c s h)"
  then show ?thesis using assms(3,4) by simp
next
  fix r s h assume "shmopt_create_value_segment c = (r, segment_failed c s h)"
  then show ?thesis using assms(3) by (auto simp: segment_failed_def)
qed

lemma lock_init_body_inv:
  assumes "attached c capacity segment striping offs" and "maps_ok (sc_env c)"
    and "lock_init_body c (int capacity) segment striping offs = (r, c')"
  shows "fixed c c' \<and> (if r = 0 then full_inv c' [] \<and> initialised c' else \<not> initialised c')"
proof -
  define c1 where "c1 = shm_list_init (shm_ht_init
      (sc_memory_update (mi_segment_update (\<lambda>_. segment) \<circ> mi_striping_update (\<lambda>_. striping)) c) (int capacity))"
  obtain r2 c2 where 2: "shmcache_do_init c1 offs = (r2, c2)" by (metis surj_pair)
  obtain t c3 where 3: "get_current_time c2 = (t, c3)" by (metis surj_pair)
  define c4 where "c4 = sc_memory_update (mi_init_time_update (\<lambda>_. t)
    \<circ> mi_stats_update (st_init_time_update (\<lambda>_. t) \<circ> st_last_calc_time_update (\<lambda>_. t))) c3"
  define c5 where "c5 = sc_memory_update (mi_usage_update (mu_alloced_update (\<lambda>_. seg_size (sc_ht_segment c4))
    \<circ> mu_common_update (\<lambda>_. seg_size (sc_ht_segment c4)))) c4"
  obtain r6 c6 where 6: "shmopt_create_value_segment c5 = (r6, c6)" by (metis surj_pair)
  define c7 where "c7 = sc_memory_update (mi_size_update (\<lambda>_. sizeof_shm_memory_info)
      \<circ> mi_max_key_count_update (\<lambda>_. cfg_max_key_count (sc_config c6))
      \<circ> mi_status_update (\<lambda>_. SHMCACHE_STATUS_NORMAL)) c6"
  have new: "\<not> initialised c" using assms(1) by (simp add: attached_def initialised_def)
  have run: "(r, c') = (if r2 \<noteq> 0 then (r2, c2) else if r6 \<noteq> 0 then (r6, c6) else (0, c7))"
    unfolding assms(3) [symmetric] lock_init_body_def Let_def c1_def [symmetric] 2 3 prod.case c4_def [symmetric]
      c5_def [symmetric] 6 c7_def [symmetric]
    using new by (simp add: initialised_def)
  show ?thesis
  proof (cases "r2 = 0")
    case False
    have "locking c1 c2" by (rule do_init_failed [OF 2 False])
    then have "\<not> initialised c2"
      using new by (elim lockingE) (simp add: initialised_def c1_def shm_list_init_def shm_ht_init_def)
    moreover have "fixed c c2"
      using fixed_trans [OF _ fixed_stable [OF locking_kept(3) [OF \<open>locking c1 c2\<close>]], of c]
      by (simp add: fixed_def c1_def shm_list_init_def shm_ht_init_def)
    ultimately show ?thesis using run False by auto
  next
    case True
    let ?h = "header_set c (int capacity) segment striping offs"
    have l3: "locking ?h c3"
      using locking_trans [OF do_init_header locking_sys_eq [OF 3]] 2 True unfolding c1_def by blast
    have h: "sc_config ?h = sc_config c" "sc_fastcommon ?h = sc_fastcommon c" "env_sys (sc_env ?h) = env_sys (sc_env c)"
      "initialised ?h = initialised c"
      by (simp_all add: header_set_def Let_def shm_list_init_def shm_ht_init_def initialised_def)
    have f3: "fixed c c3" "initialised c3 = initialised c"
      using h l3 by (elim lockingE, simp add: fixed_def initialised_def)+
    have "empty_cache c3" by (rule empty_cache_locking [OF l3 header_set_empty [OF assms(1)]])
    then have "empty_cache c5" by (simp add: empty_cache_def c5_def c4_def)
    moreover have maps: "maps_ok (sc_env c5)" using f3(1) assms(2) by (simp add: maps_ok_def fixed_def c5_def c4_def)
    ultimately have inv5: "full_inv c5 []" and lim5: "limits_ok c5" using empty_cache_inv by (simp_all add: full_inv_def)
    note seg = create_value_segment_inv [OF inv5 6]
    have "initialised c6 = initialised c" if "r6 \<noteq> 0"
      using create_failed [OF lim5 maps 6 that] f3(2) by (simp add: initialised_def c5_def c4_def)
    moreover have f6: "fixed c c6" using fixed_trans [OF f3(1), of c6] seg(3) by (simp add: fixed_def c5_def c4_def)
    moreover have "fixed c c7" using f6 by (simp add: fixed_def c7_def)
    moreover have "initialised c7" by (simp add: c7_def initialised_def)
    moreover have "full_inv c7 []"
    proof -
      have "cache_inv c6 []" using seg(1) by (simp add: full_inv_def)
      then have "cache_inv c7 []" by (rule cache_inv_same) (simp_all add: c7_def)
      moreover have "stable c6 c7" by (simp add: stable_def c7_def)
      ultimately show ?thesis using full_inv_stable [OF seg(1)] by blast
    qed
    ultimately show ?thesis using run True new by (cases "r6 = 0") simp_all
  qed
qed

text \<open>The loop up to \<^verbatim>\<open>min_memory\<close> keeps the invariant.\<close>

lemma min_memory_loop_inv:
  "full_inv c L \<Longrightarrow> min_memory_loop n m r c = (r', c') \<Longrightarrow>
   full_inv c' L \<and> entry_pairs c' L = entry_pairs c L \<and> fixed c c'"
proof (induction n m r c rule: min_memory_loop.induct)
  case (2 n m r c)
  obtain r1 c1 where 1: "shmopt_create_value_segment c = (r1, c1)" by (metis surj_pair)
  note seg = create_value_segment_inv [OF "2.prems"(1) 1]
  have ih: "full_inv c' L \<and> entry_pairs c' L = entry_pairs c1 L \<and> fixed c1 c'"
    if "seg_size (sc_ht_segment c) + vs_size (mi_segment (sc_memory c)) * vs_current (mi_segment (sc_memory c)) < m"
      "r1 = 0" "\<not> vs_max (mi_segment (sc_memory c1)) \<le> vs_current (mi_segment (sc_memory c1))"
    using "2.IH" [OF that(1) refl 1 [symmetric] _ that(3) seg(1)] that "2.prems"(2) 1 by simp
  show ?case
    using "2.prems" 1 seg ih fixed_trans [OF seg(3)] by (auto split: if_splits)
qed simp

lemma set_deadlock_clocks_inv:
  assumes "full_inv c L"
  shows "full_inv (set_deadlock_clocks c) L" and "entry_pairs (set_deadlock_clocks c) L = entry_pairs c L"
proof -
  have "stable c (set_deadlock_clocks c)" by (simp add: stable_def set_deadlock_clocks_def)
  moreover have "cache_inv (set_deadlock_clocks c) L"
    by (rule cache_inv_same [of c]) (use assms in \<open>simp_all add: full_inv_def set_deadlock_clocks_def\<close>)
  ultimately show "full_inv (set_deadlock_clocks c) L" using full_inv_stable [OF assms] by blast
  show "entry_pairs (set_deadlock_clocks c) L = entry_pairs c L"
    by (rule entry_pairs_same) (simp add: set_deadlock_clocks_def)
qed

lemma init_value_segments_inv:
  assumes "full_inv c L" and "trylock_ok (sc_env c)"
  obtains r c' where "init_value_segments others m c = Some (r, c')" "full_inv c' L" "entry_pairs c' L = entry_pairs c L"
    "fixed c c'"
proof -
  have "shmopt_open_value_segments c = (0, c)"
    using assms(1) by (simp add: full_inv_def limits_ok_def shmopt_open_value_segments_def)
  note open0 = this
  show thesis
  proof (cases "vs_current (mi_segment (sc_memory c)) < vs_max (mi_segment (sc_memory c))")
    case False
    then show thesis using that [of 0 c] open0 assms(1) by (simp add: init_value_segments_def)
  next
    case True
    obtain c1 where 1: "shm_lock others c = Some (0, c1)" "locking c c1"
      by (rule shm_lock_uncontended [OF assms(2), of others])
    have inv1: "full_inv c1 L" by (rule full_inv_locking [OF assms(1) 1(2)])
    define n where "n = Suc (nat (vs_max (mi_segment (sc_memory c1)) - vs_current (mi_segment (sc_memory c1))))"
    obtain r c2 where 2: "min_memory_loop n m 0 c1 = (r, c2)" by (metis surj_pair)
    note loop = min_memory_loop_inv [OF inv1 2]
    have run: "init_value_segments others m c = Some (r, snd (shm_unlock c2))"
      using open0 True 1(1) 2 by (simp add: init_value_segments_def n_def)
    have "full_inv (snd (shm_unlock c2)) L" using full_inv_locking [OF _ locking_unlock] loop by blast
    moreover have "entry_pairs (snd (shm_unlock c2)) L = entry_pairs c L"
      using locking_kept(2) [OF locking_unlock] locking_kept(2) [OF 1(2)] loop by metis
    moreover have "fixed c (snd (shm_unlock c2))"
      using fixed_trans [OF fixed_stable [OF locking_kept(3) [OF 1(2)]]]
        fixed_trans [OF _ fixed_stable [OF locking_kept(3) [OF locking_unlock]]] loop by blast
    ultimately show thesis by (rule that [OF run])
  qed
qed

lemma lock_file_locking:
  assumes "shm_lock_file (\<lambda>c. c) c = (r, c')"
  shows "locking c c'"
proof -
  let ?c1 = "if sc_lock_fd c > 0 then snd (sys (Sys_close (sc_lock_fd c)) c) else c"
  have 1: "locking c ?c1" using locking_sys [of c] by simp
  obtain fd err e where o: "syscall (Sys_open_lock (cfg_filename (sc_config ?c1))) (sc_env ?c1) = ((fd, err), e)" by (metis surj_pair)
  have "locking ?c1 (?c1\<lparr>sc_lock_fd := fd, sc_env := e\<rparr>)"
    by (rule lockingI [where s = "mi_stats (sc_memory ?c1)" and p = "mi_lock_pid (sc_memory ?c1)" and f = fd and h = "env_history e"])
      (use o in \<open>auto simp: syscall_def\<close>)
  then have 2: "locking c (?c1\<lparr>sc_lock_fd := fd, sc_env := e\<rparr>)" (is "locking c ?c2") using locking_trans [OF 1] by blast
  obtain r3 c3 where 3: "sys (Sys_file_write_lock fd) ?c2 = (r3, c3)" by (metis surj_pair)
  have l3: "locking c c3" by (rule locking_trans [OF 2 locking_sys_eq [OF 3]])
  have "c' \<in> {?c2, c3, (snd (sys (Sys_close fd) c3))\<lparr>sc_lock_fd := - 1\<rparr>}"
    using assms o 3 unfolding shm_lock_file_def Let_def by (auto split: if_splits)
  then show ?thesis using 2 l3 locking_trans [OF l3 locking_trans [OF locking_sys locking_fd]] by blast
qed

lemma attached_locking: "locking c c' \<Longrightarrow> attached c n segment striping offs \<Longrightarrow> attached c' n segment striping offs"
  by (erule lockingE) (simp add: attached_def)

lemma locking_unlock_file: "locking c (shm_unlock_file c)"
  unfolding shm_unlock_file_def by (rule locking_trans [OF locking_sys locking_fd])

lemma do_lock_init_inv:
  assumes "attached c n segment striping offs" and "maps_ok (sc_env c)"
    and "shmcache_do_lock_init (\<lambda>c. c) c (int n) segment striping offs = (r, c')"
  shows "fixed c c'" and "initialised c' \<Longrightarrow> r = 0 \<and> full_inv c' []"
proof -
  obtain r1 c1 where 1: "shm_lock_file (\<lambda>c. c) c = (r1, c1)" by (metis surj_pair)
  have l1: "locking c c1" by (rule lock_file_locking [OF 1])
  have at: "attached c1 n segment striping offs" by (rule attached_locking [OF l1 assms(1)])
  have fx1: "fixed c c1" by (rule fixed_stable [OF locking_kept(3) [OF l1]])
  then have maps: "maps_ok (sc_env c1)" using assms(2) by (simp add: fixed_def maps_ok_def)
  obtain r2 c2 where 2: "lock_init_body c1 (int n) segment striping offs = (r2, c2)" by (metis surj_pair)
  note body = lock_init_body_inv [OF at maps 2]
  have l3: "locking c2 (shm_unlock_file c2)" by (rule locking_unlock_file)
  then have i3: "initialised (shm_unlock_file c2) = initialised c2" by (elim lockingE) (simp add: initialised_def)
  have run: "(r, c') = (if r1 \<noteq> 0 then (r1, c1) else (r2, shm_unlock_file c2))"
    using 1 2 assms(3) by (simp add: shmcache_do_lock_init_def split: if_splits)
  have f2: "fixed c (shm_unlock_file c2)"
    using fixed_trans [OF fixed_trans [OF fx1] fixed_stable [OF locking_kept(3) [OF l3]]] body by blast
  then show "fixed c c'" using run fx1 by (cases "r1 = 0") simp_all
  assume init: "initialised c'"
  have "\<not> initialised c1" using at by (simp add: attached_def initialised_def)
  then have r: "r1 = 0" "r = r2" "c' = shm_unlock_file c2" using run init by (auto split: if_splits)
  then have "r2 = 0" "full_inv c2 []" using body init i3 by (auto split: if_splits)
  then show "r = 0 \<and> full_inv c' []" using full_inv_locking [OF _ l3] r by simp
qed

text \<open>The creation and the opening of value segments never touch the status.\<close>

definition status_kept :: "shmcache_context \<Rightarrow> shmcache_context \<Rightarrow> bool" where
  "status_kept c c' \<longleftrightarrow> fixed c c' \<and> initialised c' = initialised c"

lemma status_kept_refl [simp]: "status_kept c c"
  by (simp add: status_kept_def)

lemma status_kept_trans: "status_kept c c1 \<Longrightarrow> status_kept c1 c2 \<Longrightarrow> status_kept c c2"
  using fixed_trans by (auto simp: status_kept_def)

lemma status_kept_locking: "locking c c' \<Longrightarrow> status_kept c c'"
  by (erule lockingE) (simp add: status_kept_def fixed_def initialised_def)

lemma create_striping_status: "status_kept c (create_striping_loop n i off c)"
  by (induction n i off c rule: create_striping_loop.induct) (simp_all add: Let_def status_kept_def initialised_def fixed_def)

lemma init_value_segment_status:
  assumes "shmopt_init_value_segment c i = (r, c')"
  shows "status_kept c c'"
proof -
  define sh where "sh = shm_mmap (fc_max_path_size (sc_fastcommon c)) (cfg_type (sc_config c)) (cfg_filename (sc_config c))
    (i + 2) (vs_size (mi_segment (sc_memory c))) (seg_key (sc_values_items c ! nat i)) (sc_create_segment c) (sc_env c)"
  have "env_sys (snd sh) = env_sys (sc_env c)" by (simp add: sh_def)
  moreover obtain v where "c' = c\<lparr>sc_env := snd sh, sc_values_items := v\<rparr>"
    using assms by (auto simp: shmopt_init_value_segment_def shmopt_init_segment_def Let_def sh_def [symmetric] case_prod_unfold
        split: if_splits)
  ultimately show ?thesis by (simp add: status_kept_def fixed_def initialised_def)
qed

lemma create_value_segment_status:
  assumes "shmopt_create_value_segment c = (r, c')"
  shows "status_kept c c'"
proof -
  let ?sg = "mi_segment (sc_memory c)"
  obtain r1 c1 where 1: "shmopt_init_value_segment c (vs_current ?sg) = (r1, c1)" by (metis surj_pair)
  have k1: "status_kept c c1" by (rule init_value_segment_status [OF 1])
  define c2 where "c2 = sc_memory_update (mi_segment_update (vs_current_update (\<lambda>k. k + 1))) c1"
  define c3 where "c3 = create_striping_loop (nat (vs_size ?sg div vs_size (mi_striping (sc_memory c2)))) (vs_current ?sg) 0 c2"
  define c4 where "c4 = sc_memory_update (mi_usage_update (mu_alloced_update (\<lambda>a. a + vs_size ?sg)))
    (c3\<lparr>sc_values_count := vs_current ?sg + 1\<rparr>)"
  have "status_kept c1 c2" by (simp add: c2_def status_kept_def fixed_def initialised_def)
  moreover have "status_kept c2 c3" unfolding c3_def by (rule create_striping_status)
  moreover have "status_kept c3 c4" by (simp add: c4_def status_kept_def fixed_def initialised_def)
  ultimately have k4: "status_kept c c4" using k1 status_kept_trans by blast
  have "c' \<in> {c, c1, c4}"
    using assms 1 unfolding shmopt_create_value_segment_def Let_def by (auto simp: c2_def c3_def c4_def split: if_splits)
  then show ?thesis using k1 k4 by auto
qed

lemma open_segments_status: "open_segments_loop n i c = (r, c') \<Longrightarrow> status_kept c c'"
proof (induction n i c rule: open_segments_loop.induct)
  case (2 n i c)
  obtain r1 c1 where 1: "shmopt_init_value_segment c i = (r1, c1)" by (metis surj_pair)
  have k: "status_kept c c1" by (rule init_value_segment_status [OF 1])
  have "status_kept c1 (c1\<lparr>sc_values_count := sc_values_count c1 + 1\<rparr>)"
    by (simp add: status_kept_def fixed_def initialised_def)
  then have k2: "status_kept c (c1\<lparr>sc_values_count := sc_values_count c1 + 1\<rparr>)" by (rule status_kept_trans [OF k])
  show ?case
  proof (cases "r1 = 0")
    case True
    then have "status_kept (c1\<lparr>sc_values_count := sc_values_count c1 + 1\<rparr>) c'"
      using "2.IH" [OF 1 [symmetric] refl] "2.prems" 1 by simp
    then show ?thesis by (rule status_kept_trans [OF k2])
  qed (use "2.prems" 1 k in simp)
qed simp

lemma min_memory_status: "min_memory_loop n m r c = (r', c') \<Longrightarrow> status_kept c c'"
proof (induction n m r c rule: min_memory_loop.induct)
  case (2 n m r c)
  obtain r1 c1 where 1: "shmopt_create_value_segment c = (r1, c1)" by (metis surj_pair)
  have k: "status_kept c c1" by (rule create_value_segment_status [OF 1])
  show ?case
  proof (cases "seg_size (sc_ht_segment c) + vs_size (mi_segment (sc_memory c)) * vs_current (mi_segment (sc_memory c)) < m
      \<and> r1 = 0 \<and> \<not> vs_max (mi_segment (sc_memory c1)) \<le> vs_current (mi_segment (sc_memory c1))")
    case True
    then have "status_kept c1 c'" using "2.IH" [OF _ refl 1 [symmetric]] "2.prems" 1 by simp
    then show ?thesis by (rule status_kept_trans [OF k])
  qed (use "2.prems" 1 k in \<open>auto split: if_splits\<close>)
qed simp

lemma init_value_segments_status:
  assumes "trylock_ok (sc_env c)"
  obtains r c' where "init_value_segments others m c = Some (r, c')" "status_kept c c'"
proof -
  obtain r1 c1 where 1: "shmopt_open_value_segments c = (r1, c1)" by (metis surj_pair)
  have k1: "status_kept c c1" using 1 open_segments_status unfolding shmopt_open_value_segments_def by blast
  have "trylock_ok (sc_env c1)" using k1 assms by (simp add: status_kept_def fixed_def trylock_ok_def)
  then obtain c2 where 2: "shm_lock others c1 = Some (0, c2)" "locking c1 c2"
    by (rule shm_lock_uncontended [where c = c1 and others = others])
  obtain r3 c3 where 3: "min_memory_loop (Suc (nat (vs_max (mi_segment (sc_memory c2)) - vs_current (mi_segment (sc_memory c2)))))
      m r1 c2 = (r3, c3)" by (metis surj_pair)
  have "status_kept c1 (snd (shm_unlock c3))"
    using status_kept_trans [OF status_kept_locking [OF 2(2)] status_kept_trans [OF min_memory_status [OF 3]
        status_kept_locking [OF locking_unlock]]] .
  then have k3: "status_kept c (snd (shm_unlock c3))" by (rule status_kept_trans [OF k1])
  have "init_value_segments others m c = (if r1 = 0 \<and> vs_current (mi_segment (sc_memory c1)) < vs_max (mi_segment (sc_memory c1))
      then Some (r3, snd (shm_unlock c3)) else Some (r1, c1))"
    unfolding init_value_segments_def 1 prod.case Let_def 2 bind.bind_lunit 3 ..
  then show thesis using that [of r1 c1] that [of r3 "snd (shm_unlock c3)"] k1 k3 by presburger
qed

text \<open>The process that finds zeroed memory.\<close>

lemma init_attached_inv:
  assumes "attached c n segment striping offs" and "maps_ok (sc_env c)" and "trylock_ok (sc_env c)"
  obtains r c' where "init_attached (\<lambda>c. c) True (int n) segment striping offs c = Some (r, c')"
    "initialised c' \<longrightarrow> full_inv c' [] \<and> fixed c c'"
proof -
  have st: "mi_status (sc_memory c) = SHMCACHE_STATUS_INIT" using assms(1) by (simp add: attached_def)
  obtain r1 c1 where 1: "shmcache_do_lock_init (\<lambda>c. c) c (int n) segment striping offs = (r1, c1)" by (metis surj_pair)
  note init = do_lock_init_inv [OF assms(1,2) 1]
  have try1: "trylock_ok (sc_env c1)" using init(1) assms(3) by (simp add: fixed_def trylock_ok_def)
  have run: "init_attached (\<lambda>c. c) True (int n) segment striping offs c = (if r1 = 0 \<or> r1 = - EEXIST
      then map_option (apsnd set_deadlock_clocks) (init_value_segments (\<lambda>c. c) (cfg_min_memory (sc_config c1)) c1)
      else Some (r1, c1))"
    unfolding init_attached_def st using 1 by simp
  have clocks: "initialised (set_deadlock_clocks d) = initialised d" for d
    by (simp add: initialised_def set_deadlock_clocks_def)
  show thesis
  proof (cases "r1 = 0 \<or> r1 = - EEXIST")
    case False
    then show thesis using that run init by simp
  next
    case True
    obtain r2 c2 where 2: "init_value_segments (\<lambda>c. c) (cfg_min_memory (sc_config c1)) c1 = Some (r2, c2)" "status_kept c1 c2"
      by (rule init_value_segments_status [OF try1])
    have "full_inv c2 []" if "initialised c1"
      using init_value_segments_inv [OF conjunct2 [OF init(2) [OF that]] try1] 2(1) by (metis option.inject prod.inject)
    moreover have "fixed c (set_deadlock_clocks c2)"
      using fixed_trans [OF init(1)] 2(2) by (simp add: status_kept_def fixed_def set_deadlock_clocks_def)
    ultimately have "initialised (set_deadlock_clocks c2) \<longrightarrow> full_inv (set_deadlock_clocks c2) [] \<and> fixed c (set_deadlock_clocks c2)"
      using set_deadlock_clocks_inv(1) 2(2) by (simp add: clocks status_kept_def)
    moreover have "init_attached (\<lambda>c. c) True (int n) segment striping offs c = Some (r2, set_deadlock_clocks c2)"
      using run True 2(1) by simp
    ultimately show thesis using that by blast
  qed
qed

lemma init_context_fields:
  "sc_config (init_context c config b) = config" "sc_fastcommon (init_context c config b) = sc_fastcommon c"
  "env_sys (sc_env (init_context c config b)) = env_sys (sc_env c)" "sc_values_count (init_context c config b) = 0"
  "sc_create_segment (init_context c config b) = b"
  by (simp_all add: init_context_def sys_def case_prod_unfold Let_def)

lemma shm_exists_env [simp]: "env_sys (snd (shm_exists mp type filename proj_id e)) = env_sys e"
  by (simp add: shm_exists_def case_prod_unfold Let_def)

lemma shm_exists_history:
  obtains ex h where "shm_exists mp type filename proj_id e = (ex, e\<lparr>env_history := h\<rparr>)"
proof -
  obtain ex e' where 1: "shm_exists mp type filename proj_id e = (ex, e')" by (metis surj_pair)
  then have "env_sys e' = env_sys e" using shm_exists_env [of mp type filename proj_id e] by simp
  then have "e' = e\<lparr>env_history := env_history e'\<rparr>" by simp
  then show thesis using that 1 by metis
qed

text \<open>The context that looks at the header: the image is attached to a process with fresh fields.\<close>

definition process_attached ::
  "shmcache_context \<Rightarrow> shm_image \<Rightarrow> shm_value_size_info \<Rightarrow> ht_offsets \<Rightarrow> shmcache_segment_info \<Rightarrow> sysreq list \<Rightarrow> shmcache_context" where
  "process_attached c img segment offs s h =
     shmcache_set_obj_allocators (shm_list_set (attach_image img
       (c\<lparr>sc_ht_segment := s, sc_values_items := replicate (nat (vs_max segment)) zero_segment_info,
          sc_env := (sc_env c)\<lparr>env_history := h\<rparr>\<rparr>))) offs"

lemma shmcache_init_cases:
  assumes "maps_ok (sc_env c)"
    and "shmcache_get_ht_segment_size (init_context c config b) = ((sz, segment, striping, capacity, offs), c1)"
    and "\<exists>h. c1 = (init_context c config b)\<lparr>sc_env := (sc_env (init_context c config b))\<lparr>env_history := h\<rparr>\<rparr>"
  obtains (failed) r s h where "shmcache_init others img c config b check_segment
        = Some (r, (init_context c config b)\<lparr>sc_ht_segment := s, sc_env := (sc_env (init_context c config b))\<lparr>env_history := h\<rparr>\<rparr>)" "r \<noteq> 0"
  | (mismatch) r s h where "shmcache_init others img c config b check_segment
        = Some (r, process_attached (init_context c config b) img segment offs s h)" "r \<noteq> 0"
  | (attached) s h where "shmcache_init others img c config b check_segment
        = init_attached others b capacity segment striping offs (process_attached (init_context c config b) img segment offs s h)"
proof -
  let ?c0 = "init_context c config b"
  obtain h1 where c1: "c1 = ?c0\<lparr>sc_env := (sc_env ?c0)\<lparr>env_history := h1\<rparr>\<rparr>" using assms(3) by blast
  obtain ex h2 where 2: "shm_exists (fc_max_path_size (sc_fastcommon c1)) (cfg_type (sc_config c1))
            (cfg_filename (sc_config c1)) 1 (sc_env c1) = (ex, (sc_env c1)\<lparr>env_history := h2\<rparr>)" by (rule shm_exists_history)
  define c2 where "c2 = c1\<lparr>sc_env := (sc_env c1)\<lparr>env_history := h2\<rparr>\<rparr>"
  have "maps_ok (sc_env c2)" using assms(1) by (simp add: maps_ok_def c2_def c1 init_context_fields)
  then obtain r3 s h3 where 3: "shmopt_init_segment c2 (sc_ht_segment c2) 1 sz
      = ((r3, s), c2\<lparr>sc_env := (sc_env c2)\<lparr>env_history := h3\<rparr>\<rparr>)" "r3 = 0 \<longrightarrow> mapped (seg_base s)"
    using init_segment [where seg = "sc_ht_segment c2" and proj_id = 1 and sz = sz] by blast
  define c3 where "c3 = c2\<lparr>sc_env := (sc_env c2)\<lparr>env_history := h3\<rparr>, sc_ht_segment := s\<rparr>"
  obtain items c4 where 4: "sys (Sys_malloc (sizeof_shmcache_segment_info * vs_max segment)) c3 = (items, c4)" by (metis surj_pair)
  then obtain h4 where c4: "c4 = c3\<lparr>sc_env := (sc_env c3)\<lparr>env_history := h4\<rparr>\<rparr>"
    by (auto simp: sys_def sysval_def syscall_def)
  have c3': "c3 = ?c0\<lparr>sc_ht_segment := s, sc_env := (sc_env ?c0)\<lparr>env_history := h3\<rparr>\<rparr>"
    by (rule shmcache_context.equality) (simp_all add: c3_def c2_def c1)
  have c4': "c4 = ?c0\<lparr>sc_ht_segment := s, sc_env := (sc_env ?c0)\<lparr>env_history := h4\<rparr>\<rparr>" by (simp add: c4 c3')
  let ?p = "process_attached ?c0 img segment offs s h4"
  have p: "?p = shmcache_set_obj_allocators (shm_list_set (attach_image img
       (c4\<lparr>sc_values_items := replicate (nat (vs_max segment)) zero_segment_info\<rparr>))) offs"
    unfolding process_attached_def c4'
    by (intro arg_cong [where f = "\<lambda>d. shmcache_set_obj_allocators (shm_list_set (attach_image img d)) offs"]
        shmcache_context.equality) simp_all
  define r5 where "r5 = (if ex \<and> check_segment then shmcache_check ?p segment striping else 0)"
  have run: "shmcache_init others img c config b check_segment = (if r3 \<noteq> 0 then Some (r3, c3)
      else if items = 0 then Some (ENOMEM, c4) else if r5 \<noteq> 0 then Some (r5, ?p)
      else init_attached others b capacity segment striping offs ?p)"
    unfolding shmcache_init_def Let_def assms(2) prod.case 2 c2_def [symmetric] 3(1) c3_def [symmetric] 4 p [symmetric] r5_def [symmetric]
    using 3(2) by simp
  show thesis
  proof (cases "r3 = 0 \<and> items \<noteq> 0")
    case False
    then show thesis
      using run failed [of r3 h3 s] failed [of ENOMEM h4 s] by (cases "r3 = 0") (simp_all add: c3' [symmetric] c4' [symmetric])
  next
    case True
    then show thesis using run mismatch [of r5 s h4] attached [of s h4] by (cases "r5 = 0") simp_all
  qed
qed

definition first_init_ok :: "nat \<Rightarrow> shmcache_context \<Rightarrow> shmcache_config \<Rightarrow> bool" where
  "first_init_ok k c config \<longleftrightarrow> config_ok k config \<and> pages_ok k (sc_env c) \<and> maps_ok (sc_env c)
     \<and> trylock_ok (sc_env c) \<and> primes_ok (sc_fastcommon c)"

lemma process_attached_zero:
  assumes "sizes_ok segment striping" and "0 < capacity" and "0 < off_va_pool_object offs"
  shows "attached (process_attached (init_context c config b) (zero_image (nat capacity) (nat (vs_max striping))) segment offs s h)
    (nat capacity) segment striping offs"
  using assms init_context_fields(4) [of c config b]
  by (simp add: attached_def process_attached_def shmcache_set_obj_allocators_def shm_list_set_def attach_image_def zero_image_def
      zero_pool_def shm_object_pool_set_def) (simp add: zero_memory_def Let_def head_offset_def)

lemma init_inv:
  assumes "first_init_ok k c config"
    and "shmcache_get_ht_segment_size (init_context c config True) = ((sz, segment, striping, capacity, offs), c1)"
    and "sz \<le> cfg_max_memory config"
  shows "\<exists>r c'. shmcache_init (\<lambda>c. c) (zero_image (nat capacity) (nat (vs_max striping))) c config True check_segment
    = Some (r, c') \<and> (r = 0 \<and> initialised c' \<longrightarrow> full_inv c' [] \<and> sc_config c' = config
        \<and> sc_fastcommon c' = sc_fastcommon c \<and> env_sys (sc_env c') = env_sys (sc_env c))"
proof -
  let ?c0 = "init_context c config True" and ?img = "zero_image (nat capacity) (nat (vs_max striping))"
  have ok: "pages_ok k (sc_env ?c0)" "config_ok k (sc_config ?c0)" "primes_ok (sc_fastcommon ?c0)"
    "sz \<le> cfg_max_memory (sc_config ?c0)" "maps_ok (sc_env c)" "trylock_ok (sc_env c)"
    using assms(1,3) by (simp_all add: first_init_ok_def init_context_fields pages_ok_def)
  note layout = ht_segment_layout [OF ok(1,2) assms(2) ok(4,3)]
  have "0 < cfg_max_key_count config" "0 \<le> vs_max striping"
    using ok(2) layout(1) by (auto simp: config_ok_def init_context_fields sizes_ok_def pos_imp_zdiv_nonneg_iff)
  then have off: "0 < off_va_pool_object offs"
    using layout(2,4) unfolding layout_ok_def distrib_left init_context_fields by linarith
  show ?thesis
  proof (rule shmcache_init_cases [OF ok(5) assms(2) layout(5), of "\<lambda>c. c" ?img check_segment])
    fix s h
    let ?p = "process_attached ?c0 ?img segment offs s h"
    assume run: "shmcache_init (\<lambda>c. c) ?img c config True check_segment = init_attached (\<lambda>c. c) True capacity segment striping offs ?p"
    have at: "attached ?p (nat capacity) segment striping offs" by (rule process_attached_zero [OF layout(1,4) off])
    have p: "sc_config ?p = config" "sc_fastcommon ?p = sc_fastcommon c" "env_sys (sc_env ?p) = env_sys (sc_env c)"
      by (simp_all add: process_attached_def shmcache_set_obj_allocators_def shm_list_set_def attach_image_def init_context_fields)
    then have "maps_ok (sc_env ?p)" "trylock_ok (sc_env ?p)" using ok(5,6) by (simp_all add: maps_ok_def trylock_ok_def)
    then obtain r c' where "init_attached (\<lambda>c. c) True (int (nat capacity)) segment striping offs ?p = Some (r, c')"
      "initialised c' \<longrightarrow> full_inv c' [] \<and> fixed ?p c'" by (rule init_attached_inv [OF at])
    then show ?thesis unfolding run using layout(4) p by (auto simp: fixed_def)
  qed blast+
qed

end
