(* ===== verification/LockProtocol.thy ===== *)
theory LockProtocol
  imports ShmLock
begin

text \<open>
  The lock as a protocol between processes: \<^verbatim>\<open>shm_lock\<close>, \<^verbatim>\<open>shm_unlock\<close> and \<^verbatim>\<open>shm_detect_deadlock\<close> of
  \<^verbatim>\<open>src/src/shm_lock.c\<close> cut at their accesses to shared state, with the steps of all processes
  interleaved and processes that may die between any two steps. A pid is not used again.

  The mutex is the platform's: it is free, or locked by a process (the platform does not say by which
  one; the program never reads that part of the state).
\<close>

section \<open>States and steps\<close>

datatype lock_pc =
    Outside           \<comment> \<open>before the next try\<close>
  | Acquired          \<comment> \<open>\<open>trylock\<close> succeeded, the pid is not written yet\<close>
  | Critical          \<comment> \<open>\<open>shm_lock\<close> has returned\<close>
  | Releasing         \<comment> \<open>the pid is cleared, the mutex still locked\<close>
  | Suspects nat      \<comment> \<open>has read the pid of the holder after too many tries\<close>
  | Found_Dead nat    \<comment> \<open>\<open>kill\<close> says that the holder is gone\<close>
  | File_Locked nat   \<comment> \<open>has the file lock\<close>
  | Confirmed nat     \<comment> \<open>the pid is still the one of the dead holder\<close>
  | Clearing          \<comment> \<open>has cleared the pid, clears the table\<close>
  | Recovered         \<comment> \<open>has unlocked the mutex\<close>

record lock_state =
  ls_mutex :: "nat option"
  ls_pid :: nat
  ls_file :: "nat option"
  ls_alive :: "nat \<Rightarrow> bool"
  ls_pc :: "nat \<Rightarrow> lock_pc"

abbreviation (input) at :: "lock_state \<Rightarrow> nat \<Rightarrow> lock_pc \<Rightarrow> bool" where
  "at s p l \<equiv> ls_alive s p \<and> ls_pc s p = l"

abbreviation (input) go :: "lock_state \<Rightarrow> nat \<Rightarrow> lock_pc \<Rightarrow> lock_state" where
  "go s p l \<equiv> s\<lparr>ls_pc := (ls_pc s)(p := l)\<rparr>"

inductive lock_step :: "lock_state \<Rightarrow> lock_state \<Rightarrow> bool" where
  trylock: "at s p Outside \<Longrightarrow> p > 0 \<Longrightarrow> ls_mutex s = None \<Longrightarrow> lock_step s ((go s p Acquired)\<lparr>ls_mutex := Some p\<rparr>)"
| set_pid: "at s p Acquired \<Longrightarrow> lock_step s ((go s p Critical)\<lparr>ls_pid := p\<rparr>)"
| clear_pid: "at s p Critical \<Longrightarrow> lock_step s ((go s p Releasing)\<lparr>ls_pid := 0\<rparr>)"
| unlock: "at s p Releasing \<Longrightarrow> lock_step s ((go s p Outside)\<lparr>ls_mutex := None\<rparr>)"
| read_pid: "at s p Outside \<Longrightarrow> ls_pid s > 0 \<Longrightarrow> lock_step s (go s p (Suspects (ls_pid s)))"
| kill_alive: "at s p (Suspects q) \<Longrightarrow> ls_alive s q \<Longrightarrow> lock_step s (go s p Outside)"
| kill_dead: "at s p (Suspects q) \<Longrightarrow> \<not> ls_alive s q \<Longrightarrow> lock_step s (go s p (Found_Dead q))"
| file_fail: "at s p (Found_Dead q) \<Longrightarrow> lock_step s (go s p Outside)"
| file_lock: "at s p (Found_Dead q) \<Longrightarrow> ls_file s = None \<Longrightarrow> lock_step s ((go s p (File_Locked q))\<lparr>ls_file := Some p\<rparr>)"
| pid_changed: "at s p (File_Locked q) \<Longrightarrow> ls_pid s \<noteq> q \<Longrightarrow> lock_step s ((go s p Outside)\<lparr>ls_file := None\<rparr>)"
| pid_same: "at s p (File_Locked q) \<Longrightarrow> ls_pid s = q \<Longrightarrow> lock_step s (go s p (Confirmed q))"
| reset_pid: "at s p (Confirmed q) \<Longrightarrow> lock_step s ((go s p Clearing)\<lparr>ls_pid := 0\<rparr>)"
| recover: "at s p Clearing \<Longrightarrow> lock_step s ((go s p Recovered)\<lparr>ls_mutex := None\<rparr>)"
| file_unlock: "at s p Recovered \<Longrightarrow> lock_step s ((go s p Outside)\<lparr>ls_file := None\<rparr>)"
| die: "ls_alive s p \<Longrightarrow> lock_step s (s\<lparr>ls_alive := (ls_alive s)(p := False), ls_file := (if ls_file s = Some p then None else ls_file s)\<rparr>)"

definition lock_init_state :: lock_state where
  "lock_init_state = \<lparr>ls_mutex = None, ls_pid = 0, ls_file = None, ls_alive = (\<lambda>_. True), ls_pc = (\<lambda>_. Outside)\<rparr>"

abbreviation lock_reachable :: "lock_state \<Rightarrow> bool" where
  "lock_reachable s \<equiv> lock_step\<^sup>*\<^sup>* lock_init_state s"

section \<open>The invariant\<close>

text \<open>What a live process at a position may rely on.\<close>

definition proc_ok :: "lock_state \<Rightarrow> nat \<Rightarrow> bool" where
  "proc_ok s p \<longleftrightarrow> (case ls_pc s p of
       Outside \<Rightarrow> True
     | Acquired \<Rightarrow> ls_mutex s = Some p \<and> p > 0 \<and> ls_pid s = 0
     | Critical \<Rightarrow> ls_mutex s = Some p \<and> p > 0 \<and> ls_pid s = p
     | Releasing \<Rightarrow> ls_mutex s = Some p \<and> p > 0 \<and> ls_pid s = 0
     | Suspects q \<Rightarrow> q > 0
     | Found_Dead q \<Rightarrow> q > 0 \<and> \<not> ls_alive s q
     | File_Locked q \<Rightarrow> q > 0 \<and> \<not> ls_alive s q \<and> ls_file s = Some p
     | Confirmed q \<Rightarrow> q > 0 \<and> \<not> ls_alive s q \<and> ls_file s = Some p \<and> ls_pid s = q
     | Clearing \<Rightarrow> ls_file s = Some p \<and> ls_pid s = 0 \<and> (case ls_mutex s of None \<Rightarrow> False | Some q \<Rightarrow> \<not> ls_alive s q)
     | Recovered \<Rightarrow> ls_file s = Some p)"

definition lock_inv :: "lock_state \<Rightarrow> bool" where
  "lock_inv s \<longleftrightarrow> (\<forall>p. ls_alive s p \<longrightarrow> proc_ok s p) \<and> (ls_pid s > 0 \<longrightarrow> ls_mutex s = Some (ls_pid s))"

lemma lock_inv_init: "lock_inv lock_init_state"
  by (simp add: lock_inv_def lock_init_state_def proc_ok_def)

lemma lock_invD:
  "lock_inv s \<Longrightarrow> ls_alive s p \<Longrightarrow> proc_ok s p"
  "lock_inv s \<Longrightarrow> ls_pid s > 0 \<Longrightarrow> ls_mutex s = Some (ls_pid s)"
  by (simp_all add: lock_inv_def)

text \<open>A step of process \<open>p\<close> has to be checked against one other process at a time.\<close>

lemma lock_inv_stepI:
  assumes "lock_inv s" and "ls_alive s p"
    and "proc_ok s p \<Longrightarrow> ls_pid s' > 0 \<Longrightarrow> ls_mutex s' = Some (ls_pid s')"
    and "proc_ok s p \<Longrightarrow> ls_alive s' p \<Longrightarrow> proc_ok s' p"
    and "\<And>p'. p' \<noteq> p \<Longrightarrow> ls_alive s' p' \<Longrightarrow> proc_ok s p \<Longrightarrow> ls_alive s p' \<and> (proc_ok s p' \<longrightarrow> proc_ok s' p')"
  shows "lock_inv s'"
  unfolding lock_inv_def
proof (intro conjI allI impI)
  fix p'
  assume "ls_alive s' p'"
  then show "proc_ok s' p'"
    using assms(4,5) lock_invD(1) [OF assms(1)] assms(2) by (cases "p' = p") blast+
qed (rule assms(3) [OF lock_invD(1) [OF assms(1,2)]])

lemma lock_inv_step:
  assumes "lock_step s s'" and "lock_inv s"
  shows "lock_inv s'"
  using assms(1)
  by cases (rule lock_inv_stepI [OF assms(2)], blast,
    (insert lock_invD(2) [OF assms(2)], auto simp: proc_ok_def split: lock_pc.splits option.splits)[3])+

lemma lock_reachable_inv: "lock_reachable s \<Longrightarrow> lock_inv s"
  by (induction rule: rtranclp_induct) (auto intro: lock_inv_init lock_inv_step)

section \<open>Mutual exclusion, recovery and the gap\<close>

text \<open>The positions from which a process works on the lock or the table.\<close>

definition inside :: "lock_pc \<Rightarrow> bool" where
  "inside l \<longleftrightarrow> l = Acquired \<or> l = Critical \<or> l = Releasing \<or> l = Clearing"

lemma inside_owner:
  assumes "lock_inv s" and "ls_alive s p" and "inside (ls_pc s p)"
  shows "ls_mutex s = Some p \<or> ls_file s = Some p \<and> (\<exists>q. ls_mutex s = Some q \<and> \<not> ls_alive s q)"
  using lock_invD(1) [OF assms(1,2)] assms(3)
  by (auto simp: proc_ok_def inside_def split: lock_pc.splits option.splits)

text \<open>C4: Mutual exclusion of the cache lock. In every state that any interleaving of \<^verbatim>\<open>shm_lock\<close>,
  \<^verbatim>\<open>shm_unlock\<close> and \<^verbatim>\<open>shm_detect_deadlock\<close> reaches, with processes dying at any point, at most one
  live process is between taking and releasing the lock or is clearing the table of a dead holder.\<close>

theorem lock_mutual_exclusion:
  assumes "lock_reachable s" and "ls_alive s p" and "inside (ls_pc s p)" and "ls_alive s p'" and "inside (ls_pc s p')"
  shows "p = p'"
  using inside_owner [OF lock_reachable_inv [OF assms(1)] assms(2,3)]
    inside_owner [OF lock_reachable_inv [OF assms(1)] assms(4,5)] assms(2,4) by auto

lemma lock_step_rtrancl: "lock_step s s1 \<Longrightarrow> lock_step\<^sup>*\<^sup>* s1 s' \<Longrightarrow> lock_step\<^sup>*\<^sup>* s s'"
  by (rule converse_rtranclp_into_rtranclp)

definition one_critical :: lock_state where
  "one_critical = \<lparr>ls_mutex = Some 1, ls_pid = 1, ls_file = None, ls_alive = (\<lambda>_. True), ls_pc = (\<lambda>_. Outside)(1 := Critical)\<rparr>"

lemma one_critical_reachable: "lock_reachable one_critical"
proof -
  let ?s = "(go lock_init_state 1 Acquired)\<lparr>ls_mutex := Some 1\<rparr>"
  have "lock_step lock_init_state ?s" by (rule lock_step.trylock) (simp_all add: lock_init_state_def)
  moreover have "lock_step ?s ((go ?s 1 Critical)\<lparr>ls_pid := 1\<rparr>)" by (rule lock_step.set_pid) (simp add: lock_init_state_def)
  moreover have "(go ?s 1 Critical)\<lparr>ls_pid := 1\<rparr> = one_critical" by (simp add: one_critical_def lock_init_state_def)
  ultimately show ?thesis by (metis converse_rtranclp_into_rtranclp r_into_rtranclp)
qed

theorem lock_mutual_exclusion_witness:
  "lock_reachable one_critical \<and> inside (ls_pc one_critical 1) \<and> (1 :: nat) = 1"
  using lock_mutual_exclusion [OF one_critical_reachable, of 1 1] one_critical_reachable
  by (simp add: one_critical_def inside_def)

text \<open>Recovery from a dead lock holder. When the recorded holder of the lock is dead and nobody has
  the file lock, a live process that waits for the lock has a way through \<^verbatim>\<open>shm_detect_deadlock\<close> to
  holding the lock itself, with its own pid recorded.\<close>

theorem lock_recovery:
  assumes "lock_reachable s" and "ls_pid s = q" and "q > 0" and "\<not> ls_alive s q"
    and "ls_alive s p" and "ls_pc s p = Outside" and "p > 0" and "ls_file s = None"
  shows "\<exists>s'. lock_step\<^sup>*\<^sup>* s s' \<and> ls_alive s' = ls_alive s \<and> ls_pc s' p = Critical \<and> ls_pid s' = p"
proof -
  define s1 where "s1 = go s p (Suspects q)"
  define s2 where "s2 = go s1 p (Found_Dead q)"
  define s3 where "s3 = (go s2 p (File_Locked q))\<lparr>ls_file := Some p\<rparr>"
  define s4 where "s4 = go s3 p (Confirmed q)"
  define s5 where "s5 = (go s4 p Clearing)\<lparr>ls_pid := 0\<rparr>"
  define s6 where "s6 = (go s5 p Recovered)\<lparr>ls_mutex := None\<rparr>"
  define s7 where "s7 = (go s6 p Outside)\<lparr>ls_file := None\<rparr>"
  define s8 where "s8 = (go s7 p Acquired)\<lparr>ls_mutex := Some p\<rparr>"
  define s9 where "s9 = (go s8 p Critical)\<lparr>ls_pid := p\<rparr>"
  note defs = s1_def s2_def s3_def s4_def s5_def s6_def s7_def s8_def s9_def
  have "lock_step s s1" unfolding s1_def assms(2) [symmetric] by (rule lock_step.read_pid) (use assms in simp_all)
  moreover have "lock_step s1 s2" unfolding s2_def by (rule lock_step.kill_dead) (use assms in \<open>simp_all add: defs\<close>)
  moreover have "lock_step s2 s3" unfolding s3_def by (rule lock_step.file_lock) (use assms in \<open>simp_all add: defs\<close>)
  moreover have "lock_step s3 s4" unfolding s4_def by (rule lock_step.pid_same) (use assms in \<open>simp_all add: defs\<close>)
  moreover have "lock_step s4 s5" unfolding s5_def by (rule lock_step.reset_pid [where q = q]) (use assms in \<open>simp_all add: defs\<close>)
  moreover have "lock_step s5 s6" unfolding s6_def by (rule lock_step.recover) (use assms in \<open>simp_all add: defs\<close>)
  moreover have "lock_step s6 s7" unfolding s7_def by (rule lock_step.file_unlock) (use assms in \<open>simp_all add: defs\<close>)
  moreover have "lock_step s7 s8" unfolding s8_def by (rule lock_step.trylock) (use assms in \<open>simp_all add: defs\<close>)
  moreover have "lock_step s8 s9" unfolding s9_def by (rule lock_step.set_pid) (use assms in \<open>simp_all add: defs\<close>)
  ultimately have "lock_step\<^sup>*\<^sup>* s s9" by (meson lock_step_rtrancl rtranclp.rtrancl_refl)
  then show ?thesis by (rule exI [of _ s9, OF conjI]) (simp add: defs)
qed

definition dead_holder :: lock_state where
  "dead_holder = one_critical\<lparr>ls_alive := (\<lambda>_. True)(1 := False)\<rparr>"

lemma dead_holder_reachable: "lock_reachable dead_holder"
proof -
  have "lock_step one_critical (one_critical\<lparr>ls_alive := (ls_alive one_critical)(1 := False),
      ls_file := (if ls_file one_critical = Some 1 then None else ls_file one_critical)\<rparr>)"
    by (rule lock_step.die) (simp add: one_critical_def)
  then have "lock_step one_critical dead_holder" by (simp add: dead_holder_def one_critical_def)
  then show ?thesis using one_critical_reachable by (rule rtranclp.rtrancl_into_rtrancl [rotated])
qed

theorem lock_recovery_witness:
  "\<exists>s'. lock_step\<^sup>*\<^sup>* dead_holder s' \<and> ls_alive s' = ls_alive dead_holder \<and> ls_pc s' 2 = Critical \<and> ls_pid s' = 2"
  by (rule lock_recovery [OF dead_holder_reachable, of 1 2]) (simp_all add: dead_holder_def one_critical_def)

text \<open>A mutex that is locked for a dead process while no pid is recorded.\<close>

definition orphaned :: "lock_state \<Rightarrow> nat \<Rightarrow> bool" where
  "orphaned s q \<longleftrightarrow> lock_inv s \<and> ls_mutex s = Some q \<and> \<not> ls_alive s q \<and> ls_pid s = 0
     \<and> (\<forall>p. ls_alive s p \<longrightarrow> ls_pc s p \<noteq> Clearing)"

lemma orphaned_step:
  assumes "lock_step s s'" and "orphaned s q"
  shows "orphaned s' q"
proof -
  have inv: "lock_inv s'" using lock_inv_step assms by (simp add: orphaned_def)
  have o: "ls_mutex s = Some q" "\<not> ls_alive s q" "ls_pid s = 0" "ls_alive s p \<Longrightarrow> proc_ok s p"
    "ls_alive s p \<Longrightarrow> ls_pc s p \<noteq> Clearing" for p
    using assms(2) lock_invD(1) by (auto simp: orphaned_def)
  from assms(1) have "ls_mutex s' = Some q \<and> \<not> ls_alive s' q \<and> ls_pid s' = 0 \<and> (\<forall>p. ls_alive s' p \<longrightarrow> ls_pc s' p \<noteq> Clearing)"
  proof cases
    case (set_pid p)
    then show ?thesis using o(1,2) o(4) [of p] by (simp add: proc_ok_def)
  next
    case (unlock p)
    then show ?thesis using o(1,2) o(4) [of p] by (simp add: proc_ok_def)
  next
    case (reset_pid p q')
    then show ?thesis using o(3) o(4) [of p] by (auto simp: proc_ok_def)
  next
    case (recover p)
    then show ?thesis using o(5) [of p] by simp
  qed (use o(1-3,5) in auto)
  then show ?thesis using inv by (simp add: orphaned_def)
qed

text \<open>C40: The gap of the recovery. A process that dies after \<^verbatim>\<open>trylock\<close> and before it has written its pid,
  or after clearing the pid and before unlocking, leaves a mutex that is never free again: from such a
  state no sequence of steps of any processes unlocks it, since the pid 0 is not looked at.\<close>

theorem lock_orphaned_forever:
  assumes "lock_step\<^sup>*\<^sup>* s s'" and "orphaned s q"
  shows "ls_mutex s' = Some q \<and> orphaned s' q"
proof -
  have "orphaned s' q" using assms by (induction rule: rtranclp_induct) (auto intro: orphaned_step)
  then show ?thesis by (simp add: orphaned_def)
qed

definition orphan_state :: lock_state where
  "orphan_state = \<lparr>ls_mutex = Some 1, ls_pid = 0, ls_file = None, ls_alive = (\<lambda>_. True)(1 := False),
     ls_pc = (\<lambda>_. Outside)(1 := Acquired)\<rparr>"

lemma orphan_state_reachable: "lock_reachable orphan_state"
proof -
  let ?s = "(go lock_init_state 1 Acquired)\<lparr>ls_mutex := Some 1\<rparr>"
  have "lock_step lock_init_state ?s" by (rule lock_step.trylock) (simp_all add: lock_init_state_def)
  moreover have "lock_step ?s (?s\<lparr>ls_alive := (ls_alive ?s)(1 := False), ls_file := (if ls_file ?s = Some 1 then None else ls_file ?s)\<rparr>)"
    by (rule lock_step.die) (simp add: lock_init_state_def)
  then have "lock_step ?s orphan_state" by (simp add: orphan_state_def lock_init_state_def)
  ultimately show ?thesis by (metis converse_rtranclp_into_rtranclp r_into_rtranclp)
qed

theorem lock_orphaned_forever_witness:
  "lock_reachable orphan_state \<and> orphaned orphan_state 1 \<and> ls_mutex orphan_state = Some 1"
proof -
  have "orphaned orphan_state 1"
    using lock_reachable_inv [OF orphan_state_reachable] by (simp add: orphaned_def) (simp add: orphan_state_def)
  then show ?thesis using lock_orphaned_forever [OF rtranclp.rtrancl_refl] orphan_state_reachable by simp
qed

end
