(* ===== verification/Sample.thy ===== *)
theory Sample
  imports InitCorrect LockProtocol
begin

text \<open>
  Small concrete caches on which the hypotheses of the properties hold: a configuration, the answers of
  a platform, a process that starts on zeroed memory, and an empty cache of one segment of 1000 bytes with
  two stripings and seven buckets.
\<close>

definition sample_config :: shmcache_config where
  "sample_config = \<lparr>cfg_filename = ''c'', cfg_min_memory = 0, cfg_max_memory = 262144,
     cfg_segment_size = 65536, cfg_max_key_count = 10, cfg_max_value_size = 400, cfg_type = SHMCACHE_TYPE_SHM,
     cfg_recycle_key_once = - 1, cfg_recycle_valid_entries = False, cfg_avg_key_ttl = 0,
     cfg_discard_memory_size = 64, cfg_max_fail_times = 5, cfg_sleep_us_when_recycle_valid_entries = 0,
     cfg_read_within_lock = False, cfg_trylock_interval_us = 200, cfg_detect_deadlock_interval_ms = 1000,
     cfg_hash_func = (\<lambda>key. int (length key))\<rparr>"

definition sample_sys :: "sysreq list \<Rightarrow> sysreq \<Rightarrow> int \<times> int" where
  "sample_sys h r = (case r of
       Sys_getpagesize \<Rightarrow> 4096 | Sys_mmap _ _ \<Rightarrow> 1048576 | Sys_malloc _ \<Rightarrow> 8192 | Sys_open _ _ \<Rightarrow> 3
     | Sys_open_lock _ \<Rightarrow> 4 | Sys_fc_ftok _ _ \<Rightarrow> 7 | Sys_shmget _ _ b \<Rightarrow> (if b then 5 else - 1) | Sys_shmat _ \<Rightarrow> 1048576
     | Sys_getpid \<Rightarrow> 42 | Sys_get_current_time \<Rightarrow> 100 | _ \<Rightarrow> 0, 0)"

definition sample_fastcommon :: fastcommon where
  "sample_fastcommon = \<lparr>fc_mem_align = (\<lambda>x. (x + 7) div 8 * 8), fc_prime_capacity = (\<lambda>_. None), fc_max_path_size = 256\<rparr>"

definition sample_env :: env where
  "sample_env = \<lparr>env_sys = sample_sys, env_history = []\<rparr>"

definition sample_process :: shmcache_context where
  "sample_process = \<lparr>sc_pid = 0, sc_lock_fd = 0, sc_detect_deadlock_clocks = 0, sc_config = sample_config,
     sc_memory = zero_memory 0, sc_ht_segment = zero_segment_info, sc_values_count = 0, sc_values_items = [],
     sc_doing = zero_pool 0, sc_done = zero_pool 0, sc_allocators = [], sc_allocators_offset = 0,
     sc_list_head_offset = 0, sc_create_segment = False, sc_entries = (\<lambda>_. None),
     sc_g_current_time = 0, sc_g_schedule_flag = False, sc_fastcommon = sample_fastcommon, sc_env = sample_env\<rparr>"

definition sample_pool :: object_pool where
  "sample_pool = (zero_pool 3)\<lparr>op_base_offset := 600, op_element_size := 56, op_capacity := 3, op_index := - 1\<rparr>"

definition sample_memory :: shm_memory_info where
  "sample_memory = (zero_memory 7)\<lparr>mi_size := sizeof_shm_memory_info, mi_status := SHMCACHE_STATUS_NORMAL,
     mi_max_key_count := 10, mi_segment := \<lparr>vs_size = 1000, vs_current = 0, vs_max = 1\<rparr>,
     mi_striping := \<lparr>vs_size = 500, vs_current = 0, vs_max = 2\<rparr>,
     mi_head := \<lparr>sl_prev = head_offset, sl_next = head_offset\<rparr>, mi_capacity := 7\<rparr>"

definition sample_empty :: shmcache_context where
  "sample_empty = sample_process\<lparr>sc_pid := 42, sc_lock_fd := - 1, sc_detect_deadlock_clocks := 5,
     sc_memory := sample_memory, sc_values_items := [zero_segment_info], sc_doing := sample_pool, sc_done := sample_pool,
     sc_allocators := [zero_allocator, zero_allocator], sc_allocators_offset := 600,
     sc_list_head_offset := head_offset, sc_create_segment := True\<rparr>"

definition sample_cache :: shmcache_context where
  "sample_cache = snd (shmopt_create_value_segment sample_empty)"

definition sample_value :: "bytes \<Rightarrow> shmcache_value_info" where
  "sample_value s = \<lparr>vi_data = s, vi_options = 1, vi_expires = 0\<rparr>"

text \<open>The cache after one entry was stored.\<close>

definition sample_one :: shmcache_context where
  "sample_one = snd (the (shm_ht_set sample_cache ''ab'' (sample_value ''hi'')))"

text \<open>The cache after a second entry.\<close>

definition sample_two :: shmcache_context where
  "sample_two = snd (the (shm_ht_set sample_one ''cd'' (sample_value ''yo'')))"

definition sample_entry :: shm_hash_entry where
  "sample_entry = \<lparr>he_list = \<lparr>sl_prev = 0, sl_next = 0\<rparr>, he_key_len = 3, he_expires = 0, he_value_length = 2, he_value_options = 1,
     he_size = 80, he_index = \<lparr>ssp_segment = 0, ssp_striping = 0\<rparr>, he_offset = 140737488355327, he_ht_next = 0,
     he_key = ''abc'', he_data = ''hi''\<rparr>"

lemma sample_platform:
  "maps_ok sample_env" "trylock_ok sample_env" "pages_ok 12 sample_env" "primes_ok sample_fastcommon"
  by (simp_all add: maps_ok_def trylock_ok_def pages_ok_def primes_ok_def sample_env_def sample_sys_def mapped_def
      sample_fastcommon_def)

lemma sample_align: "align_ok sample_fastcommon"
proof -
  have "n \<le> (n + 7) div 8 * 8" for n :: int by presburger
  then show ?thesis by (simp add: align_ok_def sample_fastcommon_def)
qed

lemma sample_empty_inv: "full_inv sample_empty []"
proof -
  have "empty_cache sample_empty"
    by (simp add: empty_cache_def sizes_ok_def sample_empty_def sample_memory_def sample_pool_def zero_pool_def zero_memory_def
        zero_allocator_def Let_def pool_wf_def pool_list_def shm_object_pool_get_count_def sample_process_def)
  then show ?thesis
    using empty_cache_inv sample_platform by (simp add: full_inv_def) (simp add: sample_empty_def sample_process_def)
qed

lemma sample_cache_inv: "full_inv sample_cache []"
  using create_value_segment_inv(1) [OF sample_empty_inv] unfolding sample_cache_def by (metis prod.collapse)

lemma sample_fixed:
  "sc_fastcommon sample_cache = sample_fastcommon" "env_sys (sc_env sample_cache) = sample_sys" "sc_config sample_cache = sample_config"
  using create_value_segment_inv(3) [OF sample_empty_inv, of "fst (shmopt_create_value_segment sample_empty)" sample_cache]
  by (simp_all add: sample_cache_def fixed_def) (simp_all add: sample_empty_def sample_process_def sample_env_def)

lemma sample_cache_rep: "cache_rep sample_cache []"
  using sample_cache_inv sample_align by (auto simp: cache_rep_def entry_pairs_def sample_fixed intro!: exI [of _ "[]"])

lemma sample_set: "shm_ht_set sample_cache ''ab'' (sample_value ''hi'') = Some (0, sample_one)"
proof -
  have "map_option fst (shm_ht_set sample_cache ''ab'' (sample_value ''hi'')) = Some 0" by code_simp
  then show ?thesis unfolding sample_one_def by auto
qed

text \<open>The state after the set, from the contract of the table.\<close>

lemma sample_one_inv:
  obtains l where "full_inv sample_one [l]" "entry_pairs sample_one [l] = [(''ab'', sample_value ''hi'')]"
    "sc_fastcommon sample_one = sample_fastcommon" "sc_config sample_one = sample_config" "env_sys (sc_env sample_one) = sample_sys"
proof -
  have "align_ok (sc_fastcommon sample_cache)" using sample_align by (simp add: sample_fixed)
  then obtain r c' L' where s: "shm_ht_set sample_cache ''ab'' (sample_value ''hi'') = Some (r, c')"
    "set_post sample_cache [] ''ab'' (sample_value ''hi'') r c' L'" by (rule ht_set_total [OF sample_cache_inv])
  have "r = 0" "c' = sample_one" using s(1) sample_set by simp_all
  then have post: "full_inv sample_one L'" "fixed sample_cache sample_one" "entry_pairs sample_one L' = [(''ab'', sample_value ''hi'')]"
    using s(2) by (auto simp: set_post_def thinned_def entry_pairs_def)
  then obtain l where "L' = [l]" by (auto simp: entry_pairs_def)
  then show thesis using that [of l] post by (simp add: fixed_def sample_fixed)
qed

lemma sample_one_rep: "cache_rep sample_one [(''ab'', sample_value ''hi'')]"
  using sample_one_inv sample_align unfolding cache_rep_def by metis

lemma sample_api_rep: "api_rep sample_cache []" "api_rep sample_one [(''ab'', sample_value ''hi'')]"
proof -
  have "trylock_ok e" if "env_sys e = sample_sys" for e using that by (simp add: trylock_ok_def sample_sys_def)
  then show "api_rep sample_cache []" "api_rep sample_one [(''ab'', sample_value ''hi'')]"
    using sample_cache_rep sample_one_rep sample_one_inv by (auto simp: api_rep_def sample_fixed)
qed

lemma sample_set_two: "shm_ht_set sample_one ''cd'' (sample_value ''yo'') = Some (0, sample_two)"
proof -
  have "map_option fst (shm_ht_set sample_one ''cd'' (sample_value ''yo'')) = Some 0" by code_simp
  then show ?thesis unfolding sample_two_def by auto
qed

lemma sample_two_inv:
  obtains l m where "full_inv sample_two [l, m]"
    "entry_pairs sample_two [l, m] = [(''ab'', sample_value ''hi''), (''cd'', sample_value ''yo'')]"
    "env_sys (sc_env sample_two) = sample_sys" "sc_fastcommon sample_two = sample_fastcommon"
proof (rule sample_one_inv)
  fix k
  assume k: "full_inv sample_one [k]" "entry_pairs sample_one [k] = [(''ab'', sample_value ''hi'')]"
    "sc_fastcommon sample_one = sample_fastcommon" "sc_config sample_one = sample_config" "env_sys (sc_env sample_one) = sample_sys"
  have "align_ok (sc_fastcommon sample_one)" using k(3) sample_align by simp
  then obtain r c' L' where s: "shm_ht_set sample_one ''cd'' (sample_value ''yo'') = Some (r, c')"
    "set_post sample_one [k] ''cd'' (sample_value ''yo'') r c' L'" by (rule ht_set_total [OF k(1)])
  have "r = 0" "c' = sample_two" using s(1) sample_set_two by simp_all
  then obtain PS where post: "full_inv sample_two L'" "fixed sample_one sample_two"
    "entry_pairs sample_two L' = PS @ [(''cd'', sample_value ''yo'')]"
    "subseq PS [(''ab'', sample_value ''hi'')]" "filter permanent PS = [(''ab'', sample_value ''hi'')]"
    using s(2) k(2,4) by (auto simp: set_post_def thinned_def sample_config_def sample_value_def)
  have "PS = [(''ab'', sample_value ''hi'')]"
    using post(4,5) by (cases PS) (auto split: if_splits dest: list_emb_length)
  then have pairs: "entry_pairs sample_two L' = [(''ab'', sample_value ''hi''), (''cd'', sample_value ''yo'')]" using post(3) by simp
  then obtain l m where "L' = [l, m]" by (auto simp: entry_pairs_def Cons_eq_map_conv map_eq_Cons_conv)
  then show thesis using that post pairs k by (simp add: fixed_def)
qed

end
