(* ===== verification/TableProps.thy ===== *)
theory TableProps
  imports Sample
begin

text \<open>
  The properties of the hash table and of what it is built on, each over the abstract content of a
  cache: the list of the pairs of its linked entries in insertion order, or the finite map they
  represent.
\<close>

section \<open>Setting and reading\<close>

text \<open>
  C3: a set always returns. Its result is a cache that satisfies the invariant; after success the new pair is
  the youngest, and the other pairs are those from before, in their order, less the recycled ones and the old
  pair of the key. After a failure no pair is new.
\<close>

theorem ht_set_correct:
  assumes "full_inv c L" and "align_ok (sc_fastcommon c)"
  shows "\<exists>result c' L'. shm_ht_set c key value = Some (result, c') \<and> full_inv c' L'
    \<and> (if result = 0
       then \<exists>PS. thinned (sc_config c) (filter (\<lambda>p. fst p \<noteq> key) (entry_pairs c L)) PS
              \<and> entry_pairs c' L' = PS @ [(key, value)]
       else subseq (entry_pairs c' L') (entry_pairs c L))"
proof -
  obtain result c' L' where "shm_ht_set c key value = Some (result, c')" "set_post c L key value result c' L'"
    by (rule ht_set_total [OF assms])
  then show ?thesis unfolding set_post_def by blast
qed

theorem ht_set_correct_witness:
  "\<exists>result c' L'. shm_ht_set sample_cache ''ab'' (sample_value ''hi'') = Some (result, c') \<and> full_inv c' L'
    \<and> (if result = 0
       then \<exists>PS. thinned (sc_config sample_cache) (filter (\<lambda>p. fst p \<noteq> ''ab'') (entry_pairs sample_cache [])) PS
              \<and> entry_pairs c' L' = PS @ [(''ab'', sample_value ''hi'')]
       else subseq (entry_pairs c' L') (entry_pairs sample_cache []))"
  by (rule ht_set_correct [OF sample_cache_inv]) (simp add: sample_fixed sample_align)

text \<open>
  C11: when the configuration forbids to recycle valid entries, a successful set of another key keeps every entry
  that never expires.
\<close>

theorem ht_set_keeps_permanent:
  assumes "full_inv c L" and "align_ok (sc_fastcommon c)" and "\<not> cfg_recycle_valid_entries (sc_config c)"
    and "shm_ht_set c key value = Some (0, c')" and "cache_map c L other = Some v" and "vi_expires v = 0" and "other \<noteq> key"
  shows "\<exists>L'. full_inv c' L' \<and> cache_map c' L' other = Some v"
proof -
  obtain r c1 L' where s: "shm_ht_set c key value = Some (r, c1)" "set_post c L key value r c1 L'"
    by (rule ht_set_total [OF assms(1,2)])
  then have "r = 0" "c1 = c'" using assms(4) by simp_all
  then obtain PS where post: "full_inv c' L'" "entry_pairs c' L' = PS @ [(key, value)]"
    "filter permanent PS = filter permanent (filter (\<lambda>p. fst p \<noteq> key) (entry_pairs c L))"
    using s(2) assms(3) by (auto simp: set_post_def thinned_def)
  have "(other, v) \<in> set (filter permanent (filter (\<lambda>p. fst p \<noteq> key) (entry_pairs c L)))"
    using map_of_SomeD [OF assms(5) [unfolded cache_map_def]] assms(6,7) by simp
  then have "(other, v) \<in> set (entry_pairs c' L')" using post(2,3) by (metis UnI1 filter_is_subset set_append subsetD)
  moreover have "distinct (map fst (entry_pairs c' L'))" using entry_pairs_distinct post(1) by (simp add: full_inv_def)
  ultimately show ?thesis using post(1) by (auto simp: cache_map_def)
qed

theorem ht_set_keeps_permanent_witness:
  "\<exists>L'. full_inv sample_two L' \<and> cache_map sample_two L' ''ab'' = Some (sample_value ''hi'')"
proof (rule sample_one_inv)
  fix l
  assume l: "full_inv sample_one [l]" "entry_pairs sample_one [l] = [(''ab'', sample_value ''hi'')]"
    "sc_fastcommon sample_one = sample_fastcommon" "sc_config sample_one = sample_config"
  show ?thesis
    by (rule ht_set_keeps_permanent [OF l(1) _ _ sample_set_two])
      (use l sample_align in \<open>simp_all add: cache_map_def sample_config_def sample_value_def\<close>)
qed

text \<open>After a successful set a lookup of the key finds the value, and reports success when the value never expires.\<close>

theorem ht_get_after_set:
  assumes "full_inv c L" and "align_ok (sc_fastcommon c)" and "shm_ht_set c key value = Some (0, c')"
  shows "\<exists>result c''. shm_ht_get c' key = Some (result, Some value, c'') \<and> (vi_expires value = 0 \<longrightarrow> result = 0)"
proof -
  obtain r c1 L' where s: "shm_ht_set c key value = Some (r, c1)" "set_post c L key value r c1 L'"
    by (rule ht_set_total [OF assms(1,2)])
  then have "r = 0" "c1 = c'" using assms(3) by simp_all
  then have post: "cache_inv c' L'" "(key, value) \<in> set (entry_pairs c' L')"
    using s(2) by (auto simp: set_post_def full_inv_def)
  then have "cache_map c' L' key = Some value" using entry_pairs_distinct by (simp add: cache_map_def)
  then show ?thesis using ht_get_map [OF post(1), of key] by (auto simp: case_prod_unfold Let_def)
qed

theorem ht_get_after_set_witness:
  "\<exists>result c''. shm_ht_get sample_one ''ab'' = Some (result, Some (sample_value ''hi''), c'')
    \<and> (vi_expires (sample_value ''hi'') = 0 \<longrightarrow> result = 0)"
  by (rule ht_get_after_set [OF sample_cache_inv _ sample_set]) (simp add: sample_fixed sample_align)

text \<open>
  C10: a lookup is the lookup of the represented map: a missing key is reported as such, an expired value is
  returned with a timeout, and nothing but the system call history changes.
\<close>

theorem ht_get_refines_map:
  assumes "cache_inv c L"
  shows "shm_ht_get c key = (case cache_map c L key of
      None \<Rightarrow> Some (ENOENT, None, c)
    | Some v \<Rightarrow>
        if vi_expires v = 0 then Some (0, Some v, c)
        else (let (t, c') = get_current_time c in
              Some (if vi_expires v \<ge> t then 0 else ETIMEDOUT, Some v, c')))"
  by (rule ht_get_map [OF assms])

theorem ht_get_refines_map_witness: "shm_ht_get sample_cache ''ab'' = Some (ENOENT, None, sample_cache)"
proof -
  have "cache_inv sample_cache []" using sample_cache_inv by (simp add: full_inv_def)
  from ht_get_refines_map [OF this, of "''ab''"] show ?thesis by (simp add: cache_map_def entry_pairs_def)
qed

section \<open>Deleting, expiry times and clearing\<close>

text \<open>C16: a deletion removes exactly the entry of the key, and reports whether there was one.\<close>

theorem ht_delete_correct:
  assumes "full_inv c L"
  shows "\<exists>c' L'. shm_ht_delete c key = Some (if key \<in> fst ` set (entry_pairs c L) then 0 else ENOENT, c') \<and> full_inv c' L'
    \<and> entry_pairs c' L' = filter (\<lambda>p. fst p \<noteq> key) (entry_pairs c L)"
proof -
  have "cache_inv c L" using assms by (simp add: full_inv_def)
  then obtain c' where d: "shm_ht_delete c key = Some (if key \<in> fst ` set (entry_pairs c L) then 0 else ENOENT, c')"
    "cache_inv c' (filter (\<lambda>m. he_key (entry c m) \<noteq> key) L)" "ht_frame c c'"
    "entry_pairs c' (filter (\<lambda>m. he_key (entry c m) \<noteq> key) L) = filter (\<lambda>p. fst p \<noteq> key) (entry_pairs c L)"
    by (rule ht_delete_map)
  then show ?thesis using full_inv_stable [OF assms stable_ht_frame [OF d(3)] d(2)] by blast
qed

theorem ht_delete_correct_witness:
  "\<exists>L c' L'. shm_ht_delete sample_one ''ab'' = Some (0, c') \<and> full_inv sample_one L \<and> full_inv c' L' \<and> entry_pairs c' L' = []"
proof (rule sample_one_inv)
  fix l
  assume l: "full_inv sample_one [l]" "entry_pairs sample_one [l] = [(''ab'', sample_value ''hi'')]"
  show ?thesis using ht_delete_correct [OF l(1), of "''ab''"] l by auto
qed

text \<open>
  C17: setting the expiry time changes it for a key whose value is still valid, and reports an absent key and an
  expired value as errors that change no entry.
\<close>

theorem ht_set_expires_correct:
  assumes "full_inv c L"
  shows "\<exists>result c'. shm_ht_set_expires c key t = Some (result, c') \<and> full_inv c' L
    \<and> entry_pairs c' L = (if result = 0 then map (\<lambda>(k, v). (k, if k = key then v\<lparr>vi_expires := t\<rparr> else v)) (entry_pairs c L)
                          else entry_pairs c L)
    \<and> result = (case cache_map c L key of None \<Rightarrow> ENOENT
        | Some v \<Rightarrow> if vi_expires v = 0 \<or> fst (get_current_time c) \<le> vi_expires v then 0 else ETIMEDOUT)"
proof -
  have inv: "cache_inv c L" using assms by (simp add: full_inv_def)
  then show ?thesis
  proof (cases rule: ht_set_expires_map [where key = key and t = t])
    case absent
    then have "cache_map c L key = None" by (simp add: cache_map_def map_of_eq_None_iff)
    then show ?thesis using absent assms by simp
  next
    case (expired v c')
    have "full_inv c' L" using full_inv_stable [OF assms _ expired(6)] stable_sys by (simp add: expired(4))
    then show ?thesis using expired by simp
  next
    case (updated v c')
    have "stable c c'" using updated(6) by (auto simp: stable_def)
    then have "full_inv c' L" by (rule full_inv_stable [OF assms _ updated(4)])
    then show ?thesis using updated by simp
  qed
qed

theorem ht_set_expires_correct_witness:
  "\<exists>L c'. shm_ht_set_expires sample_one ''ab'' 500 = Some (0, c') \<and> full_inv c' L
    \<and> entry_pairs c' L = [(''ab'', (sample_value ''hi'')\<lparr>vi_expires := 500\<rparr>)]"
proof (rule sample_one_inv)
  fix l
  assume l: "full_inv sample_one [l]" "entry_pairs sample_one [l] = [(''ab'', sample_value ''hi'')]"
  show ?thesis
    using ht_set_expires_correct [OF l(1), of "''ab''" 500] l(2) by (auto simp: cache_map_def sample_value_def)
qed

text \<open>
  C9: clearing makes a well-formed empty cache out of any state whose allocators and queues have sensible bounds,
  whatever the buckets, the list, the counters and the queue contents are, as after a process that died in the
  middle of an operation. All allocators are queued for use again, and no key is found any more.
\<close>

theorem ht_clear_repairs:
  assumes "clearable c" and "shm_ht_clear c = (n, c')"
  shows "n = mi_count (sc_memory c) \<and> cache_inv c' []
    \<and> pool_list (sc_doing c') = map (allocator_offset c) [0..<nstriping c]
    \<and> shm_ht_get c' key = Some (ENOENT, None, c')"
proof -
  note cl = ht_clear [OF assms(1), unfolded assms(2) fst_conv snd_conv]
  have "shm_ht_get c' key = Some (ENOENT, None, c')"
    using ht_get_map [OF cl(2), of key] by (simp add: cache_map_def entry_pairs_def)
  then show ?thesis using cl by simp
qed

text \<open>The witness is a table with a broken bucket array, a broken list and a wrong count.\<close>

definition sample_broken :: shmcache_context where
  "sample_broken = sc_memory_update (mi_buckets_update (\<lambda>_. [9, 9]) \<circ> mi_count_update (\<lambda>_. 77)
     \<circ> mi_head_update (\<lambda>_. \<lparr>sl_prev = 1, sl_next = 2\<rparr>)) sample_one"

theorem ht_clear_repairs_witness:
  "fst (shm_ht_clear sample_broken) = 77 \<and> cache_inv (snd (shm_ht_clear sample_broken)) []"
proof -
  obtain l where "full_inv sample_one [l]" by (rule sample_one_inv)
  then have "clearable sample_one" using cache_inv_clearable by (auto simp: full_inv_def)
  then have "clearable sample_broken"
    by (simp add: clearable_def sample_broken_def ctx_ok_def segments_open_def allocs_ok_def)
  from ht_clear_repairs [OF this, of "fst (shm_ht_clear sample_broken)" "snd (shm_ht_clear sample_broken)"] show ?thesis
    by (simp add: sample_broken_def)
qed

section \<open>Memory safety\<close>









text \<open>
  C20: the address of an entry survives its encoding into the 64 bit word that the buckets and the list links store:
  decoding the offset of an entry in an open segment gives its segment index and offset back, and the
  word is positive, so it is never taken for the end of a chain.
\<close>

theorem hentry_offset_roundtrip:
  assumes "segments_open c" and "0 \<le> ssp_segment (he_index e)" and "ssp_segment (he_index e) < sc_values_count c"
    and "ssp_segment (he_index e) < 256" and "0 \<le> he_offset e" and "he_offset e < 2 ^ 47"
  shows "shm_get_hentry_ptr c (shm_get_hentry_offset e) = (Some (ssp_segment (he_index e), he_offset e), c)
    \<and> 0 < shm_get_hentry_offset e"
proof -
  have ok: "loc_ok (ssp_segment (he_index e), he_offset e)" using assms by (simp add: loc_ok_def)
  have "shm_get_hentry_offset e = loc_offset (ssp_segment (he_index e), he_offset e)"
    by (simp add: loc_offset_def shm_get_hentry_offset_def)
  then show ?thesis using shm_get_hentry_ptr_loc [OF assms(1) ok] assms(3) loc_offset_pos [OF ok] by simp
qed

theorem hentry_offset_roundtrip_witness:
  "shm_get_hentry_ptr sample_cache (shm_get_hentry_offset sample_entry) = (Some (0, 140737488355327), sample_cache)
    \<and> 0 < shm_get_hentry_offset sample_entry"
proof -
  have "segments_open sample_cache"
    using sample_cache_inv core_invD(2) [of sample_cache "[]" "[]"] by (simp add: full_inv_def cache_inv_def)
  moreover have "sc_values_count sample_cache = 1" by code_simp
  ultimately show ?thesis using hentry_offset_roundtrip [of sample_cache sample_entry] by (simp add: sample_entry_def)
qed

section \<open>Allocation\<close>

text \<open>
  C15: an allocation returns. It keeps every linked entry with its content, and the block it hands out has the
  requested size and overlaps no linked entry.
\<close>

theorem do_alloc_fresh:
  assumes "full_inv c L" and "0 < sz"
  shows "\<exists>p c'. shm_value_allocator_do_alloc c sz = Some (p, c') \<and> entry_pairs c' L = entry_pairs c L
    \<and> (case p of None \<Rightarrow> full_inv c' L
       | Some n \<Rightarrow> he_size (entry c' n) = sz \<and> n \<notin> set L
           \<and> list_all (\<lambda>l. fst l \<noteq> fst n \<or> snd l + he_size (entry c' l) \<le> snd n \<or> snd n + sz \<le> snd l) L)"
  using assms
proof (cases rule: do_alloc_inv)
  case (some n c')
  note core = core_invD [OF some(2)]
  have n: "n \<notin> set L" using core(6) by simp
  have "fst l \<noteq> fst n \<or> snd l + he_size (entry c' l) \<le> snd n \<or> snd n + sz \<le> snd l" if "l \<in> set L" for l
    using live_blocks_disjoint [OF core(3,5), of l n] core(6) that n some(4) by (auto simp: block_disjoint_def)
  then have "list_all (\<lambda>l. fst l \<noteq> fst n \<or> snd l + he_size (entry c' l) \<le> snd n \<or> snd n + sz \<le> snd l) L"
    unfolding list_all_iff by blast
  then show ?thesis using some n by (intro exI [of _ "Some n"] exI [of _ c']) simp
qed simp

theorem do_alloc_fresh_witness:
  "\<exists>l p c'. full_inv sample_one [l] \<and> shm_value_allocator_do_alloc sample_one 80 = Some (p, c')
    \<and> entry_pairs c' [l] = entry_pairs sample_one [l]"
proof (rule sample_one_inv)
  fix l
  assume "full_inv sample_one [l]"
  then show ?thesis using do_alloc_fresh [of sample_one "[l]" 80] by (metis zero_less_numeral)
qed

text \<open>
  C14: recycling returns. It scans the entries from the oldest on, and of the scanned part removes exactly those that
  are expired, or all when the configuration allows to recycle valid entries; the others stay as they are. When it
  reports success the number of removed entries reaches the requested one, and when it fails
  the whole list was scanned.
\<close>

theorem recycle_oldest_first:
  assumes "full_inv c L" and "t = cdiv (fst (sys Sys_get_current_time_us c)) 1000000"
    and "rem = (\<lambda>l. \<not> (HT_ENTRY_IS_VALID (entry c l) t \<and> \<not> cfg_recycle_valid_entries (sc_config c)))"
  shows "\<exists>result c' X Y. shm_value_allocator_recycle c kind k = Some (result, c') \<and> L = X @ Y
    \<and> full_inv c' (filter (\<lambda>l. \<not> rem l) X @ Y)
    \<and> entry_pairs c' (filter (\<lambda>l. \<not> rem l) X @ Y) = entry_pairs c (filter (\<lambda>l. \<not> rem l) X @ Y)
    \<and> (if result = 0 then 0 < length (filter rem X) \<and> (0 < k \<longrightarrow> k \<le> int (length (filter rem X))) else result = ENOMEM \<and> Y = [])"
proof -
  have rem: "recyclable (c\<lparr>sc_g_current_time := t\<rparr>) (entry c l) = rem l" for l by (simp add: recyclable_def assms(3))
  have inv: "cache_inv c L" using assms(1) by (simp add: full_inv_def)
  show ?thesis
  proof (rule value_allocator_recycle [OF inv, where kind = kind and k = k])
    fix result c' X Y t'
    assume t: "t' = cdiv (fst (sys Sys_get_current_time_us c)) 1000000"
      and run: "shm_value_allocator_recycle c kind k = Some (result, c')" "L = X @ Y" "stable c c'" "result \<in> {0, ENOMEM}"
        "result \<noteq> 0 \<longrightarrow> Y = []"
      and kept: "cache_inv c' (spared (c\<lparr>sc_g_current_time := t'\<rparr>) X @ Y)"
        "entry_pairs c' (spared (c\<lparr>sc_g_current_time := t'\<rparr>) X @ Y) = entry_pairs c (spared (c\<lparr>sc_g_current_time := t'\<rparr>) X @ Y)"
      and ok: "result = 0 \<longrightarrow> X \<noteq> [] \<and> recyclable (c\<lparr>sc_g_current_time := t'\<rparr>) (entry c (last X))
        \<and> (0 < k \<longrightarrow> k \<le> int (length (taken (c\<lparr>sc_g_current_time := t'\<rparr>) X)))"
    have "t' = t" using t assms(2) by simp
    then have sp: "spared (c\<lparr>sc_g_current_time := t'\<rparr>) X = filter (\<lambda>l. \<not> rem l) X"
      "taken (c\<lparr>sc_g_current_time := t'\<rparr>) X = filter rem X" using rem by (auto intro!: filter_cong)
    have "0 < length (filter rem X)" if "result = 0"
      using ok that rem \<open>t' = t\<close> by (metis filter_empty_conv last_in_set length_greater_0_conv)
    then have "if result = 0 then 0 < length (filter rem X) \<and> (0 < k \<longrightarrow> k \<le> int (length (filter rem X)))
        else result = ENOMEM \<and> Y = []" using run(4,5) ok unfolding sp by (cases "result = 0") simp_all
    then show ?thesis
      using run(1,2) full_inv_stable [OF assms(1) run(3) kept(1)] kept(2) unfolding sp by blast
  qed
qed

theorem recycle_oldest_first_witness:
  "\<exists>l m result c' X Y. entry_pairs sample_two [l, m] = [(''ab'', sample_value ''hi''), (''cd'', sample_value ''yo'')]
    \<and> shm_value_allocator_recycle sample_two Recycle_Key 1 = Some (result, c') \<and> [l, m] = X @ Y
    \<and> (result = 0 \<longrightarrow> X \<noteq> [])"
proof (rule sample_two_inv)
  fix l m
  assume lm: "full_inv sample_two [l, m]"
    "entry_pairs sample_two [l, m] = [(''ab'', sample_value ''hi''), (''cd'', sample_value ''yo'')]"
  obtain result c' X Y where r: "shm_value_allocator_recycle sample_two Recycle_Key 1 = Some (result, c')" "[l, m] = X @ Y"
    "result = 0 \<longrightarrow> X \<noteq> []"
    using recycle_oldest_first [OF lm(1) refl refl, of Recycle_Key 1] by (metis filter.simps(1) length_greater_0_conv)
  then show ?thesis using lm(2) by (intro exI [of _ l] exI [of _ m] exI [of _ result] exI [of _ c'] exI [of _ X] exI [of _ Y]) blast
qed

text \<open>
  Creating a value segment keeps the invariant and every entry, whatever its result is.
\<close>

theorem create_segment_keeps_entries:
  assumes "full_inv c L" and "shmopt_create_value_segment c = (result, c')"
  shows "full_inv c' L \<and> entry_pairs c' L = entry_pairs c L"
  using create_value_segment_inv [OF assms] by blast

theorem create_segment_keeps_entries_witness: "full_inv sample_cache [] \<and> entry_pairs sample_cache [] = entry_pairs sample_empty []"
  using create_segment_keeps_entries [OF sample_empty_inv, of "fst (shmopt_create_value_segment sample_empty)" sample_cache]
  by (simp add: sample_cache_def)

section \<open>The entry list\<close>

text \<open>
  C18: the circular list of shared memory implements a sequence: counting its nodes ends and gives the length,
  removing an entry takes it out of the sequence, and moving one to the tail makes it the last.
\<close>

theorem list_operations_refine:
  assumes "ctx_ok c" and "dlist c (A @ l # B)"
  shows "shm_list_count c = Some (int (length (A @ l # B)), c)
    \<and> shm_list_next c (loc_offset l) = Some (case B of [] \<Rightarrow> - 1 | m # _ \<Rightarrow> loc_offset m, c)
    \<and> (\<exists>c'. shm_list_delete c (loc_offset l) = Some c' \<and> dlist c' (A @ B))
    \<and> (\<exists>c'. shm_list_move_tail c (loc_offset l) = Some c' \<and> dlist c' (A @ B @ [l]))"
proof (intro conjI)
  show "shm_list_count c = Some (int (length (A @ l # B)), c)" by (rule dlist_count [OF assms])
  show "shm_list_next c (loc_offset l) = Some (case B of [] \<Rightarrow> - 1 | m # _ \<Rightarrow> loc_offset m, c)" by (rule dlist_next [OF assms])
  show "\<exists>c'. shm_list_delete c (loc_offset l) = Some c' \<and> dlist c' (A @ B)"
    using dlist_delete [OF assms] by metis
  show "\<exists>c'. shm_list_move_tail c (loc_offset l) = Some c' \<and> dlist c' (A @ B @ [l])"
    using dlist_move_tail [OF assms] by metis
qed

theorem list_operations_refine_witness:
  "shm_list_count sample_two = Some (2, sample_two)
    \<and> (\<exists>l m c'. shm_list_move_tail sample_two (loc_offset l) = Some c' \<and> dlist c' [m, l])"
proof (rule sample_two_inv)
  fix l m
  assume "full_inv sample_two [l, m]"
  then have "ctx_ok sample_two" "dlist sample_two ([] @ l # [m])"
    using core_invD(1,7) [of sample_two "[l, m]" "[]"] by (simp_all add: full_inv_def cache_inv_def)
  note ops = list_operations_refine [OF this]
  then have "\<exists>c'. shm_list_move_tail sample_two (loc_offset l) = Some c' \<and> dlist c' [m, l]" by simp
  then show ?thesis using ops by (intro conjI exI [of _ l] exI [of _ m]) simp_all
qed

section \<open>Listing\<close>

text \<open>
  C19: listing a page of the entries returns. Its rows are the valid entries whose key matches, oldest first, less the
  first ones up to the offset and at most as many as asked for; the only failure is a lack of memory, with no rows.
\<close>

theorem to_array_page:
  assumes "cache_inv c L" and "0 \<le> off"
  shows "\<exists>result rows c' t. shm_ht_to_array_ex c key_info off cnt = Some (result, rows, c')
    \<and> entry_pairs c' L = entry_pairs c L \<and> cache_inv c' L
    \<and> (\<exists>n. t = int32 (fst (sys Sys_time (snd (sys (Sys_malloc n) c)))))
    \<and> (result = 0 \<and> rows = take (if 0 < cnt \<and> cnt < int (length L) - off then nat cnt else length L)
          (drop (nat off) (entry_pairs c
             (filter (\<lambda>l. HT_ENTRY_IS_VALID (entry c l) t \<and> HT_KEY_MATCHED key_info (entry c l)) L)))
       \<or> result = ENOMEM \<and> rows = [])"
proof -
  obtain result rows c' t where r: "shm_ht_to_array_ex c key_info off cnt = Some (result, rows, c')" "bookkeeping c c'"
    "\<exists>n. t = int32 (fst (sys Sys_time (snd (sys (Sys_malloc n) c))))"
    "result = 0 \<and> rows = take (if 0 < cnt \<and> cnt < int (length L) - off then nat cnt else length L)
          (drop (nat off) (matching c key_info t L)) \<or> result = ENOMEM \<and> rows = []"
    using ht_to_array_ex [OF assms] by metis
  then show ?thesis
    using bookkeeping_kept(2) [OF r(2), of L] bookkeeping_kept(1) [OF r(2) assms(1)] unfolding matching_def
    by (intro exI [of _ result] exI [of _ rows] exI [of _ c'] exI [of _ t]) simp
qed

theorem to_array_page_witness:
  "\<exists>l result rows c' t. shm_ht_to_array_ex sample_one None 0 0 = Some (result, rows, c')
    \<and> (result = 0 \<and> rows = take 1 (entry_pairs sample_one (filter (\<lambda>l. HT_ENTRY_IS_VALID (entry sample_one l) t
         \<and> HT_KEY_MATCHED None (entry sample_one l)) [l]))
       \<or> result = ENOMEM \<and> rows = [])"
proof (rule sample_one_inv)
  fix l
  assume "full_inv sample_one [l]"
  then have "cache_inv sample_one [l]" by (simp add: full_inv_def)
  then show ?thesis using to_array_page [of sample_one "[l]" 0 None 0] by (intro exI [of _ l]) (simp del: filter.simps, blast)
qed

text \<open>The search for a key inside another tries every position.\<close>

lemma match_anywhere_loop:
  "match_anywhere_loop n start key s \<longleftrightarrow> (\<exists>i. start \<le> i \<and> i < start + n \<and> take (length key) (drop i s) = key)"
proof (induction n arbitrary: start)
  case (Suc n)
  show ?case
  proof (cases "take (length key) (drop start s) = key")
    case False
    then have "(\<exists>i. start \<le> i \<and> i < start + Suc n \<and> take (length key) (drop i s) = key)
        = (\<exists>i. Suc start \<le> i \<and> i < Suc start + n \<and> take (length key) (drop i s) = key)"
      by (metis Suc_le_eq add_Suc_right add_Suc le_less)
    then show ?thesis using False Suc.IH [of "Suc start"] by simp
  qed auto
qed simp

lemma sublist_take_drop: "sublist key s \<longleftrightarrow> (\<exists>i. i + length key \<le> length s \<and> take (length key) (drop i s) = key)"
proof
  assume "sublist key s"
  then obtain a b where "s = a @ key @ b" by (auto simp: sublist_def)
  then show "\<exists>i. i + length key \<le> length s \<and> take (length key) (drop i s) = key" by (intro exI [of _ "length a"]) simp
next
  assume "\<exists>i. i + length key \<le> length s \<and> take (length key) (drop i s) = key"
  then obtain i where "take (length key) (drop i s) = key" by blast
  then have "s = take i s @ key @ drop (length key) (drop i s)" by (metis append_take_drop_id)
  then show "sublist key s" unfolding sublist_def by blast
qed

text \<open>
  Key matching is what the operation names say: equality, prefix, suffix and containment of the pattern, and
  nothing for an unknown operation.
\<close>

lemma match_key_equiv:
  assumes "payload_ok e"
  shows "shm_ht_match_key info e \<longleftrightarrow>
    (mk_op_type info = SHMCACHE_MATCH_KEY_OP_EXACT \<and> he_key e = mk_key info)
    \<or> (mk_op_type info = SHMCACHE_MATCH_KEY_OP_LEFT \<and> prefix (mk_key info) (he_key e))
    \<or> (mk_op_type info = SHMCACHE_MATCH_KEY_OP_RIGHT \<and> suffix (mk_key info) (he_key e))
    \<or> (mk_op_type info = SHMCACHE_MATCH_KEY_OP_ANYWHERE \<and> sublist (mk_key info) (he_key e))"
proof -
  define k s where "k = mk_key info" and "s = he_key e"
  have len: "he_key_len e = int (length s)" using assms by (simp add: payload_ok_def s_def)
  have pre: "prefix k s \<longleftrightarrow> length k \<le> length s \<and> take (length k) s = k"
    by (metis append_eq_conv_conj prefix_def prefix_length_le take_is_prefix)
  have suf: "suffix k s \<longleftrightarrow> length k \<le> length s \<and> drop (length s - length k) s = k"
    by (auto simp: suffix_def) (metis append_take_drop_id)
  have any: "match_anywhere_loop (nat (int (length s) - int (length k) + 1)) 0 k s \<longleftrightarrow> sublist k s" if "length k \<le> length s"
  proof -
    have "nat (int (length s) - int (length k) + 1) = Suc (length s - length k)" using that by simp
    moreover have "i < Suc (length s - length k) \<longleftrightarrow> i + length k \<le> length s" for i using that by auto
    ultimately show ?thesis unfolding match_anywhere_loop sublist_take_drop by simp
  qed
  show ?thesis
  proof (cases "length k \<le> length s")
    case False
    then have "\<not> sublist k s" "s \<noteq> k" using sublist_length_le by auto
    then show ?thesis
      using False pre suf by (simp add: shm_ht_match_key_def Let_def len flip: k_def s_def)
  next
    case True
    have exact: "length k = length s \<and> take (length k) s = k \<longleftrightarrow> s = k" by auto
    have "take (length k) (drop (nat (int (length s) - int (length k))) s) = drop (length s - length k) s"
      using True by (simp add: nat_diff_distrib)
    then show ?thesis
      using True pre suf any [OF True] exact by (simp add: shm_ht_match_key_def Let_def len flip: k_def s_def)
  qed
qed

section \<open>Errors\<close>

text \<open>The platform on which everything works but \<^verbatim>\<open>mmap\<close>.\<close>

definition mmap_fails :: "env \<Rightarrow> bool" where
  "mmap_fails e \<longleftrightarrow> (\<forall>h sz fd. fst (env_sys e h (Sys_mmap sz fd)) = - 1)
     \<and> (\<forall>h f. fst (env_sys e h (Sys_access f)) = 0)
     \<and> (\<forall>h f p. fst (env_sys e h (Sys_fc_ftok f p)) \<noteq> - 1) \<and> (\<forall>h f b. 0 \<le> fst (env_sys e h (Sys_open f b)))
     \<and> (\<forall>h fd. 0 \<le> fst (env_sys e h (Sys_fstat_size fd))) \<and> (\<forall>h fd sz. fst (env_sys e h (Sys_ftruncate fd sz)) = 0)"

lemma mmap_fails_kept: "mmap_fails e \<Longrightarrow> env_sys e' = env_sys e \<Longrightarrow> mmap_fails e'"
  by (simp add: mmap_fails_def)

lemma do_mmap_fails:
  assumes "mmap_fails e"
  shows "fst (shm_do_mmap_fd fd sz b e) = (- 1, 0)" and "fst (shm_do_mmap mp filename proj_id sz create e) = (- 1, 0)"
proof -
  have fd: "fst (shm_do_mmap_fd fd sz b e) = (- 1, 0)" if "mmap_fails e" for fd b e
    using that by (cases b) (simp_all add: shm_do_mmap_fd_def mmap_fails_def syscall_def Let_def case_prod_unfold)
  show "fst (shm_do_mmap_fd fd sz b e) = (- 1, 0)" by (rule fd [OF assms])
  obtain f err e1 where 1: "syscall (Sys_open (SHM_GET_MMAP_FILENAME mp filename proj_id) False) e = ((f, err), e1)" by (metis surj_pair)
  obtain n err2 e2 where 2: "syscall (Sys_fstat_size f) e1 = ((n, err2), e2)" by (metis surj_pair)
  have e: "env_sys e1 = env_sys e" "env_sys e2 = env_sys e" using 1 2 by (auto simp: syscall_def)
  have "0 \<le> f" "0 \<le> n" using 1 2 assms e by (auto simp: syscall_def mmap_fails_def) (metis fst_conv)+
  then show "fst (shm_do_mmap mp filename proj_id sz create e) = (- 1, 0)"
    using fd [OF mmap_fails_kept [OF assms e(2)]] 1 2 by (simp add: shm_do_mmap_def Let_def)
qed

lemma get_key_works: "mmap_fails e \<Longrightarrow> fst (fst (shm_get_key filename proj_id key e)) = 0"
  by (simp add: shm_get_key_def mmap_fails_def syscall_def Let_def case_prod_unfold)

text \<open>
  C39: when the mapping of a segment file fails, the segment is reported as opened: the errno of \<^verbatim>\<open>mmap\<close> is overwritten
  with 0 and the address is \<^verbatim>\<open>MAP_FAILED\<close>, which the caller, who tests for the null address, takes for a mapping.
\<close>

theorem mmap_failure_is_success:
  assumes "mmap_fails (sc_env c)" and "cfg_type (sc_config c) = SHMCACHE_TYPE_MMAP"
    and "shmopt_init_segment c segment proj_id sz = ((result, s), c')"
  shows "result = 0 \<and> seg_base s = - 1 \<and> \<not> mapped (seg_base s)"
proof -
  let ?f = "cfg_filename (sc_config c)"
  obtain r k e1 where 1: "shm_get_key ?f proj_id (seg_key segment) (sc_env c) = ((r, k), e1)" by (metis surj_pair)
  have r: "r = 0" using get_key_works [OF assms(1), of ?f proj_id "seg_key segment"] 1 by simp
  have "env_sys e1 = env_sys (sc_env c)" using shm_get_key_env [of ?f proj_id "seg_key segment" "sc_env c"] 1 by simp
  then have f: "mmap_fails e1" by (rule mmap_fails_kept [OF assms(1)])
  obtain a err e2 where 2: "shm_do_mmap (fc_max_path_size (sc_fastcommon c)) ?f proj_id sz (sc_create_segment c) e1 = ((a, err), e2)"
    by (metis surj_pair)
  have "a = - 1" using do_mmap_fails(2) [OF f, of "fc_max_path_size (sc_fastcommon c)" ?f proj_id sz "sc_create_segment c"] 2 by simp
  then show ?thesis
    using assms(2,3) 1 2 r by (auto simp: shmopt_init_segment_def shm_mmap_def Let_def mapped_def)
qed

definition mmap_failing :: shmcache_context where
  "mmap_failing = sample_empty\<lparr>sc_config := sample_config\<lparr>cfg_type := SHMCACHE_TYPE_MMAP\<rparr>,
     sc_env := \<lparr>env_sys = (\<lambda>h r. (case r of Sys_mmap _ _ \<Rightarrow> - 1 | _ \<Rightarrow> 0, ENOMEM)), env_history = []\<rparr>\<rparr>"

theorem mmap_failure_is_success_witness:
  "\<exists>s c'. shmopt_init_segment mmap_failing zero_segment_info 2 1000 = ((0, s), c') \<and> seg_base s = - 1"
proof -
  obtain r s c' where "shmopt_init_segment mmap_failing zero_segment_info 2 1000 = ((r, s), c')" by (metis surj_pair)
  then show ?thesis
    using mmap_failure_is_success [of mmap_failing zero_segment_info 2 1000 r s c'] by (simp add: mmap_failing_def mmap_fails_def)
qed

end
