(* ===== verification/DumpCorrect.thy ===== *)
theory DumpCorrect
  imports DumpTool TableProps
begin

text \<open>
  The dump tool against what its help text promises: escapes in the separators, SQL like patterns, and the
  printed rows.
\<close>

section \<open>Specifications\<close>

text \<open>A way to write any string so that reading its escapes gives it back.\<close>

fun escape :: "string \<Rightarrow> string" where
  "escape [] = []"
| "escape (ch # s) =
     (if ch = CHR 0x0A then [CHR 0x5C, CHR ''n''] else if ch = CHR 0x0D then [CHR 0x5C, CHR ''r'']
      else if ch = CHR 0x09 then [CHR 0x5C, CHR ''t''] else if ch = CHR 0x0C then [CHR 0x5C, CHR ''f'']
      else if ch = CHR 0x5C then [CHR 0x5C, CHR 0x5C] else [ch]) @ escape s"

text \<open>The patterns of SQL, with the wildcard for any sequence of characters.\<close>

fun sql_like :: "string \<Rightarrow> string \<Rightarrow> bool" where
  "sql_like [] s \<longleftrightarrow> s = []"
| "sql_like (ch # p) s \<longleftrightarrow>
     (if ch = CHR ''%'' then sql_like p s \<or> (case s of [] \<Rightarrow> False | _ # s' \<Rightarrow> sql_like (ch # p) s')
      else (case s of [] \<Rightarrow> False | x # s' \<Rightarrow> x = ch \<and> sql_like p s'))"

section \<open>Escapes\<close>

lemma unescape_other: "ch \<noteq> CHR 0x5C \<Longrightarrow> unescape (ch # s) = ch # unescape s"
  by (cases s) simp_all

lemma unescape_escape: "unescape (escape s) = s"
proof (induction s)
  case (Cons ch s)
  then show ?case by (cases "ch = CHR 0x5C") (simp_all add: unescape_char_def unescape_other)
qed simp

text \<open>The buffer is as long as the argument.\<close>

lemma unescape_length: "length (unescape s) \<le> length s"
proof (induction s rule: unescape.induct)
  case (3 ch d s)
  have digits: "length (takeWhile isdigit (take 2 s)) \<le> length s"
    using length_takeWhile_le [of isdigit "take 2 s"] by simp
  show ?case
  proof (cases "ch = CHR 0x5C")
    case esc: True
    show ?thesis
    proof (cases "unescape_char d")
      case None
      then show ?thesis
        using 3(1) [OF esc None _ refl] 3(2) [OF esc None] esc digits by (cases "isdigit d") (simp_all add: Let_def)
    qed (use 3(3) [OF esc] esc in simp)
  qed (use 3(4) in simp)
qed simp_all

section \<open>Patterns\<close>

lemma sql_like_any: "sql_like (CHR ''%'' # p) s \<longleftrightarrow> (\<exists>u v. s = u @ v \<and> sql_like p v)"
proof (induction s)
  case (Cons x s)
  have "(\<exists>u v. x # s = u @ v \<and> sql_like p v) \<longleftrightarrow> sql_like p (x # s) \<or> (\<exists>u v. s = u @ v \<and> sql_like p v)"
    by (auto simp: Cons_eq_append_conv)
  then show ?case using Cons by simp
qed simp

lemma sql_like_literal: "CHR ''%'' \<notin> set p \<Longrightarrow> sql_like (p @ q) s \<longleftrightarrow> (\<exists>v. s = p @ v \<and> sql_like q v)"
proof (induction p arbitrary: s)
  case (Cons ch p)
  then show ?case by (cases s) auto
qed simp

lemma sql_like_plain: "CHR ''%'' \<notin> set p \<Longrightarrow> sql_like p s \<longleftrightarrow> s = p"
  using sql_like_literal [of p "[]" s] by simp

lemma sql_like_prefix: "CHR ''%'' \<notin> set p \<Longrightarrow> sql_like (p @ ''%'') s \<longleftrightarrow> prefix p s"
  using sql_like_literal [of p "''%''" s] sql_like_any [of "[]"] by (auto simp: prefix_def)

lemma sql_like_suffix: "CHR ''%'' \<notin> set p \<Longrightarrow> sql_like (CHR ''%'' # p) s \<longleftrightarrow> suffix p s"
  unfolding sql_like_any by (auto simp: sql_like_plain suffix_def)

lemma sql_like_sublist: "CHR ''%'' \<notin> set p \<Longrightarrow> sql_like (CHR ''%'' # p @ ''%'') s \<longleftrightarrow> sublist p s"
  unfolding sql_like_any by (auto simp: sql_like_prefix prefix_def sublist_def)

text \<open>The four shapes of a pattern.\<close>

lemma parse_search_key_shapes:
  assumes "CHR ''%'' \<notin> set p" and "p \<noteq> []"
  shows "parse_search_key (Some p) = Some \<lparr>mk_key = p, mk_op_type = SHMCACHE_MATCH_KEY_OP_EXACT\<rparr>"
    and "parse_search_key (Some (p @ ''%'')) = Some \<lparr>mk_key = p, mk_op_type = SHMCACHE_MATCH_KEY_OP_LEFT\<rparr>"
    and "parse_search_key (Some (CHR ''%'' # p)) = Some \<lparr>mk_key = p, mk_op_type = SHMCACHE_MATCH_KEY_OP_RIGHT\<rparr>"
    and "parse_search_key (Some (CHR ''%'' # p @ ''%'')) = Some \<lparr>mk_key = p, mk_op_type = SHMCACHE_MATCH_KEY_OP_ANYWHERE\<rparr>"
proof -
  have "hd p \<noteq> CHR ''%''" "last p \<noteq> CHR ''%''" using assms hd_in_set last_in_set by metis+
  then show "parse_search_key (Some p) = Some \<lparr>mk_key = p, mk_op_type = SHMCACHE_MATCH_KEY_OP_EXACT\<rparr>"
    "parse_search_key (Some (p @ ''%'')) = Some \<lparr>mk_key = p, mk_op_type = SHMCACHE_MATCH_KEY_OP_LEFT\<rparr>"
    "parse_search_key (Some (CHR ''%'' # p)) = Some \<lparr>mk_key = p, mk_op_type = SHMCACHE_MATCH_KEY_OP_RIGHT\<rparr>"
    "parse_search_key (Some (CHR ''%'' # p @ ''%'')) = Some \<lparr>mk_key = p, mk_op_type = SHMCACHE_MATCH_KEY_OP_ANYWHERE\<rparr>"
    using assms(2) by (simp_all add: parse_search_key_def)
qed

lemma pattern_shapes:
  assumes "CHR ''%'' \<notin> set (butlast (tl pat))" and "pat \<noteq> []"
  obtains (all) "pat = ''%'' \<or> pat = ''%%''"
  | (some) p where "p \<noteq> []" "CHR ''%'' \<notin> set p" "pat \<in> {p, p @ ''%'', CHR ''%'' # p, CHR ''%'' # p @ ''%''}"
proof (cases "length pat = 1")
  case True
  then obtain a where "pat = [a]" by (cases pat) auto
  then show thesis using all some [of "[a]"] by (cases "a = CHR ''%''") auto
next
  case False
  then obtain a mid z where pat: "pat = a # mid @ [z]"
    using assms(2) by (cases pat) (auto simp: length_Suc_conv elim!: rev_cases [of "tl pat"], metis append_butlast_last_id)
  then have mid: "CHR ''%'' \<notin> set mid" using assms(1) by simp
  consider "a = CHR ''%''" "z = CHR ''%''" | "a \<noteq> CHR ''%''" "z = CHR ''%''" | "a = CHR ''%''" "z \<noteq> CHR ''%''"
    | "a \<noteq> CHR ''%''" "z \<noteq> CHR ''%''" by blast
  then show thesis
  proof cases
    case 1
    then show thesis using all some [of mid] mid pat by (cases mid) auto
  next
    case 2
    then show thesis using some [of "a # mid"] mid pat by simp
  next
    case 3
    then show thesis using some [of "mid @ [z]"] mid pat by simp
  next
    case 4
    then show thesis using some [of pat] mid pat by simp
  qed
qed


lemma key_matched_like:
  assumes "payload_ok e" and "CHR ''%'' \<notin> set (butlast (tl pat))" and "pat \<noteq> []"
  shows "HT_KEY_MATCHED (parse_search_key (Some pat)) e \<longleftrightarrow> sql_like pat (he_key e)"
  using assms(2,3)
proof (cases rule: pattern_shapes)
  case all
  have one: "sql_like ''%'' s" for s unfolding sql_like_any by auto
  have "sql_like ''%%'' s" for s unfolding sql_like_any [of "''%''"] using one by blast
  then have "sql_like pat (he_key e)" using all one by metis
  moreover have "parse_search_key (Some pat) = None" using all by (elim disjE) (simp_all add: parse_search_key_def)
  ultimately show ?thesis by (simp add: HT_KEY_MATCHED_def)
next
  case (some p)
  note shapes = parse_search_key_shapes [OF some(2,1)] and match = match_key_equiv [OF assms(1)]
  consider "pat = p" | "pat = p @ ''%''" | "pat = CHR ''%'' # p" | "pat = CHR ''%'' # p @ ''%''" using some(3) by blast
  then show ?thesis
  proof cases
    case 1
    then show ?thesis unfolding 1 sql_like_plain [OF some(2)] shapes(1) by (simp add: HT_KEY_MATCHED_def match)
  next
    case 2
    then show ?thesis unfolding 2 sql_like_prefix [OF some(2)] shapes(2) by (simp add: HT_KEY_MATCHED_def match)
  next
    case 3
    then show ?thesis unfolding 3 sql_like_suffix [OF some(2)] shapes(3) by (simp add: HT_KEY_MATCHED_def match)
  next
    case 4
    then show ?thesis unfolding 4 sql_like_sublist [OF some(2)] shapes(4) by (simp add: HT_KEY_MATCHED_def match)
  qed
qed

section \<open>The rows\<close>

definition row_text :: "string \<Rightarrow> string \<Rightarrow> bytes \<times> shmcache_value_info \<Rightarrow> string" where
  "row_text kv rs row = (let (key, value) = row in
     cstr key @ cstr kv
     @ (if vi_options value AND SHMCACHE_SERIALIZER_STRING \<noteq> 0 then cstr (vi_data value)
        else ''<'' @ shmcache_get_serializer_label (vi_options value) @ '' serializer, data length: ''
               @ show_int (int (length (vi_data value))) @ ''>'')
     @ cstr rs)"

lemma dump_rows_text:
  assumes "do_key_value_seperator opts = Some kv" and "do_row_seperator opts = Some rs"
  shows "dump_rows opts rows = Some (concat (map (row_text kv rs) rows))"
  using assms by (induction rows) (simp_all add: dump_row_def row_text_def case_prod_unfold Let_def)

lemma matching_like:
  assumes "cache_inv c L" and "CHR ''%'' \<notin> set (butlast (tl pat))" and "pat \<noteq> []"
  shows "matching c (parse_search_key (Some pat)) t L
    = filter (\<lambda>(k, v). (vi_expires v = 0 \<or> t \<le> vi_expires v) \<and> sql_like pat k) (entry_pairs c L)"
proof -
  have ok: "payload_ok (entry c l)" if "l \<in> set L" for l
    using core_invD [of c L "[]"] assms(1) that by (auto simp: cache_inv_def list_all_iff)
  have "filter (\<lambda>l. HT_ENTRY_IS_VALID (entry c l) t \<and> HT_KEY_MATCHED (parse_search_key (Some pat)) (entry c l)) L
    = filter ((\<lambda>(k, v). (vi_expires v = 0 \<or> t \<le> vi_expires v) \<and> sql_like pat k)
        \<circ> (\<lambda>l. (he_key (entry c l), entry_value (entry c l)))) L"
    by (rule filter_cong [OF refl])
      (simp add: key_matched_like [OF ok assms(2,3)] HT_ENTRY_IS_VALID_def entry_value_def del: sql_like.simps)
  then show ?thesis by (simp add: matching_def entry_pairs_def filter_map)
qed

text \<open>
  The escapes of the separators can write every string, and the unescaped string fits into the buffer, which is as long
  as the argument.
\<close>

theorem unescape_roundtrip: "unescape (escape s) = s \<and> length (unescape u) \<le> length u"
  by (simp add: unescape_escape unescape_length)

text \<open>
  C29: a search key of the dump tool selects the keys that the SQL pattern of that text selects, when the wildcard is at its
  ends only, as the help text shows it.
\<close>

theorem search_key_like:
  assumes "payload_ok e" and "CHR ''%'' \<notin> set (butlast (tl pat))" and "pat \<noteq> []"
  shows "HT_KEY_MATCHED (parse_search_key (Some pat)) e \<longleftrightarrow> sql_like pat (he_key e)"
  by (rule key_matched_like [OF assms])

theorem search_key_like_witness: "HT_KEY_MATCHED (parse_search_key (Some ''%b%'')) sample_entry"
proof -
  have "sql_like ''%b%'' (he_key sample_entry)" by code_simp
  then show ?thesis using search_key_like [of sample_entry "''%b%''"] by (simp add: sample_entry_def payload_ok_def)
qed

text \<open>
  C28: a dump returns. It prints, oldest first and from the start offset on, at most as many rows as asked for of the entries
  that are valid at the time of the call and whose key matches the pattern, each as key, separator, value and row separator;
  without memory it fails and prints nothing. It changes no entry.
\<close>

theorem dump_prints_matching:
  assumes "cache_inv c L" and "0 \<le> do_start_offset opts"
    and "do_search_key opts = Some pat" and "CHR ''%'' \<notin> set (butlast (tl pat))" and "pat \<noteq> []"
    and "do_key_value_seperator opts = Some kv" and "do_row_seperator opts = Some rs"
  shows "\<exists>result out c' t n m. do_dump opts c = Some (result, out, c') \<and> cache_inv c' L \<and> entry_pairs c' L = entry_pairs c L
    \<and> t = int32 (fst (sys Sys_time (snd (sys (Sys_malloc m) c))))
    \<and> n = (if 0 < do_row_count opts \<and> do_row_count opts < int (length L) - do_start_offset opts
           then nat (do_row_count opts) else length L)
    \<and> (result = 0 \<and> out = concat (map (row_text kv rs) (take n (drop (nat (do_start_offset opts))
          (filter (\<lambda>(k, v). (vi_expires v = 0 \<or> t \<le> vi_expires v) \<and> sql_like pat k) (entry_pairs c L)))))
       \<or> result = ENOMEM \<and> out = [])"
proof -
  obtain result rows c' t m where r:
    "shm_ht_to_array_ex c (parse_search_key (Some pat)) (do_start_offset opts) (do_row_count opts) = Some (result, rows, c')"
    "bookkeeping c c'" "t = int32 (fst (sys Sys_time (snd (sys (Sys_malloc m) c))))"
    "result = 0 \<and> rows = take (if 0 < do_row_count opts \<and> do_row_count opts < int (length L) - do_start_offset opts
        then nat (do_row_count opts) else length L)
      (drop (nat (do_start_offset opts)) (matching c (parse_search_key (Some pat)) t L)) \<or> result = ENOMEM \<and> rows = []"
    using ht_to_array_ex [OF assms(1,2), of "parse_search_key (Some pat)" "do_row_count opts"] by blast
  have run: "do_dump opts c = (if result \<noteq> 0 then Some (result, [], c') else Some (0, concat (map (row_text kv rs) rows), c'))"
    using r(1) dump_rows_text [OF assms(6,7)] by (simp add: do_dump_def assms(3))
  show ?thesis
    using run r(3,4) bookkeeping_kept(2) [OF r(2), of L] bookkeeping_kept(1) [OF r(2) assms(1)]
    unfolding matching_like [OF assms(1,4,5)]
    by (cases "result = 0") (auto simp del: sql_like.simps)
qed

theorem dump_prints_matching_witness:
  "\<exists>result out c'. do_dump (default_options\<lparr>do_search_key := Some ''a%''\<rparr>) sample_one = Some (result, out, c')
    \<and> (result = 0 \<and> out = ''ab=hi'' @ nl \<or> result = ENOMEM \<and> out = [])"
proof (rule sample_one_inv)
  fix l
  assume l: "full_inv sample_one [l]" "entry_pairs sample_one [l] = [(''ab'', sample_value ''hi'')]"
  let ?opts = "default_options\<lparr>do_search_key := Some ''a%''\<rparr>"
  have inv: "cache_inv sample_one [l]" using l(1) by (simp add: full_inv_def)
  have like: "sql_like ''a%'' ''ab''" and row: "row_text ''='' nl (''ab'', sample_value ''hi'') = ''ab=hi'' @ nl" by code_simp+
  from dump_prints_matching [OF inv, of ?opts "''a%''" "''=''" nl] show ?thesis
    using l like row by (auto simp: default_options_def sample_value_def simp del: sql_like.simps)
qed

end
