(* ===== verification/StatsTool.thy ===== *)
theory StatsTool
  imports Tools
begin

text \<open>
  \<^verbatim>\<open>src/src/tools/shmcache_stats.c\<close>: printing or resetting the statistics. Numbers with a fractional part are exact
  fractions, printed rounded to the digits of the format.
\<close>

section \<open>Printing fractions\<close>

text \<open>The nearest integer, a tie going to the even one, as \<^verbatim>\<open>printf\<close> rounds.\<close>

definition round_even :: "rat \<Rightarrow> int" where
  "round_even x =
     (let f = \<lfloor>x\<rfloor>; d = x - of_int f in
      if d < 1 / 2 then f else if d > 1 / 2 then f + 1 else if even f then f else f + 1)"

definition show_fixed :: "nat \<Rightarrow> rat \<Rightarrow> string" where
  "show_fixed digits x =
     (let k = round_even (\<bar>x\<bar> * 10 ^ digits); frac = show_int (k mod 10 ^ digits) in
      (if x < 0 then ''-'' else []) @ show_int (k div 10 ^ digits) @ ''.'' @ replicate (digits - length frac) (CHR ''0'') @ frac)"

definition show_mb :: "int \<Rightarrow> string" where
  "show_mb n = show_fixed 3 (of_int n / (1024 * 1024)) @ '' MB''"

section \<open>The report\<close>

text \<open>The average lengths and the three ratios that the report starts with.\<close>

definition stats_avg :: "shmcache_stats \<Rightarrow> int \<times> int" where
  "stats_avg stats =
     (if ss_count stats > 0
      then (int32 (cdiv (mu_key (ss_usage stats)) (ss_count stats)), int32 (cdiv (mu_value (ss_usage stats)) (ss_count stats)))
      else (0, 0))"

definition stats_total_ratio :: "shmcache_stats \<Rightarrow> string" where
  "stats_total_ratio stats =
     (let g = st_get (ss_shm stats) in
      if ctr_total g > 0 then show_fixed 2 (100 * of_int (ctr_success g) / of_int (ctr_total g)) @ ''%'' else ''-'')"

definition stats_ratio :: "shmcache_stats \<Rightarrow> string" where
  "stats_ratio stats = (if ss_ratio stats \<ge> 0 then show_fixed 2 (ss_ratio stats * 100) @ ''%'' else ''-'')"

definition stats_rw_ratio :: "shmcache_stats \<Rightarrow> string" where
  "stats_rw_ratio stats =
     (let s = ss_shm stats in
      if ctr_total (st_set s) > 0
      then show_fixed 2 (of_int (ctr_total (st_get s)) / of_int (ctr_total (st_set s))) @ '' / 1.00'' else ''-'')"

definition time_line :: "host \<Rightarrow> string \<Rightarrow> int \<Rightarrow> string" where
  "time_line h label t = (if t > 0 then label @ '': '' @ host_format_datetime h t @ nl else [])"

definition stats_times :: "host \<Rightarrow> shmcache_context \<Rightarrow> string" where
  "stats_times h c =
     (let s = mi_stats (sc_memory c) in
      nl @ ''timestamp info:'' @ nl
      @ ''shm init time: '' @ host_format_datetime h (mi_init_time (sc_memory c)) @ nl
      @ time_line h ''last clear time'' (st_last_clear_time s)
      @ ''stats begin time: '' @ host_format_datetime h (st_init_time s) @ nl
      @ time_line h ''last recycle by key time'' (rs_last_recycle_time (st_recycle_key s))
      @ time_line h ''last recycle by value time'' (rs_last_recycle_time (st_recycle_value_striping s))
      @ time_line h ''last detect deadlock time'' (st_lock_last_detect_deadlock_time s)
      @ time_line h ''last unlock deadlock time'' (st_lock_last_unlock_deadlock_time s)
      @ nl)"

definition int_line :: "string \<Rightarrow> int \<Rightarrow> string" where
  "int_line label n = label @ '': '' @ show_int n @ nl"

definition stats_hashtable :: "shmcache_stats \<Rightarrow> int \<Rightarrow> string" where
  "stats_hashtable stats since =
     (let s = ss_shm stats in
      nl @ ''hash table stats:'' @ nl
      @ int_line ''max_key_count'' (ss_max_key_count stats)
      @ int_line ''current_key_count'' (ss_count stats)
      @ ''segment_size: '' @ show_mb (ss_segment_size stats) @ nl @ nl
      @ int_line ''set.total_count'' (ctr_total (st_set s))
      @ int_line ''set.success_count'' (ctr_success (st_set s))
      @ int_line ''incr.total_count'' (ctr_total (st_incr s))
      @ int_line ''incr.success_count'' (ctr_success (st_incr s))
      @ int_line ''get.total_count'' (ctr_total (st_get s))
      @ int_line ''get.success_count'' (ctr_success (st_get s))
      @ int_line ''del.total_count'' (ctr_total (st_del s))
      @ int_line ''del.success_count'' (ctr_success (st_del s))
      @ ''get.qps: '' @ show_fixed 2 (ss_get_qps stats) @ nl
      @ ''hit ratio (last '' @ show_int (ss_seconds stats) @ '' seconds): '' @ stats_ratio stats @ nl
      @ ''total hit ratio (last '' @ show_int since @ '' seconds): '' @ stats_total_ratio stats @ nl
      @ ''total RW ratio: '' @ stats_rw_ratio stats @ nl @ nl)"

definition stats_memory :: "shmcache_stats \<Rightarrow> string" where
  "stats_memory stats =
     (let s = ss_shm stats; (avg_key_len, avg_value_len) = stats_avg stats in
      nl @ ''memory stats:'' @ nl
      @ ''total: '' @ show_mb (ss_max stats) @ nl
      @ ''alloced: '' @ show_mb (mu_alloced (ss_usage stats)) @ nl
      @ ''used: '' @ show_mb (ss_used stats) @ nl
      @ ''free: '' @ show_mb (ss_max stats - ss_used stats) @ nl
      @ int_line ''avg_key_len'' avg_key_len
      @ int_line ''avg_value_len'' avg_value_len @ nl
      @ nl @ ''memory recycle stats:'' @ nl
      @ int_line ''clear_ht_entry.total_count'' (st_clear_total s)
      @ int_line ''clear_ht_entry.valid_count'' (st_clear_valid s) @ nl
      @ int_line ''recycle.key.total_count'' (rs_total (st_recycle_key s))
      @ int_line ''recycle.key.success_count'' (rs_success (st_recycle_key s))
      @ int_line ''recycle.key.force_count'' (rs_force (st_recycle_key s)) @ nl
      @ int_line ''recycle.value_striping.total_count'' (rs_total (st_recycle_value_striping s))
      @ int_line ''recycle.value_striping.success_count'' (rs_success (st_recycle_value_striping s))
      @ int_line ''recycle.value_striping.force_count'' (rs_force (st_recycle_value_striping s)) @ nl)"

definition stats_lock :: "shmcache_stats \<Rightarrow> string" where
  "stats_lock stats =
     (let s = ss_shm stats in
      nl @ ''lock stats:'' @ nl
      @ int_line ''total_count'' (st_lock_total s)
      @ int_line ''retry_count'' (st_lock_retry s)
      @ int_line ''detect_deadlock'' (st_lock_detect_deadlock s)
      @ int_line ''unlock_deadlock'' (st_lock_unlock_deadlock s) @ nl)"

definition stats_output :: "host \<Rightarrow> shmcache_context \<Rightarrow> string \<times> shmcache_context" where
  "stats_output h c =
     (let (t, c) = sys Sys_time c;
          c = c\<lparr>sc_g_current_time := t\<rparr>;
          (stats, c) = shmcache_stats_op c in
      (stats_times h c
       @ stats_hashtable stats (int32 (sc_g_current_time c - st_init_time (mi_stats (sc_memory c))))
       @ stats_memory stats @ stats_lock stats, c))"

section \<open>The tool\<close>

definition stats_usage :: "string \<Rightarrow> string" where
  "stats_usage prog = ''show shmcache stats.'' @ nl @ ''Usage: '' @ prog @ '' [config_filename] [clean|clear]'' @ nl
     @ [CHR 0x09] @ ''clean or clear to reset the shm stats'' @ nl @ nl"

text \<open>Whether to reset, and the configuration file.\<close>

definition stats_args :: "string list \<Rightarrow> bool \<times> string" where
  "stats_args argv =
     (let clear_stats = (length argv \<ge> 2 \<and> (last argv = ''clean'' \<or> last argv = ''clear'')) in
      (clear_stats,
       if length argv \<ge> 2 then
         (if length argv = 2 then (if \<not> clear_stats then argv ! 1 else default_config_filename) else argv ! 1)
       else default_config_filename))"

definition stats_main :: "host \<Rightarrow> shmcache_context \<Rightarrow> string list \<Rightarrow> tool_run" where
  "stats_main h c argv =
     (if is_help argv then exit_usage 0 (stats_usage (argv ! 0)) c
      else do {
        let (clear_stats, config_filename) = stats_args argv;
        (result, c) \<leftarrow> tool_init h c config_filename False True;
        if result \<noteq> 0 then exit_quiet result c
        else if clear_stats then do {
          c \<leftarrow> shmcache_clear_stats (host_others h) c;
          Some (\<lparr>te_status = 0, te_stdout = ''shm stats cleared.'' @ nl @ nl, te_stderr = []\<rparr>, c)
        }
        else (let (out, c) = stats_output h c in Some (\<lparr>te_status = 0, te_stdout = out, te_stderr = []\<rparr>, c))
      })"

section \<open>Rounding\<close>

lemma round_even_near: "\<bar>of_int (round_even x) - x\<bar> \<le> 1 / 2"
proof -
  have "of_int \<lfloor>x\<rfloor> \<le> x" "x < of_int \<lfloor>x\<rfloor> + 1" by linarith+
  then show ?thesis by (auto simp: round_even_def Let_def)
qed

lemma round_even_mono:
  assumes "x \<le> y"
  shows "round_even x \<le> round_even y"
proof (cases "\<lfloor>x\<rfloor> = \<lfloor>y\<rfloor>")
  case True
  then show ?thesis using assms by (auto simp: round_even_def Let_def)
next
  case False
  then have "\<lfloor>x\<rfloor> + 1 \<le> \<lfloor>y\<rfloor>" using floor_mono [OF assms] by simp
  moreover have "round_even x \<le> \<lfloor>x\<rfloor> + 1" "\<lfloor>y\<rfloor> \<le> round_even y" by (auto simp: round_even_def Let_def)
  ultimately show ?thesis by simp
qed

lemma round_even_of_int [simp]: "round_even (of_int n) = n"
  by (simp add: round_even_def)

end
