(* ===== verification/TsarModule.thy ===== *)
theory TsarModule
  imports StatsTool "HOL-Library.Word"
begin

text \<open>
  \<^verbatim>\<open>src/tsar-shmcache-module/mod_shmcache.c\<close>: the module for the monitoring tool tsar. It prints the counters of the
  cache as a record, and computes the rates between two records. The counters of a record are unsigned 64 bit
  numbers and their difference wraps; doubles are exact fractions.
\<close>

section \<open>The fields\<close>

text \<open>A column of a report: its name and where it is shown. The bits are those of tsar.\<close>

datatype tsar_bit = SUMMARY_BIT | DETAIL_BIT | HIDE_BIT

record mod_info =
  ti_hdr :: string
  ti_bit :: tsar_bit

definition shmcache_info :: "mod_info list" where
  "shmcache_info = map (\<lambda>(hdr, b). \<lparr>ti_hdr = hdr, ti_bit = b\<rparr>)
     [(''GetQPS'', SUMMARY_BIT), (''HitRat'', SUMMARY_BIT), (''SetQPS'', DETAIL_BIT), (''IncQPS'', DETAIL_BIT), (''DelQPS'', DETAIL_BIT),
      (''Relock'', DETAIL_BIT), (''CycKey'', DETAIL_BIT), (''CKForce'', DETAIL_BIT), (''CycVal'', DETAIL_BIT), (''CVForce'', DETAIL_BIT),
      (''CLREle'', DETAIL_BIT), (''CLRVld'', DETAIL_BIT),
      (''set.total_count'', HIDE_BIT), (''set.success_count'', HIDE_BIT), (''incr.total_count'', HIDE_BIT), (''incr.success_count'', HIDE_BIT),
      (''get.total_count'', HIDE_BIT), (''get.success_count'', HIDE_BIT), (''del.total_count'', HIDE_BIT), (''del.success_count'', HIDE_BIT)]"

section \<open>Reading the counters\<close>

definition tsar_counters :: "shm_stats \<Rightarrow> int list" where
  "tsar_counters s = [st_lock_retry s, rs_total (st_recycle_key s), rs_force (st_recycle_key s),
     rs_total (st_recycle_value_striping s), rs_force (st_recycle_value_striping s), st_clear_total s, st_clear_valid s,
     ctr_total (st_set s), ctr_success (st_set s), ctr_total (st_incr s), ctr_success (st_incr s),
     ctr_total (st_get s), ctr_success (st_get s), ctr_total (st_del s), ctr_success (st_del s)]"

fun join_comma :: "string list \<Rightarrow> string" where
  "join_comma [] = []"
| "join_comma [s] = s"
| "join_comma (s # t # ss) = s @ '','' @ join_comma (t # ss)"

definition read_shmcache_stats :: "host \<Rightarrow> shmcache_context \<Rightarrow> (string \<times> shmcache_context) option" where
  "read_shmcache_stats h c = do {
     (result, c) \<leftarrow> tool_init h c default_config_filename False True;
     let (s, c) = (if result = 0 then (let (stats, c) = shmcache_stats_ex c False in (ss_shm stats, shmcache_destroy c))
                   else (zero_stats, c));
     Some (take 511 (''0,0,0,0,0,'' @ join_comma (map show_int (tsar_counters s))), c)
   }"

section \<open>The record of a period\<close>

abbreviation (input) FILED_INDEX_GET_QPS :: nat where "FILED_INDEX_GET_QPS \<equiv> 0"
abbreviation (input) FILED_INDEX_HIT_RATIO :: nat where "FILED_INDEX_HIT_RATIO \<equiv> 1"
abbreviation (input) FILED_INDEX_SET_QPS :: nat where "FILED_INDEX_SET_QPS \<equiv> 2"
abbreviation (input) FILED_INDEX_INCR_QPS :: nat where "FILED_INDEX_INCR_QPS \<equiv> 3"
abbreviation (input) FILED_INDEX_DEL_QPS :: nat where "FILED_INDEX_DEL_QPS \<equiv> 4"
abbreviation (input) FILED_INDEX_RETRY_LOCKS :: nat where "FILED_INDEX_RETRY_LOCKS \<equiv> 5"
abbreviation (input) FILED_INDEX_CLEAR_HT_VALID :: nat where "FILED_INDEX_CLEAR_HT_VALID \<equiv> 11"
abbreviation (input) FILED_INDEX_SET_TOTAL_COUNT :: nat where "FILED_INDEX_SET_TOTAL_COUNT \<equiv> 12"
abbreviation (input) FILED_INDEX_INCR_TOTAL_COUNT :: nat where "FILED_INDEX_INCR_TOTAL_COUNT \<equiv> 14"
abbreviation (input) FILED_INDEX_GET_TOTAL_COUNT :: nat where "FILED_INDEX_GET_TOTAL_COUNT \<equiv> 16"
abbreviation (input) FILED_INDEX_GET_SUCCESS_COUNT :: nat where "FILED_INDEX_GET_SUCCESS_COUNT \<equiv> 17"
abbreviation (input) FILED_INDEX_DEL_TOTAL_COUNT :: nat where "FILED_INDEX_DEL_TOTAL_COUNT \<equiv> 18"
abbreviation (input) FILED_INDEX_DEL_SUCCESS_COUNT :: nat where "FILED_INDEX_DEL_SUCCESS_COUNT \<equiv> 19"

type_synonym U_64 = "64 word"

definition CALC_INCR_FIELD_VAL :: "U_64 list \<Rightarrow> U_64 list \<Rightarrow> nat \<Rightarrow> int" where
  "CALC_INCR_FIELD_VAL pre cur i = (let v = sint (cur ! i - pre ! i) in if v < 0 \<or> v > 1000000000 then 0 else v)"

text \<open>The division of a double: by zero, a positive number gives an infinity, and zero no number at all, which is not
  greater than anything.\<close>

definition quotient_exceeds :: "rat \<Rightarrow> int \<Rightarrow> rat \<Rightarrow> bool" where
  "quotient_exceeds x d bound \<longleftrightarrow> (if d = 0 then x > 0 else x / of_int d > bound)"

definition SET_QPS_FIELD_VAL :: "U_64 list \<Rightarrow> U_64 list \<Rightarrow> int \<Rightarrow> nat \<Rightarrow> nat \<Rightarrow> rat list \<Rightarrow> rat list" where
  "SET_QPS_FIELD_VAL pre cur interval current count st =
     (let x = of_int (uint (cur ! count - pre ! count)) in
      st[current := (if x < 0 \<or> quotient_exceeds x interval 100000000 then 0
                     else if x > 1 / 100 then x / of_int interval else 0)])"

fun set_sub_fields :: "U_64 list \<Rightarrow> U_64 list \<Rightarrow> nat list \<Rightarrow> rat list \<Rightarrow> rat list" where
  "set_sub_fields pre cur [] st = st"
| "set_sub_fields pre cur (i # js) st = set_sub_fields pre cur js (st[i := of_int (CALC_INCR_FIELD_VAL pre cur i)])"

fun set_keep_fields :: "U_64 list \<Rightarrow> nat list \<Rightarrow> rat list \<Rightarrow> rat list" where
  "set_keep_fields cur [] st = st"
| "set_keep_fields cur (i # js) st = set_keep_fields cur js (st[i := of_int (uint (cur ! i))])"

definition set_shmcache_record :: "rat list \<Rightarrow> U_64 list \<Rightarrow> U_64 list \<Rightarrow> int \<Rightarrow> rat list" where
  "set_shmcache_record st pre cur interval =
     (let st = SET_QPS_FIELD_VAL pre cur interval FILED_INDEX_GET_QPS FILED_INDEX_GET_TOTAL_COUNT st;
          st = SET_QPS_FIELD_VAL pre cur interval FILED_INDEX_SET_QPS FILED_INDEX_SET_TOTAL_COUNT st;
          st = SET_QPS_FIELD_VAL pre cur interval FILED_INDEX_INCR_QPS FILED_INDEX_INCR_TOTAL_COUNT st;
          st = SET_QPS_FIELD_VAL pre cur interval FILED_INDEX_DEL_QPS FILED_INDEX_DEL_TOTAL_COUNT st;
          total_sub = CALC_INCR_FIELD_VAL pre cur FILED_INDEX_GET_TOTAL_COUNT;
          success_sub = CALC_INCR_FIELD_VAL pre cur FILED_INDEX_GET_SUCCESS_COUNT;
          st = st[FILED_INDEX_HIT_RATIO := (if total_sub > 0 then 100 * of_int success_sub / of_int total_sub else 0)];
          st = set_sub_fields pre cur [FILED_INDEX_RETRY_LOCKS..<FILED_INDEX_CLEAR_HT_VALID + 1] st
      in set_keep_fields cur [FILED_INDEX_SET_TOTAL_COUNT..<FILED_INDEX_DEL_SUCCESS_COUNT + 1] st)"

section \<open>Registration\<close>

record tsar_module =
  tm_opt_line :: string
  tm_usage :: string
  tm_info :: "mod_info list"
  tm_n_col :: nat
  tm_data_collect :: "host \<Rightarrow> shmcache_context \<Rightarrow> (string \<times> shmcache_context) option"
  tm_set_st_record :: "rat list \<Rightarrow> U_64 list \<Rightarrow> U_64 list \<Rightarrow> int \<Rightarrow> rat list"

abbreviation (input) FILEDS_TOTAL_COUNT :: nat where "FILEDS_TOTAL_COUNT \<equiv> 20"

definition mod_register :: tsar_module where
  "mod_register = \<lparr>tm_opt_line = ''--shmcache'', tm_usage = ''    --shmcache          shmcache information'', tm_info = shmcache_info,
     tm_n_col = FILEDS_TOTAL_COUNT, tm_data_collect = read_shmcache_stats, tm_set_st_record = set_shmcache_record\<rparr>"

section \<open>Counters that grow and counters that were reset\<close>











lemma set_sub_fields_length [simp]: "length (set_sub_fields pre cur js st) = length st"
  by (induction js arbitrary: st) simp_all




lemma set_qps_length [simp]: "length (SET_QPS_FIELD_VAL pre cur interval i t st) = length st"
  by (simp add: SET_QPS_FIELD_VAL_def Let_def)







end
