(* ===== verification/JavaBinding.thy ===== *)
theory JavaBinding
  imports ShmInit
begin

text \<open>
  \<^verbatim>\<open>src/java/jni/org_csource_shmcache_ShmCache.c\<close>: the native methods of the Java class \<^verbatim>\<open>ShmCache\<close>. A handler is the context
  that it points to, \<^const>\<open>None\<close> for a null pointer. A method returns its value and the message of the exception
  that is pending in the virtual machine afterwards, if any. The Java strings are given by their UTF-8 bytes.

  Of the virtual machine the code needs to know whether a class and a constructor are found; these answers and the
  messages of \<^verbatim>\<open>strerror\<close> are the fields of the record \<open>jvm\<close>.
\<close>

record jvm =
  jvm_exception_class :: bool
  jvm_value_class :: bool
  jvm_value_constructor :: bool
  jvm_strerror :: "int \<Rightarrow> string"

text \<open>A Java object of the class \<^verbatim>\<open>ShmCache.Value\<close>: the expiry time is in milliseconds.\<close>

record java_value =
  jv_value :: bytes
  jv_options :: int
  jv_expires :: int

type_synonym pending = "string option"

definition throws_exception :: "jvm \<Rightarrow> string \<Rightarrow> pending" where
  "throws_exception jvm message = (if jvm_exception_class jvm then Some message else None)"

definition throws_result :: "jvm \<Rightarrow> int \<Rightarrow> pending" where
  "throws_result jvm result = (if result \<noteq> 0 then throws_exception jvm (jvm_strerror jvm result) else None)"

abbreviation (input) VALUE_CLASS_NAME :: string where "VALUE_CLASS_NAME \<equiv> ''org/csource/shmcache/ShmCache$Value''"

section \<open>Opening and closing\<close>

text \<open>The new handler. The argument \<open>context_size\<close> is the size of the structure.\<close>

definition doInit ::
  "jvm \<Rightarrow> interference \<Rightarrow> shm_image \<Rightarrow> ini_context \<Rightarrow> shmcache_config \<Rightarrow> int \<Rightarrow> shmcache_context \<Rightarrow> string
   \<Rightarrow> (shmcache_context option \<times> pending) option" where
  "doInit jvm others img ini config context_size c config_filename =
     (let (context, c) = sys (Sys_malloc context_size) c in
      if context = 0 then Some (None, throws_exception jvm ''out of memory'')
      else do {
        (result, c) \<leftarrow> shmcache_init_from_file others img ini config c config_filename;
        Some (if result = 0 then Some c else None, None)
      })"

definition doDestroy :: "jvm \<Rightarrow> shmcache_context option \<Rightarrow> shmcache_context option \<times> pending" where
  "doDestroy jvm handler =
     (case handler of
        None \<Rightarrow> (None, throws_exception jvm ''empty handler'')
      | Some c \<Rightarrow> (Some (shmcache_destroy c), None))"

section \<open>Storing\<close>

definition doSetVO ::
  "jvm \<Rightarrow> interference \<Rightarrow> shmcache_context option \<Rightarrow> bytes \<Rightarrow> java_value \<Rightarrow> (pending \<times> shmcache_context option) option" where
  "doSetVO jvm others handler key vo =
     (case handler of
        None \<Rightarrow> Some (throws_exception jvm ''empty handler'', None)
      | Some c \<Rightarrow> do {
          (result, c) \<leftarrow> shmcache_set_ex others c key
            \<lparr>vi_data = jv_value vo, vi_options = jv_options vo, vi_expires = cdiv (jv_expires vo) 1000\<rparr>;
          Some (throws_result jvm result, Some c)
        })"

definition doSet ::
  "jvm \<Rightarrow> interference \<Rightarrow> shmcache_context option \<Rightarrow> bytes \<Rightarrow> bytes \<Rightarrow> int \<Rightarrow> (pending \<times> shmcache_context option) option" where
  "doSet jvm others handler key value ttl =
     (case handler of
        None \<Rightarrow> Some (throws_exception jvm ''empty handler'', None)
      | Some c \<Rightarrow> do {
          (result, c) \<leftarrow> shmcache_set others c key value ttl;
          Some (throws_result jvm result, Some c)
        })"

text \<open>The returned number is 0 when the increment has stored none.\<close>

definition doIncr ::
  "jvm \<Rightarrow> interference \<Rightarrow> shmcache_context option \<Rightarrow> bytes \<Rightarrow> int \<Rightarrow> int \<Rightarrow> (int \<times> pending \<times> shmcache_context option) option" where
  "doIncr jvm others handler key increment ttl =
     (case handler of
        None \<Rightarrow> Some (0, throws_exception jvm ''empty handler'', None)
      | Some c \<Rightarrow> do {
          (result, new_value, c) \<leftarrow> shmcache_incr others c key increment ttl;
          Some (case new_value of None \<Rightarrow> 0 | Some n \<Rightarrow> n, throws_result jvm result, Some c)
        })"

section \<open>Reading\<close>

definition doGet ::
  "jvm \<Rightarrow> interference \<Rightarrow> shmcache_context option \<Rightarrow> bytes \<Rightarrow> (java_value option \<times> pending \<times> shmcache_context option) option" where
  "doGet jvm others handler key =
     (case handler of
        None \<Rightarrow> Some (None, throws_exception jvm ''empty handler'', None)
      | Some c \<Rightarrow> do {
          (result, value, c) \<leftarrow> shmcache_get others c key;
          if result = 0 then
            (if \<not> jvm_value_class jvm
             then Some (None, throws_exception jvm (''can find class: '' @ VALUE_CLASS_NAME), Some c)
             else if \<not> jvm_value_constructor jvm
             then Some (None, throws_exception jvm (''can find constructor for class '' @ VALUE_CLASS_NAME), Some c)
             else do {
               v \<leftarrow> value;
               Some (Some \<lparr>jv_value = vi_data v, jv_options = vi_options v, jv_expires = int64 (vi_expires v * 1000)\<rparr>, None, Some c)
             })
          else Some (None, None, Some c)
        })"

definition doGetBytes ::
  "jvm \<Rightarrow> interference \<Rightarrow> shmcache_context option \<Rightarrow> bytes \<Rightarrow> (bytes option \<times> pending \<times> shmcache_context option) option" where
  "doGetBytes jvm others handler key =
     (case handler of
        None \<Rightarrow> Some (None, throws_exception jvm ''empty handler'', None)
      | Some c \<Rightarrow> do {
          (result, value, c) \<leftarrow> shmcache_get others c key;
          if result = 0 then do { v \<leftarrow> value; Some (Some (vi_data v), None, Some c) } else Some (None, None, Some c)
        })"

definition doGetExpires ::
  "jvm \<Rightarrow> interference \<Rightarrow> shmcache_context option \<Rightarrow> bytes \<Rightarrow> (int \<times> pending \<times> shmcache_context option) option" where
  "doGetExpires jvm others handler key =
     (case handler of
        None \<Rightarrow> Some (0, throws_exception jvm ''empty handler'', None)
      | Some c \<Rightarrow> do {
          (result, value, c) \<leftarrow> shmcache_get others c key;
          if result = 0 then do { v \<leftarrow> value; Some (vi_expires v, None, Some c) } else Some (- 1, None, Some c)
        })"

section \<open>Deleting, expiry times and clearing\<close>

definition doDelete ::
  "jvm \<Rightarrow> interference \<Rightarrow> shmcache_context option \<Rightarrow> bytes \<Rightarrow> (bool \<times> pending \<times> shmcache_context option) option" where
  "doDelete jvm others handler key =
     (case handler of
        None \<Rightarrow> Some (False, throws_exception jvm ''empty handler'', None)
      | Some c \<Rightarrow> do { (result, c) \<leftarrow> shmcache_delete others c key; Some (result = 0, None, Some c) })"

definition doSetTTL ::
  "jvm \<Rightarrow> interference \<Rightarrow> shmcache_context option \<Rightarrow> bytes \<Rightarrow> int \<Rightarrow> (bool \<times> pending \<times> shmcache_context option) option" where
  "doSetTTL jvm others handler key ttl =
     (case handler of
        None \<Rightarrow> Some (False, throws_exception jvm ''empty handler'', None)
      | Some c \<Rightarrow> do { (result, c) \<leftarrow> shmcache_set_ttl others c key ttl; Some (result = 0, None, Some c) })"

definition doClear ::
  "jvm \<Rightarrow> interference \<Rightarrow> shmcache_context option \<Rightarrow> (bool \<times> pending \<times> shmcache_context option) option" where
  "doClear jvm others handler =
     (case handler of
        None \<Rightarrow> Some (False, throws_exception jvm ''empty handler'', None)
      | Some c \<Rightarrow> do { (result, c) \<leftarrow> shmcache_clear others c; Some (result = 0, None, Some c) })"

definition doGetLastClearTime :: "jvm \<Rightarrow> shmcache_context option \<Rightarrow> int \<times> pending" where
  "doGetLastClearTime jvm handler =
     (case handler of
        None \<Rightarrow> (0, throws_exception jvm ''empty handler'')
      | Some c \<Rightarrow> (shmcache_get_last_clear_time c, None))"

definition doGetInitTime :: "jvm \<Rightarrow> shmcache_context option \<Rightarrow> int \<times> pending" where
  "doGetInitTime jvm handler =
     (case handler of
        None \<Rightarrow> (0, throws_exception jvm ''empty handler'')
      | Some c \<Rightarrow> (shmcache_get_init_time c, None))"

end
