(* ===== verification/PhpSerializer.thy ===== *)
theory PhpSerializer
  imports StatsTool
begin

text \<open>
  \<^verbatim>\<open>src/php-shmcache/serializer\<close>: which serializers a PHP process can use, and packing a PHP value into bytes and back.
  The serializers themselves are code of PHP and of the extensions igbinary and msgpack; they are fields of the
  record \<open>php_functions\<close>, an extension that is not loaded is \<^const>\<open>None\<close>.
\<close>

section \<open>Values and serializers\<close>

text \<open>A PHP value: the kinds that the extension looks at or builds, and the rest.\<close>

datatype 'o zval =
    Z_Null
  | Z_Bool bool
  | Z_Long int
  | Z_Double rat
  | Z_String bytes
  | Z_Array "(string \<times> 'o zval) list"
  | Z_Other 'o

record 'o php_functions =
  pf_msgpack_serialize :: "('o zval \<Rightarrow> bytes) option"
  pf_msgpack_unserialize :: "(bytes \<Rightarrow> 'o zval) option"
  pf_igbinary_pack :: "('o zval \<Rightarrow> int \<times> bytes) option"
  pf_igbinary_unpack :: "(bytes \<Rightarrow> int \<times> 'o zval) option"
  pf_php_serialize :: "'o zval \<Rightarrow> bytes"
  pf_php_unserialize :: "bytes \<Rightarrow> 'o zval option"

text \<open>The set of usable serializers, one bit for each.\<close>

definition initial_serializers :: int where
  "initial_serializers = SHMCACHE_SERIALIZER_STRING OR SHMCACHE_SERIALIZER_LIST OR SHMCACHE_SERIALIZER_MAP
     OR SHMCACHE_SERIALIZER_INTEGER OR SHMCACHE_SERIALIZER_PHP"

text \<open>The argument \<open>handle\<close> is the result and the errno of \<^verbatim>\<open>dlopen\<close>; a null handle ends the loading.\<close>

definition shmcache_load_functions :: "int \<times> int \<Rightarrow> 'o php_functions \<Rightarrow> int \<Rightarrow> int \<times> int" where
  "shmcache_load_functions handle fs serializers =
     (if fst handle = 0 then (errno_or (snd handle) EFAULT, serializers)
      else
        (let serializers = (if pf_msgpack_serialize fs \<noteq> None \<and> pf_msgpack_unserialize fs \<noteq> None
                            then serializers OR SHMCACHE_SERIALIZER_MSGPACK else serializers);
             serializers = (if pf_igbinary_pack fs \<noteq> None \<and> pf_igbinary_unpack fs \<noteq> None
                            then serializers OR SHMCACHE_SERIALIZER_IGBINARY else serializers)
         in (0, serializers)))"

definition shmcache_serializer_enabled :: "int \<Rightarrow> int \<Rightarrow> bool" where
  "shmcache_serializer_enabled serializers serializer \<longleftrightarrow>
     serializer = SHMCACHE_SERIALIZER_STRING \<or> serializers AND serializer \<noteq> 0"

section \<open>The three packers\<close>

text \<open>A result of 0 and the bytes. Calling an extension that is not loaded is a call through a null pointer.\<close>

definition shmcache_igbinary_pack :: "'o php_functions \<Rightarrow> 'o zval \<Rightarrow> (int \<times> bytes) option" where
  "shmcache_igbinary_pack fs z = do {
     pack \<leftarrow> pf_igbinary_pack fs;
     let (ret, buf) = pack z;
     Some (if ret = 0 then (ret, buf) else (ret, []))
   }"

definition shmcache_igbinary_unpack :: "'o php_functions \<Rightarrow> bytes \<Rightarrow> (int \<times> 'o zval) option" where
  "shmcache_igbinary_unpack fs content = do { unpack \<leftarrow> pf_igbinary_unpack fs; Some (unpack content) }"

definition shmcache_msgpack_pack :: "'o php_functions \<Rightarrow> 'o zval \<Rightarrow> (int \<times> bytes) option" where
  "shmcache_msgpack_pack fs z = do { pack \<leftarrow> pf_msgpack_serialize fs; Some (0, pack z) }"

definition shmcache_msgpack_unpack :: "'o php_functions \<Rightarrow> bytes \<Rightarrow> (int \<times> 'o zval) option" where
  "shmcache_msgpack_unpack fs content = do { unpack \<leftarrow> pf_msgpack_unserialize fs; Some (0, unpack content) }"

definition shmcache_php_pack :: "'o php_functions \<Rightarrow> 'o zval \<Rightarrow> int \<times> bytes" where
  "shmcache_php_pack fs z = (0, pf_php_serialize fs z)"

definition shmcache_php_unpack :: "'o php_functions \<Rightarrow> bytes \<Rightarrow> int \<times> 'o zval" where
  "shmcache_php_unpack fs content =
     (case pf_php_unserialize fs content of None \<Rightarrow> (EINVAL, Z_Bool False) | Some z \<Rightarrow> (0, z))"

section \<open>Packing by the kind of the value\<close>

text \<open>
  The memory that packing leaves allocated: igbinary returns a buffer of its own, the other two write to a growing string.
\<close>

datatype php_buffer = Buf_data | Buf_smart_str

text \<open>The result, the options, the bytes and the buffers that are to be freed. Strings and integers are stored as they are, whatever
  the serializer.\<close>

definition shmcache_serialize :: "'o php_functions \<Rightarrow> int \<Rightarrow> 'o zval \<Rightarrow> (int \<times> int \<times> bytes \<times> php_buffer list) option" where
  "shmcache_serialize fs serializer z =
     (case z of
        Z_String s \<Rightarrow> Some (0, SHMCACHE_SERIALIZER_STRING, s, [])
      | Z_Long n \<Rightarrow> Some (0, SHMCACHE_SERIALIZER_INTEGER, show_int n, [])
      | _ \<Rightarrow>
          if serializer = SHMCACHE_SERIALIZER_IGBINARY then do {
            (result, data) \<leftarrow> shmcache_igbinary_pack fs z;
            Some (result, serializer, data, if result = 0 then [Buf_data] else [])
          }
          else if serializer = SHMCACHE_SERIALIZER_MSGPACK then
            do { (result, data) \<leftarrow> shmcache_msgpack_pack fs z; Some (result, serializer, data, [Buf_smart_str]) }
          else if serializer = SHMCACHE_SERIALIZER_PHP then
            (let (result, data) = shmcache_php_pack fs z in Some (result, serializer, data, [Buf_smart_str]))
          else Some (EINVAL, serializer, [], []))"

text \<open>Freeing by the options. Freeing a buffer of igbinary that is not allocated is an error of the allocator; freeing a growing string
  that has no memory does nothing.\<close>

definition shmcache_free_serialize_output :: "int \<Rightarrow> php_buffer list \<Rightarrow> php_buffer list option" where
  "shmcache_free_serialize_output options live =
     (if options = SHMCACHE_SERIALIZER_IGBINARY then (if Buf_data \<in> set live then Some (remove1 Buf_data live) else None)
      else if options = SHMCACHE_SERIALIZER_MSGPACK \<or> options = SHMCACHE_SERIALIZER_PHP then Some (remove1 Buf_smart_str live)
      else Some live)"

text \<open>An integer is read from a buffer of 32 bytes.\<close>

definition shmcache_unserialize :: "'o php_functions \<Rightarrow> shmcache_value_info \<Rightarrow> (int \<times> 'o zval) option" where
  "shmcache_unserialize fs value =
     (if vi_options value = SHMCACHE_SERIALIZER_STRING then Some (0, Z_String (vi_data value))
      else if vi_options value = SHMCACHE_SERIALIZER_INTEGER then
        (let len = (if length (vi_data value) < 32 then length (vi_data value) else 31)
         in Some (0, Z_Long (fst (strtoll (cstr (take len (vi_data value)))))))
      else if vi_options value = SHMCACHE_SERIALIZER_IGBINARY then shmcache_igbinary_unpack fs (vi_data value)
      else if vi_options value = SHMCACHE_SERIALIZER_MSGPACK then shmcache_msgpack_unpack fs (vi_data value)
      else if vi_options value = SHMCACHE_SERIALIZER_PHP then Some (shmcache_php_unpack fs (vi_data value))
      else Some (EINVAL, Z_Null))"

section \<open>Memory\<close>

text \<open>What packing allocated is freed, once and completely; packing that failed left nothing behind.\<close>

lemma serialize_freed:
  assumes "shmcache_serialize fs serializer z = Some (result, options, data, live)"
  shows "result = 0 \<Longrightarrow> shmcache_free_serialize_output options live = Some []" and "result \<noteq> 0 \<Longrightarrow> live = []"
proof -
  have "(result = 0 \<longrightarrow> shmcache_free_serialize_output options live = Some []) \<and> (result \<noteq> 0 \<longrightarrow> live = [])"
    using assms
    by (cases z) (auto simp: shmcache_serialize_def shmcache_free_serialize_output_def shmcache_msgpack_pack_def shmcache_php_pack_def
        split: if_splits bind_splits)
  then show "result = 0 \<Longrightarrow> shmcache_free_serialize_output options live = Some []" "result \<noteq> 0 \<Longrightarrow> live = []" by simp_all
qed

end
