(* ===== verification/PhpExtension.thy ===== *)
theory PhpExtension
  imports PhpSerializer
begin

text \<open>
  \<^verbatim>\<open>src/php-shmcache/php_shmcache.c\<close>: the class \<^verbatim>\<open>ShmCache\<close>. A method gets its parsed arguments, \<^const>\<open>None\<close> when the engine
  rejected them, and returns a PHP value and the message of the exception it throws, if any. An object refers to
  one of the contexts that the process has opened, one for each configuration file.
\<close>

section \<open>The contexts of a process\<close>

record context_array =
  ca_contexts :: "(string \<times> shmcache_context) list"
  ca_alloc :: int

definition empty_context_array :: context_array where
  "empty_context_array = \<lparr>ca_contexts = [], ca_alloc = 0\<rparr>"

text \<open>The search of the array for a file name.\<close>

fun find_context :: "nat \<Rightarrow> (string \<times> shmcache_context) list \<Rightarrow> string \<Rightarrow> nat option" where
  "find_context i [] filename = None"
| "find_context i ((name, _) # contexts) filename =
     (if filename = name then Some i else find_context (Suc i) contexts filename)"

definition grow_array :: "shmcache_context \<Rightarrow> context_array \<Rightarrow> (int \<times> context_array option) \<times> shmcache_context" where
  "grow_array c ctxs =
     (if int (length (ca_contexts ctxs)) \<ge> ca_alloc ctxs then
        (let alloc = (if ca_alloc ctxs = 0 then 2 else ca_alloc ctxs * 2);
             bytes = 16 * alloc;
             (contexts, c) = sys (Sys_malloc bytes) c in
         ((bytes, if contexts = 0 then None else Some (ctxs\<lparr>ca_alloc := alloc\<rparr>)), c))
      else ((0, Some ctxs), c))"

text \<open>
  The position of the context, or the message of the error, which is written to a buffer of 128 bytes. Two messages are
  cut to the buffer; the last one is not, and one that is too long overwrites the stack: \<^const>\<open>None\<close>. The
  argument \<open>c\<close> is the process before a context is opened.
\<close>

definition shmcache_get_context ::
  "host \<Rightarrow> int \<Rightarrow> shmcache_context \<Rightarrow> context_array \<Rightarrow> string \<Rightarrow> ((string + nat) \<times> context_array) option" where
  "shmcache_get_context h context_size c ctxs filename =
     (case find_context 0 (ca_contexts ctxs) filename of
        Some i \<Rightarrow> Some (Inr i, ctxs)
      | None \<Rightarrow>
          (let ((bytes, grown), c) = grow_array c ctxs in
           case grown of
             None \<Rightarrow> Some (Inl (take 127 (''malloc '' @ show_int bytes @ '' bytes fail'')), ctxs)
           | Some ctxs \<Rightarrow>
               (let (config_filename, c) = sys (Sys_malloc (int (length filename) + 1)) c in
                if config_filename = 0 then Some (Inl (take 127 (''strdup filename: '' @ filename @ '' fail'')), ctxs)
                else
                  (let (context, c) = sys (Sys_malloc context_size) c in
                   if context = 0
                   then Some (Inl (take 127 (''malloc '' @ show_int context_size @ '' bytes fail'')), ctxs)
                   else do {
                     (result, c) \<leftarrow> shmcache_init_from_file (host_others h) (host_image h) (host_ini h) (host_config h) c filename;
                     if result \<noteq> 0 then
                       (let msg = ''shmcache_init_from_file: '' @ filename @ '' fail'' in
                        if length msg \<ge> 128 then None else Some (Inl msg, ctxs))
                     else Some (Inr (length (ca_contexts ctxs)),
                                ctxs\<lparr>ca_contexts := ca_contexts ctxs @ [(filename, c)]\<rparr>)
                   }))))"

section \<open>The methods\<close>

text \<open>The value that a method returns, the message of its exception, and the buffers that it leaves allocated.\<close>

record 'o php_out =
  po_return :: "'o zval"
  po_exception :: "string option"
  po_leaked :: "php_buffer list"

definition RETURN :: "'o zval \<Rightarrow> 'o php_out" where
  "RETURN z = \<lparr>po_return = z, po_exception = None, po_leaked = []\<rparr>"

definition THROW :: "string \<Rightarrow> 'o php_out" where
  "THROW msg = \<lparr>po_return = Z_Bool False, po_exception = Some msg, po_leaked = []\<rparr>"

abbreviation (input) RETURN_FALSE :: "'o php_out" where "RETURN_FALSE \<equiv> RETURN (Z_Bool False)"
abbreviation (input) RETURN_TRUE :: "'o php_out" where "RETURN_TRUE \<equiv> RETURN (Z_Bool True)"

definition not_enabled :: "int \<Rightarrow> string" where
  "not_enabled serializer = ''php extension: '' @ shmcache_get_serializer_label serializer @ '' not enabled''"

text \<open>An object: the position of its context, \<^const>\<open>None\<close> for a null pointer, and its serializer. A new object is zeroed.\<close>

record php_shmcache_t =
  obj_context :: "nat option"
  obj_serializer :: int

definition php_shmcache_new :: php_shmcache_t where
  "php_shmcache_new = \<lparr>obj_context = None, obj_serializer = 0\<rparr>"

text \<open>The constructor: the exception, the object and the contexts after it. The context is set even when it is a null pointer, the
  serializer only on success.\<close>

definition php_construct ::
  "host \<Rightarrow> int \<Rightarrow> int \<Rightarrow> shmcache_context \<Rightarrow> context_array \<Rightarrow> php_shmcache_t \<Rightarrow> (string \<times> int option) option
   \<Rightarrow> (string option \<times> php_shmcache_t \<times> context_array) option" where
  "php_construct h context_size serializers c ctxs obj args =
     (case args of
        None \<Rightarrow> Some (Some ''zend_parse_parameters fail'', obj, ctxs)
      | Some (config_filename, opt) \<Rightarrow>
          (let serializer = (case opt of None \<Rightarrow> SHMCACHE_SERIALIZER_IGBINARY | Some s \<Rightarrow> s) in
           if \<not> shmcache_serializer_enabled serializers (int32 serializer) then Some (Some (not_enabled (int32 serializer)), obj, ctxs)
           else do {
             (r, ctxs) \<leftarrow> shmcache_get_context h context_size c ctxs config_filename;
             Some (case r of
                 Inl msg \<Rightarrow> (Some msg, obj\<lparr>obj_context := None\<rparr>, ctxs)
               | Inr i \<Rightarrow> (None, \<lparr>obj_context = Some i, obj_serializer = int32 serializer\<rparr>, ctxs))
           }))"

definition php_set ::
  "interference \<Rightarrow> 'o php_functions \<Rightarrow> int \<Rightarrow> shmcache_context \<Rightarrow> (bytes \<times> 'o zval \<times> int) option
   \<Rightarrow> ('o php_out \<times> shmcache_context) option" where
  "php_set others fs serializer c args =
     (case args of
        None \<Rightarrow> Some (RETURN_FALSE, c)
      | Some (key, val, ttl) \<Rightarrow>
          if val = Z_Bool False then Some (THROW ''can't set value to false'', c)
          else do {
            let (expires, c) = (if ttl = SHMCACHE_NEVER_EXPIRED then (HT_CALC_EXPIRES 0 ttl, c)
                                else (let (t, c) = sys Sys_time c in (HT_CALC_EXPIRES t ttl, c)));
            (result, options, data, live) \<leftarrow> shmcache_serialize fs serializer val;
            if result \<noteq> 0 then Some (RETURN_FALSE\<lparr>po_leaked := live\<rparr>, c)
            else do {
              (result, c) \<leftarrow> shmcache_set_ex others c key \<lparr>vi_data = data, vi_options = options, vi_expires = expires\<rparr>;
              live \<leftarrow> shmcache_free_serialize_output options live;
              Some ((if result \<noteq> 0 then RETURN_FALSE else RETURN_TRUE)\<lparr>po_leaked := live\<rparr>, c)
            }
          })"

definition php_setExpires ::
  "interference \<Rightarrow> shmcache_context \<Rightarrow> (bytes \<times> int) option \<Rightarrow> ('o php_out \<times> shmcache_context) option" where
  "php_setExpires others c args =
     (case args of
        None \<Rightarrow> Some (RETURN_FALSE, c)
      | Some (key, expires) \<Rightarrow> do {
          (result, c) \<leftarrow> shmcache_set_expires others c key (int32 expires);
          Some (if result = 0 then RETURN_TRUE
                else if result = EINVAL then THROW ''invalid expires parameter'' else RETURN_FALSE, c)
        })"

definition php_setTTL ::
  "interference \<Rightarrow> shmcache_context \<Rightarrow> (bytes \<times> int) option \<Rightarrow> ('o php_out \<times> shmcache_context) option" where
  "php_setTTL others c args =
     (case args of
        None \<Rightarrow> Some (RETURN_FALSE, c)
      | Some (key, ttl) \<Rightarrow> do {
          (result, c) \<leftarrow> shmcache_set_ttl others c key (int32 ttl);
          Some (if result = 0 then RETURN_TRUE
                else if result = EINVAL then THROW ''invalid ttl parameter'' else RETURN_FALSE, c)
        })"

text \<open>A successful increment has stored the new value, so the uninitialised case is not reached.\<close>

definition php_incr ::
  "interference \<Rightarrow> shmcache_context \<Rightarrow> (bytes \<times> int \<times> int) option \<Rightarrow> ('o php_out \<times> shmcache_context) option" where
  "php_incr others c args =
     (case args of
        None \<Rightarrow> Some (RETURN_FALSE, c)
      | Some (key, increment, ttl) \<Rightarrow> do {
          (result, new_value, c) \<leftarrow> shmcache_incr others c key increment (int32 ttl);
          if result \<noteq> 0 then Some (RETURN_FALSE, c)
          else do { n \<leftarrow> new_value; Some (RETURN (Z_Long n), c) }
        })"

definition php_get ::
  "interference \<Rightarrow> int \<Rightarrow> 'o php_functions \<Rightarrow> shmcache_context \<Rightarrow> (bytes \<times> bool option) option
   \<Rightarrow> ('o php_out \<times> shmcache_context) option" where
  "php_get others serializers fs c args =
     (case args of
        None \<Rightarrow> Some (RETURN_FALSE, c)
      | Some (key, opt) \<Rightarrow> do {
          let returnExpired = (opt = Some True);
          (result, value, c) \<leftarrow> shmcache_get others c key;
          if result \<noteq> 0 \<and> \<not> (returnExpired \<and> result = ETIMEDOUT) then Some (RETURN_FALSE, c)
          else do {
            v \<leftarrow> value;
            if \<not> shmcache_serializer_enabled serializers (vi_options v) then Some (THROW (not_enabled (vi_options v)), c)
            else do {
              (result, z) \<leftarrow> shmcache_unserialize fs v;
              Some (if result \<noteq> 0 then RETURN_FALSE else RETURN z, c)
            }
          }
        })"

definition php_getExpires ::
  "interference \<Rightarrow> shmcache_context \<Rightarrow> (bytes \<times> bool option) option \<Rightarrow> ('o php_out \<times> shmcache_context) option" where
  "php_getExpires others c args =
     (case args of
        None \<Rightarrow> Some (RETURN_FALSE, c)
      | Some (key, opt) \<Rightarrow> do {
          let returnExpired = (opt = Some True);
          (result, value, c) \<leftarrow> shmcache_get others c key;
          if result \<noteq> 0 \<and> \<not> (returnExpired \<and> result = ETIMEDOUT) then Some (RETURN_FALSE, c)
          else do { v \<leftarrow> value; Some (RETURN (Z_Long (vi_expires v)), c) }
        })"

definition php_delete ::
  "interference \<Rightarrow> shmcache_context \<Rightarrow> bytes option \<Rightarrow> ('o php_out \<times> shmcache_context) option" where
  "php_delete others c args =
     (case args of
        None \<Rightarrow> Some (RETURN_FALSE, c)
      | Some key \<Rightarrow> do {
          (result, c) \<leftarrow> shmcache_delete others c key;
          Some (if result \<noteq> 0 then RETURN_FALSE else RETURN_TRUE, c)
        })"

definition php_clear :: "interference \<Rightarrow> shmcache_context \<Rightarrow> ('o php_out \<times> shmcache_context) option" where
  "php_clear others c = do {
     (result, c) \<leftarrow> shmcache_clear others c;
     Some (RETURN (Z_Bool (result = 0)), c)
   }"

definition shmcache_version :: string where
  "shmcache_version = show_int 1 @ ''.'' @ show_int 0 @ ''.'' @ show_int 6"

section \<open>Statistics\<close>

definition php_stats_hashtable :: "shmcache_stats \<Rightarrow> 'o zval" where
  "php_stats_hashtable stats =
     (let s = ss_shm stats in Z_Array
       [(''max_keys'', Z_Long (ss_max_key_count stats)), (''current_keys'', Z_Long (ss_count stats)),
        (''segment_size'', Z_Long (ss_segment_size stats)),
        (''set.total'', Z_Long (ctr_total (st_set s))), (''set.success'', Z_Long (ctr_success (st_set s))),
        (''incr.total'', Z_Long (ctr_total (st_incr s))), (''incr.success'', Z_Long (ctr_success (st_incr s))),
        (''get.total'', Z_Long (ctr_total (st_get s))), (''get.success'', Z_Long (ctr_success (st_get s))),
        (''del.total'', Z_Long (ctr_total (st_del s))), (''del.success'', Z_Long (ctr_success (st_del s))),
        (''last_clear_time'', Z_Long (st_last_clear_time s)), (''get.qps'', Z_Double (ss_get_qps stats)),
        (''hit.ratio'', Z_String (if ss_ratio stats \<ge> 0 then show_fixed 2 (ss_ratio stats * 100) @ ''%'' else ''-'')),
        (''hit.last_seconds'', Z_Long (ss_seconds stats))])"

definition php_stats_memory :: "shmcache_stats \<Rightarrow> 'o zval" where
  "php_stats_memory stats =
     (let u = ss_usage stats in Z_Array
       [(''total'', Z_Long (ss_max stats)), (''alloced'', Z_Long (mu_alloced u)), (''used'', Z_Long (ss_used stats)),
        (''free'', Z_Long (ss_max stats - ss_used stats)),
        (''used_detail'', Z_Array [(''common'', Z_Long (mu_common u)), (''entry'', Z_Long (mu_entry u)),
           (''key'', Z_Long (mu_key u)), (''value'', Z_Long (mu_value u))])])"

definition php_stats_recycle :: "shm_stats \<Rightarrow> 'o zval" where
  "php_stats_recycle s =
     (let k = st_recycle_key s; v = st_recycle_value_striping s in Z_Array
       [(''ht_entry.total'', Z_Long (st_clear_total s)), (''ht_entry.valid'', Z_Long (st_clear_valid s)),
        (''by_key.total'', Z_Long (rs_total k)), (''by_key.success'', Z_Long (rs_success k)), (''by_key.force'', Z_Long (rs_force k)),
        (''by_value_striping.total'', Z_Long (rs_total v)), (''by_value_striping.success'', Z_Long (rs_success v)),
        (''by_value_striping.force'', Z_Long (rs_force v))])"

definition php_stats_lock :: "shm_stats \<Rightarrow> 'o zval" where
  "php_stats_lock s = Z_Array
     [(''total'', Z_Long (st_lock_total s)), (''retry'', Z_Long (st_lock_retry s)),
      (''detect_deadlock'', Z_Long (st_lock_detect_deadlock s)), (''unlock_deadlock'', Z_Long (st_lock_unlock_deadlock s))]"

definition php_stats :: "shmcache_context \<Rightarrow> bool option option \<Rightarrow> 'o php_out \<times> shmcache_context" where
  "php_stats c args =
     (case args of
        None \<Rightarrow> (RETURN_FALSE, c)
      | Some opt \<Rightarrow>
          (let (stats, c) = shmcache_stats_ex c (opt \<noteq> Some False)
           in (RETURN (Z_Array [(''hashtable'', php_stats_hashtable stats), (''memory'', php_stats_memory stats),
                 (''recycle'', php_stats_recycle (ss_shm stats)), (''lock'', php_stats_lock (ss_shm stats))]), c)))"

end
