(* ===== verification/PhpModule.thy ===== *)
theory PhpModule
  imports PhpExtension
begin

text \<open>
  \<^verbatim>\<open>src/php-shmcache/php_shmcache.c\<close>: the start of the module, the class that it registers, and the life of the objects of a PHP
  process. A process runs scripts that create objects, call their methods and drop them; dereferencing a null pointer, or calling
  through one, ends the process: \<^const>\<open>None\<close>.
\<close>

section \<open>The class\<close>

text \<open>A method with the number of its required parameters and the names of its parameters, as the engine reports them.\<close>

record php_method_entry =
  me_name :: string
  me_required :: nat
  me_params :: "string list"

definition shmcache_class_methods :: "php_method_entry list" where
  "shmcache_class_methods = map (\<lambda>(name, required, params). \<lparr>me_name = name, me_required = required, me_params = params\<rparr>)
     [(''__construct'', 1, [''config_filename'']),
      (''set'', 3, [''key'', ''value'', ''ttl'']),
      (''setExpires'', 2, [''key'', ''expires'']),
      (''setTTL'', 2, [''key'', ''ttl'']),
      (''incr'', 3, [''key'', ''increment'', ''ttl'']),
      (''get'', 1, [''key'', ''returnExpired'']),
      (''getExpires'', 1, [''key'', ''returnExpired'']),
      (''delete'', 1, [''key'']),
      (''stats'', 0, []),
      (''clear'', 0, [])]"

record php_class_entry =
  ce_name :: string
  ce_parent :: "string option"
  ce_methods :: "php_method_entry list"
  ce_constants :: "(string \<times> int) list"

text \<open>
  The part of the engine that the module asks: whether it has SPL, the class table by lower case name, and the default
  exception class.
\<close>

record zend_engine =
  ze_have_spl :: bool
  ze_class_table :: "string \<Rightarrow> string option"
  ze_exception_default :: string

text \<open>The base of the exception class and the remembered class; a missing class is a null pointer.\<close>

definition php_shmcache_get_exception_base :: "zend_engine \<Rightarrow> bool \<Rightarrow> string option \<Rightarrow> string option \<times> string option" where
  "php_shmcache_get_exception_base z is_root spl_ce_RuntimeException =
     (if ze_have_spl z \<and> \<not> is_root then
        (case spl_ce_RuntimeException of
           None \<Rightarrow> (case ze_class_table z ''runtimeexception'' of
               Some pce \<Rightarrow> (Some pce, Some pce)
             | None \<Rightarrow> (None, None))
         | Some ce \<Rightarrow> (Some ce, Some ce))
      else (Some (ze_exception_default z), spl_ce_RuntimeException))"

record shmcache_module =
  sm_ce :: php_class_entry
  sm_exception_ce :: php_class_entry
  sm_spl_ce :: "string option"
  sm_serializers :: int

definition PHP_MINIT_shmcache :: "zend_engine \<Rightarrow> int \<times> int \<Rightarrow> 'o php_functions \<Rightarrow> shmcache_module" where
  "PHP_MINIT_shmcache z handle fs =
     (let ce = \<lparr>ce_name = ''ShmCache'', ce_parent = None, ce_methods = shmcache_class_methods, ce_constants = []\<rparr>;
          (base, spl) = php_shmcache_get_exception_base z False None;
          exception_ce = \<lparr>ce_name = ''ShmCacheException'', ce_parent = base, ce_methods = [], ce_constants = []\<rparr>;
          ce = ce\<lparr>ce_constants :=
                 [(''MAX_KEY_SIZE'', SHMCACHE_MAX_KEY_SIZE), (''NEVER_EXPIRED'', SHMCACHE_NEVER_EXPIRED),
                  (''SERIALIZER_IGBINARY'', SHMCACHE_SERIALIZER_IGBINARY), (''SERIALIZER_MSGPACK'', SHMCACHE_SERIALIZER_MSGPACK),
                  (''SERIALIZER_PHP'', SHMCACHE_SERIALIZER_PHP)]\<rparr>;
          (_, serializers) = shmcache_load_functions handle fs initial_serializers
      in \<lparr>sm_ce = ce, sm_exception_ce = exception_ce, sm_spl_ce = spl, sm_serializers = serializers\<rparr>)"

text \<open>The entry of the module: its name, its functions and its version.\<close>

record zend_module_entry =
  zm_name :: string
  zm_functions :: "string list"
  zm_version :: string

definition shmcache_module_entry :: zend_module_entry where
  "shmcache_module_entry = \<lparr>zm_name = ''shmcache'', zm_functions = [''shmcache_version''], zm_version = ''1.0.5''\<rparr>"

definition php_minfo :: string where
  "php_minfo = ''shmcache v'' @ show_int 1 @ ''.'' @ show_int 0 @ ''.'' @ show_int 6 @ '' support''"

section \<open>The objects of a process\<close>

record php_process =
  pp_objects :: "nat \<Rightarrow> php_shmcache_t option"
  pp_contexts :: context_array
  pp_serializers :: int

text \<open>Dropping an object frees it and leaves its context open.\<close>

definition php_shmcache_destroy :: "nat \<Rightarrow> (nat \<Rightarrow> php_shmcache_t option) \<Rightarrow> nat \<Rightarrow> php_shmcache_t option" where
  "php_shmcache_destroy handle objects = objects(handle := None)"

datatype 'o php_method =
    M_set "(bytes \<times> 'o zval \<times> int) option"
  | M_setExpires "(bytes \<times> int) option"
  | M_setTTL "(bytes \<times> int) option"
  | M_incr "(bytes \<times> int \<times> int) option"
  | M_get "(bytes \<times> bool option) option"
  | M_getExpires "(bytes \<times> bool option) option"
  | M_delete "bytes option"
  | M_stats "bool option option"
  | M_clear

text \<open>The method of the table, on the context and with the serializer of the object.\<close>

fun call_method ::
  "interference \<Rightarrow> int \<Rightarrow> 'o php_functions \<Rightarrow> int \<Rightarrow> shmcache_context \<Rightarrow> 'o php_method \<Rightarrow> ('o php_out \<times> shmcache_context) option" where
  "call_method others serializers fs serializer c (M_set args) = php_set others fs serializer c args"
| "call_method others serializers fs serializer c (M_setExpires args) = php_setExpires others c args"
| "call_method others serializers fs serializer c (M_setTTL args) = php_setTTL others c args"
| "call_method others serializers fs serializer c (M_incr args) = php_incr others c args"
| "call_method others serializers fs serializer c (M_get args) = php_get others serializers fs c args"
| "call_method others serializers fs serializer c (M_getExpires args) = php_getExpires others c args"
| "call_method others serializers fs serializer c (M_delete args) = php_delete others c args"
| "call_method others serializers fs serializer c (M_stats args) = Some (php_stats c args)"
| "call_method others serializers fs serializer c M_clear = php_clear others c"

definition update_context :: "nat \<Rightarrow> shmcache_context \<Rightarrow> context_array \<Rightarrow> context_array" where
  "update_context i c ctxs = ctxs\<lparr>ca_contexts := (ca_contexts ctxs)[i := (fst (ca_contexts ctxs ! i), c)]\<rparr>"

text \<open>What a script does: create an object, run its constructor, call one of its methods, and drop the last reference to it. The
  engine calls methods of live objects only.\<close>

datatype 'o php_action =
    Act_new nat
  | Act_construct nat "(string \<times> int option) option"
  | Act_call nat "'o php_method"
  | Act_free nat

fun php_step ::
  "host \<Rightarrow> int \<Rightarrow> 'o php_functions \<Rightarrow> shmcache_context \<Rightarrow> php_process \<Rightarrow> 'o php_action \<Rightarrow> ('o php_out \<times> php_process) option" where
  "php_step h context_size fs c p (Act_new handle) =
     Some (RETURN Z_Null, p\<lparr>pp_objects := (pp_objects p)(handle \<mapsto> php_shmcache_new)\<rparr>)"
| "php_step h context_size fs c p (Act_construct handle args) = do {
     obj \<leftarrow> pp_objects p handle;
     (exception, obj, ctxs) \<leftarrow> php_construct h context_size (pp_serializers p) c (pp_contexts p) obj args;
     Some (case exception of None \<Rightarrow> RETURN Z_Null | Some msg \<Rightarrow> THROW msg,
           p\<lparr>pp_objects := (pp_objects p)(handle \<mapsto> obj), pp_contexts := ctxs\<rparr>)
   }"
| "php_step h context_size fs c p (Act_call handle m) = do {
     obj \<leftarrow> pp_objects p handle;
     i \<leftarrow> obj_context obj;
     (out, c') \<leftarrow> call_method (host_others h) (pp_serializers p) fs (obj_serializer obj) (snd (ca_contexts (pp_contexts p) ! i)) m;
     Some (out, p\<lparr>pp_contexts := update_context i c' (pp_contexts p)\<rparr>)
   }"
| "php_step h context_size fs c p (Act_free handle) =
     Some (RETURN Z_Null, p\<lparr>pp_objects := php_shmcache_destroy handle (pp_objects p)\<rparr>)"

fun php_run ::
  "host \<Rightarrow> int \<Rightarrow> 'o php_functions \<Rightarrow> shmcache_context \<Rightarrow> php_process \<Rightarrow> 'o php_action list \<Rightarrow> ('o php_out list \<times> php_process) option" where
  "php_run h context_size fs c p [] = Some ([], p)"
| "php_run h context_size fs c p (a # script) = do {
     (out, p) \<leftarrow> php_step h context_size fs c p a;
     (outs, p) \<leftarrow> php_run h context_size fs c p script;
     Some (out # outs, p)
   }"

end
