(* ===== verification/Contention.thy ===== *)
theory Contention
  imports ApiCorrect
begin

text \<open>
  Several processes at the same cache. While a process waits for the mutex the others run their critical sections, and
  the deadlock detection may clear the table. The contract of the waiting process is one sequence of events of all
  processes: its own operations in their order, each at the moment at which it has the lock, and between them what the
  others did. The locale states what is relied on; the interpretation is for processes that run any operations of the
  hash table whenever the waiting process sleeps.
\<close>

section \<open>A fair mutex\<close>

text \<open>How often the mutex was busy in a row up to now, from the calls of the process, the latest one first.\<close>

fun busy_streak :: "(sysreq list \<Rightarrow> sysreq \<Rightarrow> int \<times> int) \<Rightarrow> sysreq list \<Rightarrow> nat" where
  "busy_streak f [] = 0"
| "busy_streak f (r # h) =
     (if r = Sys_pthread_mutex_trylock
      then (if fst (f (rev h) r) = EBUSY then Suc (busy_streak f h) else 0) else busy_streak f h)"

text \<open>The hypothesis on the platform: the mutex is free or busy, and not busy for more than \<open>N\<close> tries in a row.\<close>

definition fair_mutex :: "nat \<Rightarrow> env \<Rightarrow> bool" where
  "fair_mutex N e \<longleftrightarrow> (\<forall>h. fst (env_sys e h Sys_pthread_mutex_trylock) \<in> {0, EBUSY}
     \<and> (N \<le> busy_streak (env_sys e) (rev h) \<longrightarrow> fst (env_sys e h Sys_pthread_mutex_trylock) = 0))"

definition streak :: "shmcache_context \<Rightarrow> nat" where
  "streak c = busy_streak (env_sys (sc_env c)) (rev (env_history (sc_env c)))"

definition quiet :: "shmcache_context \<Rightarrow> shmcache_context \<Rightarrow> bool" where
  "quiet c c' \<longleftrightarrow> env_sys (sc_env c') = env_sys (sc_env c) \<and> streak c' = streak c"

lemma quiet_env: "sc_env c' = sc_env c \<Longrightarrow> quiet c c'"
  by (simp add: quiet_def streak_def)

lemma quiet_trans: "quiet c c1 \<Longrightarrow> quiet c1 c2 \<Longrightarrow> quiet c c2"
  by (simp add: quiet_def)

lemma quiet_sys: "r \<noteq> Sys_pthread_mutex_trylock \<Longrightarrow> quiet c (snd (sys r c))"
  by (simp add: quiet_def streak_def snd_sys sysval_def syscall_def)

lemma fair_mutex_env: "env_sys e' = env_sys e \<Longrightarrow> fair_mutex N e \<Longrightarrow> fair_mutex N e'"
  by (simp add: fair_mutex_def)

lemma quiet_clear:
  assumes "clearable c"
  shows "quiet c (snd (shm_ht_clear c))"
  using assms by (simp add: ht_clear_eq cleared_def clearable_def allocs_ok_def snd_sys quiet_def streak_def sysval_def syscall_def)

lemma rep_clearable: "cache_rep c ps \<Longrightarrow> clearable c"
  using cache_inv_clearable by (auto simp: cache_rep_def full_inv_def)

section \<open>Waiting among other processes\<close>

text \<open>The contract of the other processes: what they do to the cache is a sequence of events of allowed operations, and they do
  not touch the calls of the waiting process.\<close>

locale contention =
  fixes others :: interference and allowed :: "(bytes, shmcache_value_info) store_op set"
  assumes others_law: "cache_rep c ps \<Longrightarrow>
      \<exists>es ps'. list_all (\<lambda>e. event_op e \<in> allowed) es \<and> lossy ps es ps' \<and> cache_rep (others c) ps'"
    and others_env: "cache_rep c ps \<Longrightarrow> sc_env (others c) = sc_env c"
begin

text \<open>An event that is not one of the waiting process: of another process, or the clearing of the deadlock detection.\<close>

definition foreign :: "(bytes, shmcache_value_info) store_event \<Rightarrow> bool" where
  "foreign e \<longleftrightarrow> e = Ev_Clear \<or> event_op e \<in> allowed"

definition moves :: "shmcache_context \<Rightarrow> shmcache_context \<Rightarrow> bool" where
  "moves c c' \<longleftrightarrow> (\<forall>ps. cache_rep c ps \<longrightarrow> quiet c c' \<and>
     (\<exists>es ps'. list_all foreign es \<and> lossy ps es ps' \<and> cache_rep c' ps'))"

lemma movesD:
  assumes "moves c c'" and "cache_rep c ps"
  obtains es ps' where "list_all foreign es" "lossy ps es ps'" "cache_rep c' ps'" "quiet c c'"
  using assms unfolding moves_def by blast

lemma moves_trans:
  assumes "moves c c1" and "moves c1 c2"
  shows "moves c c2"
  unfolding moves_def
proof (intro allI impI)
  fix ps
  assume "cache_rep c ps"
  with assms(1) obtain es ps1 where 1: "list_all foreign es" "lossy ps es ps1" "cache_rep c1 ps1" "quiet c c1" by (rule movesD)
  from assms(2) 1(3) obtain es' ps2 where 2: "list_all foreign es'" "lossy ps1 es' ps2" "cache_rep c2 ps2" "quiet c1 c2" by (rule movesD)
  show "quiet c c2 \<and> (\<exists>es ps'. list_all foreign es \<and> lossy ps es ps' \<and> cache_rep c2 ps')"
    using quiet_trans [OF 1(4) 2(4)] lossy_append [OF 1(2) 2(2)] 1(1) 2(1,3)
    by (intro conjI exI [of _ "es @ es'"] exI [of _ ps2]) simp_all
qed

lemma moves_locking: "locking c c' \<Longrightarrow> quiet c c' \<Longrightarrow> moves c c'"
  unfolding moves_def using locking_rep lossy_nil by (metis list.pred_inject(1))

lemma moves_refl [simp]: "moves c c"
  by (rule moves_locking) (simp_all add: quiet_env)

lemma moves_sys: "r \<noteq> Sys_pthread_mutex_trylock \<Longrightarrow> moves c (snd (sys r c))"
  by (rule moves_locking [OF locking_sys quiet_sys])

lemma moves_stats: "moves c (lock_stats f c)"
  by (rule moves_locking [OF locking_stats quiet_env]) simp

lemma moves_pid: "moves c (set_lock_pid pid c)"
  by (rule moves_locking [OF locking_pid quiet_env]) (simp add: set_lock_pid_def)

lemma moves_fd: "moves c (c\<lparr>sc_lock_fd := fd\<rparr>)"
  by (rule moves_locking [OF locking_fd quiet_env]) simp

lemma moves_others: "moves c (others c)"
  unfolding moves_def
proof (intro allI impI)
  fix ps
  assume rep: "cache_rep c ps"
  obtain es ps' where "list_all (\<lambda>e. event_op e \<in> allowed) es" "lossy ps es ps'" "cache_rep (others c) ps'"
    using others_law [OF rep] by blast
  then show "quiet c (others c) \<and> (\<exists>es ps'. list_all foreign es \<and> lossy ps es ps' \<and> cache_rep (others c) ps')"
    using quiet_env [OF others_env [OF rep]] by (auto simp: foreign_def list_all_iff)
qed

lemma moves_clear: "moves c (snd (shm_ht_clear c))"
  unfolding moves_def
proof (intro allI impI)
  fix ps
  assume rep: "cache_rep c ps"
  then show "quiet c (snd (shm_ht_clear c)) \<and> (\<exists>es ps'. list_all foreign es \<and> lossy ps es ps' \<and> cache_rep (snd (shm_ht_clear c)) ps')"
    using rep_ht_clear(1) [OF rep] quiet_clear [OF rep_clearable [OF rep]] lossy_clear [OF lossy_nil, of ps]
    by (intro conjI exI [of _ "[Ev_Clear]"] exI [of _ "[]"]) (simp_all add: foreign_def)
qed

lemma moves_recycle_sleep: "moves c (recycle_sleep c)"
  by (simp add: recycle_sleep_def moves_sys)

text \<open>A system call whose errno is looked at.\<close>

lemma moves_syscall: "syscall r (sc_env c) = (x, e) \<Longrightarrow> r \<noteq> Sys_pthread_mutex_trylock \<Longrightarrow> moves c (c\<lparr>sc_env := e\<rparr>)"
  using moves_sys [of r c] by (simp add: snd_sys sysval_def)

lemmas moves_steps = moves_sys moves_stats moves_pid moves_fd moves_others moves_clear moves_recycle_sleep

lemma moves_lock_file: "moves c (snd (shm_lock_file others c))"
proof -
  define c1 where "c1 = (if sc_lock_fd c > 0 then snd (sys (Sys_close (sc_lock_fd c)) c) else c)"
  have 1: "moves c c1" by (simp add: c1_def moves_sys)
  obtain fd err e where q: "syscall (Sys_open_lock (cfg_filename (sc_config c1))) (sc_env c1) = ((fd, err), e)" by (metis surj_pair)
  define c2 where "c2 = c1\<lparr>sc_lock_fd := fd, sc_env := e\<rparr>"
  have 2: "moves c1 c2" unfolding c2_def using moves_trans [OF moves_fd moves_syscall [where r = "Sys_open_lock (cfg_filename (sc_config c1))"]] q by simp
  define c3 where "c3 = others (snd (sys (Sys_file_write_lock fd) c2))"
  have 3: "moves c2 c3" unfolding c3_def by (rule moves_trans [OF moves_sys moves_others]) simp
  have "moves c3 ((snd (sys (Sys_close fd) c3))\<lparr>sc_lock_fd := - 1\<rparr>)" by (rule moves_trans [OF moves_sys moves_fd]) simp
  then have "moves c c2" "moves c c3" "moves c ((snd (sys (Sys_close fd) c3))\<lparr>sc_lock_fd := - 1\<rparr>)"
    using moves_trans 1 2 3 by blast+
  moreover have "snd (shm_lock_file others c) \<in> {c2, c3, (snd (sys (Sys_close fd) c3))\<lparr>sc_lock_fd := - 1\<rparr>}"
    unfolding shm_lock_file_def Let_def c1_def [symmetric] q
    by (simp add: case_prod_unfold flip: c2_def c3_def)
  ultimately show ?thesis by fastforce
qed

lemma moves_unlock_file: "moves c (shm_unlock_file c)"
  unfolding shm_unlock_file_def by (rule moves_trans [OF moves_sys moves_fd]) simp

lemma moves_detect_deadlock: "moves c (snd (shm_detect_deadlock others c last_pid))"
proof -
  obtain r c1 where l: "shm_lock_file others c = (r, c1)" by (metis surj_pair)
  have 1: "moves c c1" using moves_lock_file [of c] l by simp
  obtain n c2 where cl: "shm_ht_clear (set_lock_pid 0 c1) = (n, c2)" by (metis surj_pair)
  have 2: "moves c1 c2" using moves_trans [OF moves_pid moves_clear, of c1 0] cl by simp
  define c3 where "c3 = (if n > 0 then recycle_sleep c2 else c2)"
  have 3: "moves c2 c3" by (simp add: c3_def moves_recycle_sleep)
  obtain r' c4 where u: "sys Sys_pthread_mutex_unlock c3 = (r', c4)" by (metis surj_pair)
  have 4: "moves c3 c4" using moves_sys [of Sys_pthread_mutex_unlock c3] u by simp
  define c5 where "c5 = lock_stats (st_lock_unlock_deadlock_update (\<lambda>n. n + 1)) c4"
  obtain t c6 where g: "get_current_time c5 = (t, c6)" by (metis surj_pair)
  have "moves c5 c6" using moves_sys [of Sys_get_current_time c5] g by simp
  then have 6: "moves c4 (lock_stats (st_lock_last_unlock_deadlock_time_update (\<lambda>_. t)) c6)"
    using moves_trans moves_stats c5_def by metis
  have "moves c4 (if r' \<noteq> 0 then c4 else lock_stats (st_lock_last_unlock_deadlock_time_update (\<lambda>_. t)) c6)" using 6 by simp
  then have "moves c (shm_unlock_file (if last_pid = mi_lock_pid (sc_memory c1)
      then (if r' \<noteq> 0 then c4 else lock_stats (st_lock_last_unlock_deadlock_time_update (\<lambda>_. t)) c6) else c1))"
    using moves_trans [OF _ moves_unlock_file] moves_trans [OF 1 moves_trans [OF 2 moves_trans [OF 3 moves_trans [OF 4]]]] 1 by simp
  then show ?thesis
    using 1 cl u g unfolding shm_detect_deadlock_def l by (simp add: Let_def split: if_splits flip: c3_def c5_def)
qed

lemma moves_retry: "moves c (snd (lock_retry others c clocks))"
proof -
  define c1 where "c1 = others (snd (sys (Sys_usleep (cfg_trylock_interval_us (sc_config c))) (lock_stats (st_lock_retry_update (\<lambda>n. n + 1)) c)))"
  have 1: "moves c c1" unfolding c1_def by (intro moves_trans [OF moves_stats moves_trans [OF moves_sys moves_others]]) simp
  let ?pid = "mi_lock_pid (sc_memory c1)"
  obtain r err e where k: "syscall (Sys_kill ?pid) (sc_env c1) = ((r, err), e)" by (metis surj_pair)
  define c2 where "c2 = lock_stats (st_lock_detect_deadlock_update (\<lambda>n. n + 1)) (c1\<lparr>sc_env := e\<rparr>)"
  have k1: "moves c1 (c1\<lparr>sc_env := e\<rparr>)" by (rule moves_syscall [OF k]) simp
  obtain t c3 where g: "get_current_time c2 = (t, c3)" by (metis surj_pair)
  have "moves c2 c3" using moves_sys [of Sys_get_current_time c2] g by simp
  then have "moves c1 (lock_stats (st_lock_last_detect_deadlock_time_update (\<lambda>_. t)) c3)"
    using moves_trans [OF k1 moves_trans [OF moves_stats moves_trans [OF _ moves_stats]]] unfolding c2_def by blast
  then have "moves c (snd (shm_detect_deadlock others (lock_stats (st_lock_last_detect_deadlock_time_update (\<lambda>_. t)) c3) ?pid))"
    "moves c (c1\<lparr>sc_env := e\<rparr>)" using moves_trans [OF 1] moves_trans [OF _ moves_detect_deadlock] k1 by blast+
  then show ?thesis
    using 1 g k unfolding lock_retry_def by (simp add: Let_def flip: c1_def c2_def)
qed

text \<open>The loop gets the mutex, at the latest when the mutex has been busy as often as it may.\<close>

lemma lock_loop_returns:
  assumes "cache_rep c ps" and "fair_mutex N (sc_env c)"
  shows "\<exists>c' es ps'. lock_loop others c clocks = Some (0, c') \<and> list_all foreign es \<and> lossy ps es ps' \<and> cache_rep c' ps'
    \<and> env_sys (sc_env c') = env_sys (sc_env c) \<and> mi_lock_pid (sc_memory c') = sc_pid c'"
  using assms
proof (induction "N - streak c" arbitrary: c ps clocks rule: less_induct)
  case less
  define c1 where "c1 = snd (sys Sys_pthread_mutex_trylock c)"
  let ?r = "fst (sys Sys_pthread_mutex_trylock c)"
  have q: "sys Sys_pthread_mutex_trylock c = (?r, c1)" by (simp add: c1_def)
  have r: "?r \<in> {0, EBUSY}" "N \<le> streak c \<Longrightarrow> ?r = 0"
    using less.prems(2) by (auto simp: fst_sys fair_mutex_def streak_def)
  have rep1: "cache_rep c1 ps" and env1: "env_sys (sc_env c1) = env_sys (sc_env c)"
    using locking_rep [OF locking_sys less.prems(1)] locking_pid_kept [OF locking_sys] by (simp_all add: c1_def)
  show ?case
  proof (cases "?r = EBUSY")
    case False
    then have "lock_loop others c clocks = Some (0, set_lock_pid (sc_pid c1) c1)"
      using r(1) q by (subst lock_loop.simps) simp
    moreover have "cache_rep (set_lock_pid (sc_pid c1) c1) ps" by (rule locking_rep [OF locking_pid rep1])
    ultimately show ?thesis
      using lossy_nil [of ps] env1 by (intro exI [of _ "set_lock_pid (sc_pid c1) c1"] exI [of _ "[]"] exI [of _ ps]) (simp add: set_lock_pid_def)
  next
    case True
    have streak1: "streak c1 = Suc (streak c)"
      using True by (simp add: streak_def c1_def fst_sys snd_sys sysval_def syscall_def)
    obtain n c2 where t: "lock_retry others c1 clocks = (n, c2)" by (metis surj_pair)
    have "moves c1 c2" using moves_retry [of c1 clocks] t by simp
    then obtain es ps2 where 2: "list_all foreign es" "lossy ps es ps2" "cache_rep c2 ps2" "quiet c1 c2" using rep1 by (rule movesD)
    have "streak c < N" using r(2) True by (cases "N \<le> streak c") auto
    then have "N - streak c2 < N - streak c" using 2(4) streak1 by (simp add: quiet_def)
    moreover have env2: "env_sys (sc_env c2) = env_sys (sc_env c)" using 2(4) env1 by (simp add: quiet_def)
    ultimately obtain c' es' ps' where "lock_loop others c2 n = Some (0, c')" "list_all foreign es'" "lossy ps2 es' ps'"
      "cache_rep c' ps'" "env_sys (sc_env c') = env_sys (sc_env c2)" "mi_lock_pid (sc_memory c') = sc_pid c'"
      using less.hyps [OF _ 2(3) fair_mutex_env [OF env2 less.prems(2)], of n] by blast
    moreover have "lock_loop others c clocks = lock_loop others c2 n" using q True t by (subst lock_loop.simps) simp
    ultimately show ?thesis
      using lossy_append [OF 2(2)] 2(1) env2 by (intro exI [of _ c'] exI [of _ "es @ es'"] exI [of _ ps']) simp
  qed
qed

lemma lock_returns:
  assumes "cache_rep c ps" and "fair_mutex N (sc_env c)"
  obtains c' es ps' where "shm_lock others c = Some (0, c')" "list_all foreign es" "lossy ps es ps'" "cache_rep c' ps'"
    "env_sys (sc_env c') = env_sys (sc_env c)" "mi_lock_pid (sc_memory c') = sc_pid c'"
proof -
  have "cache_rep (lock_stats (st_lock_total_update (\<lambda>n. n + 1)) c) ps" by (rule locking_rep [OF locking_stats assms(1)])
  from lock_loop_returns [OF this, of N 0] show thesis using assms(2) that by (auto simp: shm_lock_def)
qed

section \<open>One sequence of events\<close>

text \<open>The operations, with the other processes running before each of them as well as while it waits.\<close>

abbreviation contended_run ::
  "(bytes, shmcache_value_info) store_op list \<Rightarrow> shmcache_context \<Rightarrow> ((bytes, shmcache_value_info) store_event list \<times> shmcache_context) option" where
  "contended_run \<equiv> store_run (\<lambda>c. api_read others (others c)) (\<lambda>c. shmcache_set_ex others (others c))
     (\<lambda>c. shmcache_delete others (others c)) (\<lambda>c. api_clear others (others c))"

lemma one_operation:
  assumes "cache_rep c ps" and "fair_mutex N (sc_env c)"
  shows "\<exists>fs e c' ps'. contended_run [p] c = Some ([e], c') \<and> event_op e = p \<and> list_all foreign fs \<and> lossy ps (fs @ [e]) ps'
    \<and> cache_rep c' ps' \<and> env_sys (sc_env c') = env_sys (sc_env c)"
proof -
  obtain es0 ps0 where 0: "list_all foreign es0" "lossy ps es0 ps0" "cache_rep (others c) ps0" "quiet c (others c)"
    using moves_others assms(1) by (rule movesD)
  have env0: "env_sys (sc_env (others c)) = env_sys (sc_env c)" using 0(4) by (simp add: quiet_def)
  obtain c1 es1 ps1 where 1: "shm_lock others (others c) = Some (0, c1)" "list_all foreign es1" "lossy ps0 es1 ps1" "cache_rep c1 ps1"
    "env_sys (sc_env c1) = env_sys (sc_env (others c))"
    by (rule lock_returns [OF 0(3) fair_mutex_env [OF env0 assms(2)]])
  have fs: "list_all foreign (es0 @ es1)" "lossy ps (es0 @ es1) ps1" using 0(1) 1(2) lossy_append [OF 0(2) 1(3)] by simp_all
  have result: ?thesis if "contended_run [p] c = Some ([e], c')" "event_op e = p" "lossy ps1 [e] ps'" "cache_rep c' ps'" "fixed c1 c'" for e c' ps'
    using that fs lossy_append [OF fs(2) that(3)] 1(5) env0
    by (intro exI [of _ "es0 @ es1"] exI [of _ e] exI [of _ c'] exI [of _ ps']) (simp add: fixed_def)
  show ?thesis
  proof (cases p)
    case (Op_Set k v)
    obtain r c' ps' where "shmcache_set_ex others (others c) k v = Some (r, c')" "cache_rep c' ps'" "fixed c1 c'"
      "if r = 0 then \<exists>qs. subseq qs (filter (\<lambda>p. fst p \<noteq> k) ps1) \<and> ps' = qs @ [(k, v)] else subseq ps' ps1"
      using 1(1,4) by (rule locked_set_ex)
    then show ?thesis using result [of "Ev_Set k v r" c' ps'] lossy_set [of r k ps1 ps' v] by (simp add: Op_Set)
  next
    case (Op_Get k)
    show ?thesis
    proof (cases "cfg_read_within_lock (sc_config (others c))")
      case True
      obtain r c' where "shmcache_get others (others c) k = Some (r, map_of ps1 k, c')" "cache_rep c' ps1" "fixed c1 c'"
        using True 1(1,4) by (rule locked_get)
      then show ?thesis using result [of "Ev_Get k (map_of ps1 k)" c' ps1] lossy_get [OF lossy_nil, of ps1 k] by (simp add: Op_Get api_read_def)
    next
      case False
      obtain r c' where g: "shmcache_get others (others c) k = Some (r, map_of ps0 k, c')" "cache_rep c' ps0" "fixed (others c) c'"
        using False 0(3) by (rule unlocked_get)
      show ?thesis
        using g 0(1) lossy_append [OF 0(2) lossy_get [OF lossy_nil, of ps0 k]] env0
        by (intro exI [of _ es0] exI [of _ "Ev_Get k (map_of ps0 k)"] exI [of _ c'] exI [of _ ps0])
          (simp add: Op_Get api_read_def fixed_def)
    qed
  next
    case (Op_Delete k)
    obtain r c' where "shmcache_delete others (others c) k = Some (r, c')" "cache_rep c' (filter (\<lambda>p. fst p \<noteq> k) ps1)" "fixed c1 c'"
      using 1(1,4) by (rule locked_delete)
    then show ?thesis
      using result [of "Ev_Delete k r" c' "filter (\<lambda>p. fst p \<noteq> k) ps1"] lossy_delete [where k = k and ps = ps1 and r = r, OF lossy_nil]
      by (simp add: Op_Delete)
  next
    case Op_Clear
    obtain c' where "shmcache_clear others (others c) = Some (0, c')" "cache_rep c' []" "fixed c1 c'" using 1(1,4) by (rule locked_clear)
    then show ?thesis using result [of Ev_Clear c' "[]"] lossy_clear [OF lossy_nil, of ps1] by (simp add: Op_Clear api_clear_def)
  qed
qed

text \<open>The history of all processes: the events of this process are those marked with \<^const>\<open>True\<close>.\<close>

lemma contended_run:
  assumes "cache_rep c ps" and "fair_mutex N (sc_env c)"
  shows "\<exists>es c' hs ps'. contended_run ops c = Some (es, c') \<and> map event_op es = ops \<and> map snd (filter fst hs) = es
    \<and> (\<forall>(own, e) \<in> set hs. own \<or> foreign e) \<and> lossy ps (map snd hs) ps' \<and> cache_rep c' ps'"
  using assms
proof (induction ops arbitrary: c ps)
  case Nil
  then show ?case using lossy_nil by (intro exI [of _ "[]"] exI [of _ c] exI [of _ ps]) simp
next
  case (Cons p ops)
  obtain fs e c1 ps1 where 1: "contended_run [p] c = Some ([e], c1)" "event_op e = p" "list_all foreign fs" "lossy ps (fs @ [e]) ps1"
    "cache_rep c1 ps1" "env_sys (sc_env c1) = env_sys (sc_env c)" using one_operation [OF Cons.prems] by blast
  obtain es c' hs ps' where 2: "contended_run ops c1 = Some (es, c')" "map event_op es = ops" "map snd (filter fst hs) = es"
    "\<forall>(own, e) \<in> set hs. own \<or> foreign e" "lossy ps1 (map snd hs) ps'" "cache_rep c' ps'"
    using Cons.IH [OF 1(5) fair_mutex_env [OF 1(6) Cons.prems(2)]] by blast
  let ?hs = "map (Pair False) fs @ (True, e) # hs"
  have "contended_run (p # ops) c = Some (e # es, c')" using 1(1) 2(1) by (subst store_run_Cons) simp
  moreover have "map event_op (e # es) = p # ops" using 1(2) 2(2) by simp
  moreover have "map snd (filter fst ?hs) = e # es" using 2(3) by (simp add: filter_map comp_def)
  moreover have "\<forall>(own, e) \<in> set ?hs. own \<or> foreign e" using 1(3) 2(4) by (auto simp: list_all_iff)
  moreover have "lossy ps (map snd ?hs) ps'" using lossy_append [OF 1(4) 2(5)] by (simp add: comp_def)
  ultimately show ?case using 2(6) by (intro exI [of _ "e # es"] exI [of _ c'] exI [of _ ?hs] exI [of _ ps'] conjI)
qed

end

section \<open>Other processes that use the hash table\<close>

text \<open>
  The other processes as a schedule: for the calls that the waiting process has made, the operations that they run and
  the pid that they leave in the lock. What belongs to the waiting process alone stays as it is; a segment that the
  others create is open to it.
\<close>

type_synonym schedule = "sysreq list \<Rightarrow> (bytes, shmcache_value_info) store_op list \<times> int"

definition others_by :: "schedule \<Rightarrow> interference" where
  "others_by sched c =
     (let (ops, pid) = sched (env_history (sc_env c)) in
      case store_run ht_read shm_ht_set shm_ht_delete ht_empty ops c of
        None \<Rightarrow> c
      | Some (_, c') \<Rightarrow> (set_lock_pid pid c')\<lparr>sc_pid := sc_pid c, sc_env := sc_env c\<rparr>)"

definition scheduled :: "schedule \<Rightarrow> (bytes, shmcache_value_info) store_op set" where
  "scheduled sched = {p. \<exists>h. p \<in> set (fst (sched h))}"

text \<open>The hash table is a lossy store that keeps the configuration and the platform of its process.\<close>

interpretation table: lossy_store "\<lambda>d ps. cache_rep d ps \<and> fixed c d" ht_read shm_ht_set shm_ht_delete ht_empty for c
proof
  fix d ps k v
  assume "cache_rep d ps \<and> fixed c d"
  then have d: "cache_rep d ps" and keep: "\<And>c'. fixed d c' \<Longrightarrow> fixed c c'" using fixed_trans by blast+
  show "distinct (map fst ps)" by (rule ht.rep_keys [OF d])
  obtain r c' where "shm_ht_get d k = Some (r, map_of ps k, c')" "cache_rep c' ps" "fixed d c'" using d by (rule rep_ht_get)
  then show "\<exists>c'. ht_read d k = Some (map_of ps k, c') \<and> cache_rep c' ps \<and> fixed c c'" using keep by (simp add: ht_read_def)
  obtain r c' ps' where "shm_ht_set d k v = Some (r, c')" "cache_rep c' ps'" "fixed d c'"
    "if r = 0 then \<exists>qs. subseq qs (filter (\<lambda>p. fst p \<noteq> k) ps) \<and> ps' = qs @ [(k, v)] else subseq ps' ps" using d by (rule rep_ht_set)
  then show "\<exists>r c' ps'. shm_ht_set d k v = Some (r, c') \<and> (cache_rep c' ps' \<and> fixed c c')
      \<and> (if r = 0 then \<exists>qs. subseq qs (filter (\<lambda>p. fst p \<noteq> k) ps) \<and> ps' = qs @ [(k, v)] else subseq ps' ps)"
    using keep by (intro exI [of _ r] exI [of _ c'] exI [of _ ps']) simp
  obtain c' where "shm_ht_delete d k = Some (if k \<in> fst ` set ps then 0 else ENOENT, c')"
    "cache_rep c' (filter (\<lambda>p. fst p \<noteq> k) ps)" "fixed d c'" using d by (rule rep_ht_delete)
  then show "\<exists>r c'. shm_ht_delete d k = Some (r, c') \<and> cache_rep c' (filter (\<lambda>p. fst p \<noteq> k) ps) \<and> fixed c c'" using keep by blast
  show "\<exists>c'. ht_empty d = Some c' \<and> cache_rep c' [] \<and> fixed c c'"
    using rep_ht_clear [OF d] keep by (simp add: ht_empty_def)
qed

text \<open>Replacing the process, but not the platform.\<close>

lemma rep_process:
  assumes "cache_rep c ps" and "env_sys e = env_sys (sc_env c)"
  shows "cache_rep (c\<lparr>sc_pid := pid, sc_env := e\<rparr>) ps"
proof -
  obtain L where L: "full_inv c L" "align_ok (sc_fastcommon c)" "ps = entry_pairs c L" using assms(1) by (auto simp: cache_rep_def)
  let ?c = "c\<lparr>sc_pid := pid, sc_env := e\<rparr>"
  have "cache_inv c L" using L(1) by (simp add: full_inv_def)
  then have "cache_inv ?c L" by (rule cache_inv_same) simp_all
  moreover have "stable c ?c" by (simp add: stable_def assms(2))
  ultimately have "full_inv ?c L" using full_inv_stable [OF L(1)] by blast
  moreover have "entry_pairs ?c L = entry_pairs c L" by (rule entry_pairs_same) simp
  ultimately show ?thesis using L(2,3) by (auto simp: cache_rep_def)
qed

interpretation by_schedule: contention "others_by sched" "scheduled sched" for sched
proof
  fix c ps
  assume rep: "cache_rep c ps"
  obtain ops pid where s: "sched (env_history (sc_env c)) = (ops, pid)" by (metis surj_pair)
  obtain es c' ps' where run: "store_run ht_read shm_ht_set shm_ht_delete ht_empty ops c = Some (es, c')" "cache_rep c' ps'" "fixed c c'"
    "map event_op es = ops" "lossy ps es ps'" using table.run_lossy [of c ps c ops] rep by auto
  have eq: "others_by sched c = (set_lock_pid pid c')\<lparr>sc_pid := sc_pid c, sc_env := sc_env c\<rparr>" by (simp add: others_by_def s run(1))
  have "env_sys (sc_env c) = env_sys (sc_env (set_lock_pid pid c'))" using run(3) by (simp add: fixed_def set_lock_pid_def)
  then have "cache_rep (others_by sched c) ps'" unfolding eq by (rule rep_process [OF locking_rep [OF locking_pid run(2)]])
  moreover have "list_all (\<lambda>e. event_op e \<in> scheduled sched) es"
    using run(4) s unfolding list_all_iff scheduled_def by (auto intro!: exI [of _ "env_history (sc_env c)"])
  ultimately show "\<exists>es ps'. list_all (\<lambda>e. event_op e \<in> scheduled sched) es \<and> lossy ps es ps' \<and> cache_rep (others_by sched c) ps'"
    using run(5) by blast
  show "sc_env (others_by sched c) = sc_env c" by (simp add: eq)
qed

end
