(* ===== verification/IncrCorrect.thy ===== *)
theory IncrCorrect
  imports ApiCorrect
begin

text \<open>
  The counters stored as decimal strings: reading a number back that was printed before, the size of the
  printed form, and what an increment does to the represented entries.
\<close>

section \<open>Printing and reading numbers\<close>

lemma digit_char: "d < 10 \<Longrightarrow> isdigit (char_of (48 + d))" "d < 10 \<Longrightarrow> (of_char (char_of (48 + d) :: char) :: int) = int (48 + d)"
proof -
  assume d: "d < 10"
  have "of_char (char_of (48 + d) :: char) = (48 + d) mod 256" by simp
  then have n: "(of_char (char_of (48 + d) :: char) :: nat) = 48 + d" using d by simp
  then show "isdigit (char_of (48 + d))" using d by (simp add: isdigit_def)
  show "(of_char (char_of (48 + d) :: char) :: int) = int (48 + d)" using n by (metis of_nat_of_char)
qed

lemma dec_value_snoc: "dec_value (ds @ [ch]) = 10 * dec_value ds + (of_char ch - 48)"
  by (simp add: dec_value_def)

lemma show_nat_read: "list_all isdigit (show_nat n) \<and> show_nat n \<noteq> [] \<and> dec_value (show_nat n) = int n"
proof (induction n rule: show_nat.induct)
  case (1 n)
  show ?case
  proof (cases "n < 10")
    case True
    then show ?thesis using digit_char [of n] by (simp add: show_nat.simps dec_value_def)
  next
    case False
    have "10 * int (n div 10) + int (n mod 10) = int n" by (metis mult_div_mod_eq of_nat_add of_nat_mult of_nat_numeral)
    then show ?thesis
      using False 1 digit_char [of "n mod 10"] by (subst (1 2 3) show_nat.simps) (simp add: dec_value_snoc)
  qed
qed

lemma show_nat_length: "n < 10 ^ Suc k \<Longrightarrow> length (show_nat n) \<le> Suc k"
proof (induction k arbitrary: n)
  case (Suc k)
  then have "n div 10 < 10 ^ Suc k" by (simp add: less_mult_imp_div_less)
  then have "length (show_nat (n div 10)) \<le> Suc k" by (rule Suc.IH)
  then show ?case by (simp add: show_nat.simps [of n])
qed (simp add: show_nat.simps)

lemma digit_facts: "isdigit ch \<Longrightarrow> \<not> isspace ch \<and> ch \<noteq> CHR ''-'' \<and> ch \<noteq> CHR ''+'' \<and> ch \<noteq> CHR 0x00"
  by (auto simp: isdigit_def isspace_def)

lemma strtoll_digits:
  assumes "list_all isdigit ds" and "ds \<noteq> []"
  shows "strtoll ds = (max (- (2 ^ 63)) (min (2 ^ 63 - 1) (dec_value ds)), [])"
    and "strtoll (CHR ''-'' # ds) = (max (- (2 ^ 63)) (min (2 ^ 63 - 1) (- dec_value ds)), [])"
proof -
  obtain ch u where ds: "ds = ch # u" using assms(2) by (cases ds) auto
  have ch: "\<not> isspace ch" "ch \<noteq> CHR ''-''" "ch \<noteq> CHR ''+''" using assms(1) ds digit_facts by auto
  have all: "takeWhile isdigit ds = ds" "dropWhile isdigit ds = []" using assms(1) by (simp_all add: list_all_iff)
  have sp: "split_sign (dropWhile isspace ds) = (1, ds)" using ch by (simp add: ds split_sign_def)
  show "strtoll ds = (max (- (2 ^ 63)) (min (2 ^ 63 - 1) (dec_value ds)), [])"
    unfolding strtoll_def Let_def sp prod.case all using assms(2) by simp
  have sm: "split_sign (dropWhile isspace (CHR ''-'' # ds)) = (- 1, ds)" by (simp add: split_sign_def isspace_def)
  show "strtoll (CHR ''-'' # ds) = (max (- (2 ^ 63)) (min (2 ^ 63 - 1) (- dec_value ds)), [])"
    unfolding strtoll_def Let_def sm prod.case all using assms(2) by simp
qed

abbreviation is_int64 :: "int \<Rightarrow> bool" where
  "is_int64 i \<equiv> - (2 ^ 63) \<le> i \<and> i < 2 ^ 63"

lemma strtoll_show_int: "is_int64 i \<Longrightarrow> strtoll (show_int i) = (i, [])"
  using show_nat_read [of "nat (- i)"] show_nat_read [of "nat i"]
    strtoll_digits(2) [of "show_nat (nat (- i))"] strtoll_digits(1) [of "show_nat (nat i)"]
  by (auto simp: show_int_def)

lemma show_int_no_nul: "takeWhile (\<lambda>ch. ch \<noteq> CHR 0x00) (show_int i) = show_int i"
proof -
  have "takeWhile (\<lambda>ch. ch \<noteq> CHR 0x00) (show_nat n) = show_nat n" for n
    using show_nat_read [of n] digit_facts unfolding takeWhile_eq_all_conv list_all_iff by blast
  then show ?thesis by (simp add: show_int_def)
qed

lemma show_int_length: "is_int64 i \<Longrightarrow> length (show_int i) \<le> 20"
proof -
  assume i: "is_int64 i"
  have "- i < 10 ^ Suc 18" "i < 10 ^ Suc 18" using i by simp_all
  then have "nat (- i) < 10 ^ Suc 18" "nat i < 10 ^ Suc 18" by (simp_all add: nat_less_iff)
  then have "length (show_nat (nat (- i))) \<le> 19" "length (show_nat (nat i)) \<le> 19"
    using show_nat_length [of _ 18] by fastforce+
  then show ?thesis by (simp add: show_int_def)
qed

text \<open>What an increment stored is read back as the same number by the next one.\<close>

lemma incr_reads_back: "is_int64 i \<Longrightarrow> incr_old_value (show_int i) = (0, Some i)"
  using show_int_length [of i] strtoll_show_int [of i] by (simp add: incr_old_value_def show_int_no_nul)

lemma int64_range: "is_int64 (int64 i)"
  by (simp add: int64_def signed_take_bit_mod)

section \<open>Incrementing\<close>

lemma api_ht_get_valid:
  assumes "api_rep c ps"
  obtains r c' where "shm_ht_get c k = Some (r, map_of ps k, c')" "api_rep c' ps"
    "\<forall>v. map_of ps k = Some v \<longrightarrow> vi_expires v = 0 \<longrightarrow> r = 0"
proof -
  obtain L where L: "full_inv c L" "ps = entry_pairs c L" using assms by (auto simp: cache_rep_def api_rep_def)
  have inv: "cache_inv c L" using L(1) by (simp add: full_inv_def)
  obtain r c' where g: "shm_ht_get c k = Some (r, map_of ps k, c')" "api_rep c' ps" using assms by (rule api_ht_get)
  have "r = 0" if "map_of ps k = Some v" "vi_expires v = 0" for v
    using ht_get_map [OF inv, of k] g(1) that L(2) by (simp add: cache_map_def)
  then show thesis using that g by blast
qed

lemma api_calc_expires:
  assumes "api_rep c ps"
  obtains t c' where "calc_expires_now c ttl = (t, c')" "api_rep c' ps"
proof -
  obtain t c' where "calc_expires_now c ttl = (t, c')" by (metis surj_pair)
  moreover have "api_rep (snd (calc_expires_now c ttl)) ps"
    using assms locking_api [OF locking_sys assms, of Sys_get_current_time]
    by (simp add: calc_expires_now_def case_prod_unfold Let_def)
  ultimately show thesis using that by simp
qed

lemma api_unlock_stats: "api_rep c ps \<Longrightarrow> api_rep (snd (shm_unlock (lock_stats f c))) ps"
  using locking_api [OF locking_trans [OF locking_stats locking_unlock]] .

text \<open>The number that an increment starts from, when the stored value is valid.\<close>

definition incr_start :: "shmcache_value_info option \<Rightarrow> int \<times> int option" where
  "incr_start value = (case value of None \<Rightarrow> (0, None) | Some v \<Rightarrow> incr_old_value (vi_data v))"

lemma incr_locked:
  assumes "api_rep c ps" and "\<forall>v. map_of ps k = Some v \<longrightarrow> vi_expires v = 0" and "incr_start (map_of ps k) = (err, start)"
    and "n = (case start of Some m \<Rightarrow> int64 (m + increment) | None \<Rightarrow> increment)"
  shows "\<exists>r c' ps'. incr_locked c k increment ttl = Some (if err \<noteq> 0 then err else r, if err \<noteq> 0 then start else Some n, c')
    \<and> api_rep c' ps' \<and> (if err \<noteq> 0 then ps' = ps
       else if r = 0 then \<exists>t qs. subseq qs (filter (\<lambda>p. fst p \<noteq> k) ps)
              \<and> ps' = qs @ [(k, \<lparr>vi_data = show_int n, vi_options = SHMCACHE_SERIALIZER_INTEGER, vi_expires = t\<rparr>)]
       else subseq ps' ps)"
proof -
  obtain r1 c1 where 1: "shm_ht_get c k = Some (r1, map_of ps k, c1)" "api_rep c1 ps"
    "\<forall>v. map_of ps k = Some v \<longrightarrow> vi_expires v = 0 \<longrightarrow> r1 = 0" using assms(1) by (rule api_ht_get_valid)
  have start: "(case map_of ps k of Some v \<Rightarrow> if r1 = 0 then incr_old_value (vi_data v) else (0, None) | None \<Rightarrow> (0, None)) = (err, start)"
    using assms(2,3) 1(3) by (cases "map_of ps k") (simp_all add: incr_start_def)
  obtain t c2 where 2: "calc_expires_now c1 ttl = (t, c2)" "api_rep c2 ps" using 1(2) by (rule api_calc_expires)
  define v where "v = \<lparr>vi_data = show_int n, vi_options = SHMCACHE_SERIALIZER_INTEGER, vi_expires = t\<rparr>"
  obtain r c3 ps' where 3: "shm_ht_set c2 k v = Some (r, c3)" "api_rep c3 ps'"
    "if r = 0 then \<exists>qs. subseq qs (filter (\<lambda>p. fst p \<noteq> k) ps) \<and> ps' = qs @ [(k, v)] else subseq ps' ps"
    using 2(2) by (rule api_ht_set)
  have run: "incr_locked c k increment ttl = (if err \<noteq> 0 then Some (err, start, c1) else Some (r, Some n, c3))"
    unfolding incr_locked_def 1(1) using 2(1) 3(1) assms(4) by (simp add: start) (simp add: v_def)
  show ?thesis
  proof (cases "err = 0")
    case True
    then show ?thesis using run 3(2,3) by (intro exI [of _ r] exI [of _ c3] exI [of _ ps']) (auto simp: v_def)
  next
    case False
    then show ?thesis using run 1(2) by simp
  qed
qed

lemma api_incr:
  assumes "api_rep c ps" and "\<forall>v. map_of ps k = Some v \<longrightarrow> vi_expires v = 0" and "incr_start (map_of ps k) = (err, start)"
    and "n = (case start of Some m \<Rightarrow> int64 (m + increment) | None \<Rightarrow> increment)"
  shows "\<exists>r c' ps'. shmcache_incr others c k increment ttl = Some (if err \<noteq> 0 then err else r, if err \<noteq> 0 then start else Some n, c')
    \<and> api_rep c' ps' \<and> (if err \<noteq> 0 then ps' = ps
       else if r = 0 then \<exists>t qs. subseq qs (filter (\<lambda>p. fst p \<noteq> k) ps)
              \<and> ps' = qs @ [(k, \<lparr>vi_data = show_int n, vi_options = SHMCACHE_SERIALIZER_INTEGER, vi_expires = t\<rparr>)]
       else subseq ps' ps)"
proof -
  obtain c1 where 1: "shm_lock others c = Some (0, c1)" "api_rep c1 ps" using assms(1) by (rule api_lock)
  obtain r c2 ps' where 2: "incr_locked c1 k increment ttl = Some (if err \<noteq> 0 then err else r, if err \<noteq> 0 then start else Some n, c2)"
    "api_rep c2 ps'" "if err \<noteq> 0 then ps' = ps
       else if r = 0 then \<exists>t qs. subseq qs (filter (\<lambda>p. fst p \<noteq> k) ps)
              \<and> ps' = qs @ [(k, \<lparr>vi_data = show_int n, vi_options = SHMCACHE_SERIALIZER_INTEGER, vi_expires = t\<rparr>)]
       else subseq ps' ps"
    using incr_locked [OF 1(2) assms(2-4), of ttl] by blast
  have "shmcache_incr others c k increment ttl = Some (if err \<noteq> 0 then err else r, if err \<noteq> 0 then start else Some n,
      snd (shm_unlock (lock_stats (st_incr_update (count_result (if err \<noteq> 0 then err else r) \<circ> count_total)) c2)))"
    unfolding shmcache_incr_def 1(1) using 2(1) by simp
  then show ?thesis using api_unlock_stats [OF 2(2)] 2(3) by blast
qed

end
