(* ===== verification/AttachCorrect.thy ===== *)
theory AttachCorrect
  imports InitCorrect
begin

text \<open>
  A further process: it attaches to the shared memory that another process uses, opens the value
  segments that exist, and then sees the same cache.
\<close>

section \<open>Opening the segments\<close>

definition opened :: "shmcache_context \<Rightarrow> shmcache_context \<Rightarrow> bool" where
  "opened c c' \<longleftrightarrow> (\<exists>items cnt h. c' = c\<lparr>sc_values_count := cnt, sc_values_items := items, sc_env := (sc_env c)\<lparr>env_history := h\<rparr>\<rparr>
     \<and> length items = length (sc_values_items c))"

lemma openedI:
  "c' = c\<lparr>sc_values_count := cnt, sc_values_items := items, sc_env := (sc_env c)\<lparr>env_history := h\<rparr>\<rparr> \<Longrightarrow>
   length items = length (sc_values_items c) \<Longrightarrow> opened c c'"
  unfolding opened_def by blast

lemma openedE:
  assumes "opened c c'"
  obtains items cnt h where "c' = c\<lparr>sc_values_count := cnt, sc_values_items := items, sc_env := (sc_env c)\<lparr>env_history := h\<rparr>\<rparr>"
    "length items = length (sc_values_items c)"
  using assms unfolding opened_def by blast

lemma opened_trans:
  assumes "opened c c1" and "opened c1 c2"
  shows "opened c c2"
proof -
  obtain items cnt h where 1: "c1 = c\<lparr>sc_values_count := cnt, sc_values_items := items, sc_env := (sc_env c)\<lparr>env_history := h\<rparr>\<rparr>"
    "length items = length (sc_values_items c)" using assms(1) by (rule openedE)
  obtain items' cnt' h' where 2: "c2 = c1\<lparr>sc_values_count := cnt', sc_values_items := items', sc_env := (sc_env c1)\<lparr>env_history := h'\<rparr>\<rparr>"
    "length items' = length (sc_values_items c1)" using assms(2) by (rule openedE)
  show ?thesis by (rule openedI [where cnt = cnt' and items = items' and h = h']) (simp_all add: 1 2)
qed

lemma init_value_segment_opened:
  assumes "maps_ok (sc_env c)" and "shmopt_init_value_segment c i = (r, c')"
  obtains s where "opened c c'" "sc_values_count c' = sc_values_count c" "sc_values_items c' = (sc_values_items c)[nat i := s]"
    "r = 0 \<longrightarrow> mapped (seg_base s)"
proof -
  obtain r1 s h where s: "shmopt_init_segment c (sc_values_items c ! nat i) (i + 2) (vs_size (mi_segment (sc_memory c)))
      = ((r1, s), c\<lparr>sc_env := (sc_env c)\<lparr>env_history := h\<rparr>\<rparr>)" "r1 = 0 \<longrightarrow> mapped (seg_base s)"
    using init_segment [OF assms(1), of "sc_values_items c ! nat i" "i + 2" "vs_size (mi_segment (sc_memory c))"] by blast
  have c': "r = r1" "c' = c\<lparr>sc_env := (sc_env c)\<lparr>env_history := h\<rparr>, sc_values_items := (sc_values_items c)[nat i := s]\<rparr>"
    using assms(2) s(1) by (auto simp: shmopt_init_value_segment_def)
  have "opened c c'"
    by (rule openedI [where cnt = "sc_values_count c" and items = "(sc_values_items c)[nat i := s]" and h = h])
      (auto simp: c' intro!: shmcache_context.equality)
  then show thesis using that s(2) c' by simp
qed

lemma open_segments_loop:
  assumes "maps_ok (sc_env c)" and "segments_open c" and "nat (sc_values_count c) + n \<le> length (sc_values_items c)"
    and "open_segments_loop n (sc_values_count c) c = (r, c')"
  shows "opened c c' \<and> segments_open c' \<and> (r = 0 \<longrightarrow> sc_values_count c' = sc_values_count c + int n)"
  using assms
proof (induction n arbitrary: c)
  case 0
  have "opened c c" by (rule openedI [where cnt = "sc_values_count c" and items = "sc_values_items c" and h = "env_history (sc_env c)"]) simp_all
  then show ?case using 0 by simp
next
  case (Suc n)
  let ?i = "sc_values_count c"
  obtain r1 c1 where 1: "shmopt_init_value_segment c ?i = (r1, c1)" by (metis surj_pair)
  obtain s where s: "opened c c1" "sc_values_count c1 = ?i" "sc_values_items c1 = (sc_values_items c)[nat ?i := s]"
    "r1 = 0 \<longrightarrow> mapped (seg_base s)" by (rule init_value_segment_opened [OF Suc.prems(1) 1])
  have i: "0 \<le> ?i" using Suc.prems(2) by (simp add: segments_open_def)
  have take: "take (nat ?i) (sc_values_items c1) = take (nat ?i) (sc_values_items c)" by (simp add: s(3))
  have open1: "segments_open c1" using Suc.prems(2) s(2,3) take by (simp add: segments_open_def)
  show ?case
  proof (cases "r1 = 0")
    case False
    then show ?thesis using Suc.prems(4) 1 s(1) open1 by simp
  next
    case True
    define c2 where "c2 = c1\<lparr>sc_values_count := sc_values_count c1 + 1\<rparr>"
    have o2: "opened c c2"
    proof (rule opened_trans [OF s(1)], rule openedI)
      show "c2 = c1\<lparr>sc_values_count := ?i + 1, sc_values_items := sc_values_items c1, sc_env := (sc_env c1)\<lparr>env_history := env_history (sc_env c1)\<rparr>\<rparr>"
        by (simp add: c2_def s(2))
    qed simp
    have "nat (?i + 1) = Suc (nat ?i)" using i by simp
    moreover have "nat ?i < length (sc_values_items c)" using Suc.prems(3) by simp
    ultimately have "segments_open c2"
      using open1 i s(2,3,4) True by (auto simp: segments_open_def c2_def take_Suc_conv_app_nth)
    moreover have "maps_ok (sc_env c2)" using o2 Suc.prems(1) by (auto elim!: openedE simp: maps_ok_def)
    moreover have "nat (sc_values_count c2) + n \<le> length (sc_values_items c2)"
      using Suc.prems(3) i s(2,3) by (simp add: c2_def)
    moreover have "open_segments_loop n (sc_values_count c2) c2 = (r, c')"
      using Suc.prems(4) 1 True s(2) by (simp add: c2_def)
    ultimately have "opened c2 c' \<and> segments_open c' \<and> (r = 0 \<longrightarrow> sc_values_count c' = sc_values_count c2 + int n)"
      using Suc.IH by blast
    then show ?thesis using opened_trans [OF o2] s(2) by (simp add: c2_def)
  qed
qed

section \<open>The same cache in another process\<close>

text \<open>What a process finds in the memory that another one works on.\<close>

definition image_of :: "shmcache_context \<Rightarrow> shm_image" where
  "image_of c = \<lparr>im_memory = sc_memory c, im_doing = sc_doing c, im_done = sc_done c, im_allocators = sc_allocators c,
     im_entries = sc_entries c\<rparr>"

definition shares :: "shmcache_context \<Rightarrow> shmcache_context \<Rightarrow> bool" where
  "shares c p \<longleftrightarrow> sc_memory p = sc_memory c \<and> sc_doing p = shm_object_pool_set (sc_doing c)
     \<and> sc_done p = shm_object_pool_set (sc_done c) \<and> sc_allocators p = sc_allocators c \<and> sc_entries p = sc_entries c
     \<and> sc_allocators_offset p = sc_allocators_offset c \<and> sc_list_head_offset p = head_offset \<and> sc_config p = sc_config c
     \<and> length (sc_values_items p) = nat (vs_max (mi_segment (sc_memory c)))"

lemma pool_set_kept [simp]:
  "pool_wf (shm_object_pool_set op) = pool_wf op" "pool_list (shm_object_pool_set op) = pool_list op"
  "op_capacity (shm_object_pool_set op) = op_capacity op"
  by (simp_all add: shm_object_pool_set_def pool_wf_def pool_list_def pool_slot_def shm_object_pool_get_count_def)

lemma shares_inv:
  assumes "full_inv c L" and "shares c p" and "segments_open p" and "sc_values_count p = vs_current (mi_segment (sc_memory p))"
    and "maps_ok (sc_env p)"
  shows "full_inv p L" and "entry_pairs p L = entry_pairs c L"
proof -
  note sh = assms(2) [unfolded shares_def]
  have inv: "core_inv c L []" "ht_ok c L" "limits_ok c" using assms(1) by (simp_all add: full_inv_def cache_inv_def)
  note core = core_invD [OF inv(1)]
  have cnt: "sc_values_count p = sc_values_count c" using assms(4) sh inv(3) by (simp add: limits_ok_def)
  have "allocs_ok p" by (rule allocs_ok_same [OF core(3)]) (simp_all add: sh cnt)
  moreover have "pools_ok p"
  proof -
    obtain D E where "pools_rep c D E" using core(4) by (auto simp: pools_ok_def)
    then have "pools_rep p D E" using allocator_offset_cong [of p c] by (simp add: pools_rep_def sh)
    then show ?thesis by (auto simp: pools_ok_def)
  qed
  moreover have "blocks_ok p (L @ [])" by (rule blocks_ok_same [OF core(5)]) (simp_all add: sh cnt)
  moreover have live: "loc_live p l = loc_live c l" for l by (simp add: loc_live_def sh cnt)
  have "dlist p L" by (rule dlist_cong [OF core(7)]) (use core(7) in \<open>simp_all add: sh live node.simps dlist_live\<close>)
  moreover have "count_ok p L []" using core(8) by (simp add: count_ok_def sh)
  moreover have "list_all (\<lambda>l. payload_ok (entry p l)) L" using core(9) by (simp add: sh)
  ultimately have "core_inv p L []" using assms(3) core(6) by (simp add: core_inv_def ctx_ok_def sh)
  moreover have "ht_ok p L" by (rule ht_ok_same [OF inv(2)]) (simp_all add: sh)
  moreover have "limits_ok p" using inv(3) cnt by (simp add: limits_ok_def sh)
  ultimately show "full_inv p L" using assms(5) by (simp add: full_inv_def cache_inv_def)
  show "entry_pairs p L = entry_pairs c L" by (rule entry_pairs_same) (simp add: sh)
qed

lemma shares_opened: "shares c p \<Longrightarrow> opened p p' \<Longrightarrow> shares c p'"
  by (erule openedE) (simp add: shares_def)

lemma init_value_segments_attach:
  assumes "full_inv c L" and "shares c p" and "sc_values_count p = 0" and "maps_ok (sc_env p)" and "trylock_ok (sc_env p)"
  obtains r p' where "init_value_segments others m p = Some (r, p')"
    "r = 0 \<longrightarrow> full_inv p' L \<and> entry_pairs p' L = entry_pairs c L"
proof -
  have lim: "limits_ok c" using assms(1) by (simp add: full_inv_def)
  obtain r1 p1 where 1: "shmopt_open_value_segments p = (r1, p1)" by (metis surj_pair)
  let ?n = "nat (vs_current (mi_segment (sc_memory p)))"
  have loop: "open_segments_loop ?n (sc_values_count p) p = (r1, p1)"
    using 1 assms(3) by (simp add: shmopt_open_value_segments_def)
  have "segments_open p" using assms(3) by (simp add: segments_open_def)
  moreover have "nat (sc_values_count p) + ?n \<le> length (sc_values_items p)"
    using lim assms(2,3) by (simp add: limits_ok_def shares_def nat_mono)
  ultimately have o: "opened p p1" "segments_open p1" "r1 = 0 \<longrightarrow> sc_values_count p1 = int ?n"
    using open_segments_loop [OF assms(4) _ _ loop] assms(3) by simp_all
  have env: "env_sys (sc_env p1) = env_sys (sc_env p)" "sc_memory p1 = sc_memory p" using o(1) by (auto elim!: openedE)
  show thesis
  proof (cases "r1 = 0")
    case False
    then show thesis using that [of r1 p1] 1 by (simp add: init_value_segments_def)
  next
    case True
    have "0 \<le> vs_current (mi_segment (sc_memory p))" using lim assms(2) by (simp add: limits_ok_def shares_def)
    then have cnt: "sc_values_count p1 = vs_current (mi_segment (sc_memory p1))" using o(3) True env(2) by simp
    have maps: "maps_ok (sc_env p1)" using assms(4) env(1) by (simp add: maps_ok_def)
    note inv1 = shares_inv [OF assms(1) shares_opened [OF assms(2) o(1)] o(2) cnt maps]
    have try1: "trylock_ok (sc_env p1)" using assms(5) env(1) by (simp add: trylock_ok_def)
    have "shmopt_open_value_segments p1 = (0, p1)" using cnt by (simp add: shmopt_open_value_segments_def)
    then have eq: "init_value_segments others m p = init_value_segments others m p1"
      using 1 True by (simp add: init_value_segments_def)
    obtain r p' where "init_value_segments others m p1 = Some (r, p')" "full_inv p' L" "entry_pairs p' L = entry_pairs p1 L"
      using init_value_segments_inv [OF inv1(1) try1, of others m] by metis
    then show thesis using that [of r p'] eq inv1(2) by simp
  qed
qed

text \<open>
  The second process of a cache whose layout was computed from the same configuration: its header offset of the
  allocators agrees with the one of the first.
\<close>

lemma attach_inv:
  assumes "full_inv c0 L" and "initialised c0" and "sc_config c0 = config" and "maps_ok (sc_env c)" and "trylock_ok (sc_env c)"
    and "shmcache_get_ht_segment_size (init_context c config True) = ((sz, segment, striping, capacity, offs), c1)"
    and "\<exists>h. c1 = (init_context c config True)\<lparr>sc_env := (sc_env (init_context c config True))\<lparr>env_history := h\<rparr>\<rparr>"
    and "off_va_pool_object offs = sc_allocators_offset c0" and "vs_max segment = vs_max (mi_segment (sc_memory c0))"
  obtains r c' where "shmcache_init others (image_of c0) c config True check_segment = Some (r, c')"
    "r = 0 \<longrightarrow> full_inv c' L \<and> entry_pairs c' L = entry_pairs c0 L"
proof (rule shmcache_init_cases [OF assms(4,6,7), of others "image_of c0" check_segment])
  fix s h
  let ?c0 = "init_context c config True"
  let ?p = "process_attached ?c0 (image_of c0) segment offs s h"
  assume run: "shmcache_init others (image_of c0) c config True check_segment
    = init_attached others True capacity segment striping offs ?p"
  have p: "sc_memory ?p = sc_memory c0" "sc_values_count ?p = 0" "env_sys (sc_env ?p) = env_sys (sc_env c)" "shares c0 ?p"
    using assms(3,8,9) init_context_fields [of c config True]
    by (simp_all add: process_attached_def shmcache_set_obj_allocators_def shm_list_set_def attach_image_def image_of_def shares_def
        head_offset_def)
  have "maps_ok (sc_env ?p)" "trylock_ok (sc_env ?p)" using assms(4,5) p(3) by (simp_all add: maps_ok_def trylock_ok_def)
  then obtain r p' where r: "init_value_segments others (cfg_min_memory (sc_config ?p)) ?p = Some (r, p')"
    "r = 0 \<longrightarrow> full_inv p' L \<and> entry_pairs p' L = entry_pairs c0 L"
    using init_value_segments_attach [OF assms(1) p(4,2), of others "cfg_min_memory (sc_config ?p)"] by blast
  have "init_attached others True capacity segment striping offs ?p = Some (r, set_deadlock_clocks p')"
    using assms(2) p(1) r(1) by (simp add: init_attached_def initialised_def)
  then show thesis using that [of r "set_deadlock_clocks p'"] run r(2) set_deadlock_clocks_inv [of p' L] by simp
qed (use that in auto)

end
