(* ===== verification/ConfigCorrect.thy ===== *)
theory ConfigCorrect
  imports InitCorrect
begin

text \<open>What a configuration file that the library accepts guarantees to the initialisation.\<close>

section \<open>Configuration\<close>

lemma parse_bytes_pos: "shmcache_parse_bytes ini name = (0, n) \<Longrightarrow> 0 < n"
  by (auto simp: shmcache_parse_bytes_def split: option.splits if_splits prod.splits)

lemma load_config_memory_bounds:
  assumes "load_config_memory ini fc config0 = (0, config)"
  obtains m n where "0 < m" "0 < n" "cfg_max_memory config = m" "cfg_type config \<in> {SHMCACHE_TYPE_SHM, SHMCACHE_TYPE_MMAP}"
    "cfg_segment_size config = (if cdiv m n > 255 then cdiv m 255 else n)"
    "length (cfg_filename config) \<le> fc_max_path_size fc - 1"
proof -
  obtain r ty where ty: "(case ini_str ini ''type'' of
            None \<Rightarrow> (0, SHMCACHE_TYPE_MMAP)
          | Some t \<Rightarrow> if strcasecmp_eq t ''shm'' then (0, SHMCACHE_TYPE_SHM)
                      else if strcasecmp_eq t ''mmap'' then (0, SHMCACHE_TYPE_MMAP)
                      else (EINVAL, cfg_type config0)) = (r, ty)" by (rule prod.exhaust)
  obtain rm m where m: "shmcache_parse_bytes ini ''max_memory'' = (rm, m)" by (rule prod.exhaust)
  obtain rn n where n: "shmcache_parse_bytes ini ''segment_size'' = (rn, n)" by (rule prod.exhaust)
  obtain rk mn where k: "shmcache_parse_bytes_with_default ini ''min_memory'' 0 = (rk, mn)" by (rule prod.exhaust)
  note run = assms [unfolded load_config_memory_def ty Let_def prod.case m n k]
  have r: "r = 0" using run by (simp split: if_splits)
  then have type: "ty \<in> {SHMCACHE_TYPE_SHM, SHMCACHE_TYPE_MMAP}" using ty by (auto split: option.splits if_splits)
  obtain f where f: "ini_str ini ''filename'' = Some f" "f \<noteq> []"
    using run r by (cases "ini_str ini ''filename''") (simp_all split: if_splits)
  have ok: "rm = 0" "rn = 0" using run r f by (simp_all split: if_splits)
  have config: "config = config0\<lparr>cfg_type := ty, cfg_filename := take (fc_max_path_size fc - 1) f, cfg_max_memory := m,
      cfg_min_memory := mn, cfg_segment_size := (if cdiv m n > 255 then cdiv m 255 else n)\<rparr>"
    using run r f ok by (simp split: if_splits)
  have pos: "0 < m" "0 < n" using parse_bytes_pos m n ok by blast+
  show thesis by (rule that [OF pos]) (use config type in \<open>simp_all add: min_def\<close>)
qed

text \<open>The other two groups fill in their own items.\<close>

lemma load_config_keys_kept:
  assumes "load_config_keys ini config0 = (0, config)"
  shows "cfg_max_memory config = cfg_max_memory config0 \<and> cfg_segment_size config = cfg_segment_size config0
    \<and> cfg_type config = cfg_type config0 \<and> cfg_filename config = cfg_filename config0 \<and> 0 < cfg_max_key_count config"
  using assms by (auto simp: load_config_keys_def Let_def split: if_splits prod.splits option.splits)

lemma load_config_policy_kept:
  assumes "load_config_policy ini config0 = (0, config)"
  shows "cfg_max_memory config = cfg_max_memory config0 \<and> cfg_segment_size config = cfg_segment_size config0
    \<and> cfg_type config = cfg_type config0 \<and> cfg_filename config = cfg_filename config0
    \<and> cfg_max_key_count config = cfg_max_key_count config0 \<and> 0 < cfg_trylock_interval_us config
    \<and> 0 < cfg_detect_deadlock_interval_ms config \<and> cfg_recycle_key_once config \<noteq> 0"
  using assms by (auto simp: load_config_policy_def Let_def split: if_splits prod.splits option.splits)

text \<open>
  C23: a configuration that is accepted has the bounds that the initialisation relies on: positive sizes and counts, a file name
  that fits its buffer, and a segment size that after the alignment to pages gives at most 255 segments, so that a segment
  index fits into its byte.
\<close>

theorem load_config_bounds:
  assumes "shmcache_load_config ini fc config0 config_filename = (0, config)" and "8 \<le> k"
  shows "0 < cfg_max_memory config \<and> 0 < cfg_segment_size config
    \<and> cfg_max_memory config div SHMCACE_MEM_ALIGN (cfg_segment_size config) (2 ^ k) \<le> 255
    \<and> 0 < cfg_max_key_count config \<and> 0 < cfg_trylock_interval_us config \<and> 0 < cfg_detect_deadlock_interval_ms config
    \<and> cfg_recycle_key_once config \<noteq> 0 \<and> cfg_type config \<in> {SHMCACHE_TYPE_SHM, SHMCACHE_TYPE_MMAP}
    \<and> length (cfg_filename config) \<le> fc_max_path_size fc - 1"
proof -
  obtain config1 where 1: "load_config_memory ini fc config0 = (0, config1)"
    using assms(1) by (auto simp: shmcache_load_config_def split: if_splits prod.splits)
  obtain config2 where 2: "load_config_keys ini config1 = (0, config2)"
    using assms(1) 1 by (auto simp: shmcache_load_config_def split: if_splits prod.splits)
  have 3: "load_config_policy ini config2 = (0, config)"
    using assms(1) 1 2 by (auto simp: shmcache_load_config_def split: if_splits prod.splits)
  obtain m n where mem: "0 < m" "0 < n" "cfg_max_memory config1 = m" "cfg_type config1 \<in> {SHMCACHE_TYPE_SHM, SHMCACHE_TYPE_MMAP}"
    "cfg_segment_size config1 = (if cdiv m n > 255 then cdiv m 255 else n)"
    "length (cfg_filename config1) \<le> fc_max_path_size fc - 1" using 1 by (rule load_config_memory_bounds)
  note keys = load_config_keys_kept [OF 2] and policy = load_config_policy_kept [OF 3]
  note seg = segment_limit [OF mem(1,2) assms(2) mem(5)]
  show ?thesis using mem seg keys policy by simp
qed

end
