(* ===== verification/DestroyCorrect.thy ===== *)
theory DestroyCorrect
  imports InitCorrect
begin

text \<open>Leaving a cache: every mapping of the process is released once, in order, and forgotten.\<close>

definition unmap_request :: "int \<Rightarrow> shmcache_segment_info \<Rightarrow> sysreq" where
  "unmap_request type s = (if type = SHMCACHE_TYPE_MMAP then Sys_munmap (seg_base s) (seg_size s) else Sys_shmdt (seg_base s))"

definition unmap_requests :: "int \<Rightarrow> shmcache_segment_info list \<Rightarrow> sysreq list" where
  "unmap_requests type ss = map (unmap_request type) (filter (\<lambda>s. seg_base s \<noteq> 0) ss)"

lemma shm_munmap_history: "snd (shm_munmap type (seg_base s) (seg_size s) e) = e\<lparr>env_history := env_history e @ [unmap_request type s]\<rparr>"
  by (simp add: shm_munmap_def unmap_request_def syscall_def case_prod_unfold Let_def)

text \<open>The context after the first \<open>n\<close> segments were released.\<close>

definition released :: "nat \<Rightarrow> shmcache_context \<Rightarrow> shmcache_context" where
  "released n c = c\<lparr>sc_values_items := map (seg_base_update (\<lambda>_. 0)) (take n (sc_values_items c)) @ drop n (sc_values_items c),
     sc_env := (sc_env c)\<lparr>env_history := env_history (sc_env c) @ unmap_requests (cfg_type (sc_config c)) (take n (sc_values_items c))\<rparr>\<rparr>"

lemma destroy_loop_step:
  assumes "i < length (sc_values_items c)"
  shows "destroy_loop (Suc n) i (released i c) = destroy_loop n (Suc i) (released (Suc i) c)"
proof -
  let ?s = "sc_values_items c ! i" and ?clear = "seg_base_update (\<lambda>_. 0) :: shmcache_segment_info \<Rightarrow> shmcache_segment_info"
  have len: "length (map ?clear (take i (sc_values_items c))) = i" using assms by simp
  have s: "sc_values_items (released i c) ! i = ?s" using assms len by (simp add: released_def nth_append)
  have drop: "drop i (sc_values_items c) = ?s # drop (Suc i) (sc_values_items c)" using assms by (simp add: Cons_nth_drop_Suc)
  have items: "(sc_values_items (released i c))[i := ?clear ?s] = sc_values_items (released (Suc i) c)"
    using len assms by (simp add: released_def drop take_Suc_conv_app_nth list_update_append)
  have take: "take (Suc i) (sc_values_items c) = take i (sc_values_items c) @ [?s]" using assms by (simp add: take_Suc_conv_app_nth)
  show ?thesis
  proof (cases "seg_base ?s = 0")
    case True
    then have "?clear ?s = ?s" by simp
    then have "released (Suc i) c = released i c"
      using True drop take by (simp add: released_def unmap_requests_def)
    then show ?thesis using True s by simp
  next
    case False
    let ?t = "cfg_type (sc_config (released i c))"
    have env: "snd (shm_munmap ?t (seg_base ?s) (seg_size ?s) (sc_env (released i c))) = sc_env (released (Suc i) c)"
      unfolding shm_munmap_history using False take by (simp add: released_def unmap_requests_def)
    have "(released i c)\<lparr>sc_env := sc_env (released (Suc i) c), sc_values_items := sc_values_items (released (Suc i) c)\<rparr> = released (Suc i) c"
      by (rule shmcache_context.equality) (simp_all add: released_def)
    then show ?thesis using False s env items by (simp add: case_prod_unfold Let_def)
  qed
qed

lemma destroy_loop_released: "i + n \<le> length (sc_values_items c) \<Longrightarrow> destroy_loop n i (released i c) = released (i + n) c"
proof (induction n arbitrary: i)
  case (Suc n)
  then have "i < length (sc_values_items c)" by simp
  then show ?case using destroy_loop_step [of i c n] Suc.IH [of "Suc i"] Suc.prems by simp
qed simp

lemma destroy_unmaps:
  assumes "0 \<le> sc_values_count c" and "nat (sc_values_count c) \<le> length (sc_values_items c)"
  shows "env_history (sc_env (shmcache_destroy c)) = env_history (sc_env c)
      @ unmap_requests (cfg_type (sc_config c)) (take (nat (sc_values_count c)) (sc_values_items c) @ [sc_ht_segment c])"
    and "list_all (\<lambda>s. seg_base s = 0) (take (nat (sc_values_count c)) (sc_values_items (shmcache_destroy c)))"
    and "seg_base (sc_ht_segment (shmcache_destroy c)) = 0" and "sc_memory (shmcache_destroy c) = sc_memory c"
proof -
  let ?n = "nat (sc_values_count c)" and ?r = "released (nat (sc_values_count c)) c"
  have "released 0 c = c" by (simp add: released_def unmap_requests_def)
  then have loop: "destroy_loop ?n 0 c = ?r" using destroy_loop_released [of 0 ?n c] assms(2) by simp
  have ht: "sc_ht_segment ?r = sc_ht_segment c" "cfg_type (sc_config ?r) = cfg_type (sc_config c)"
    "sc_memory ?r = sc_memory c" by (simp_all add: released_def)
  have run: "shmcache_destroy c = (if seg_base (sc_ht_segment c) \<noteq> 0 then ?r\<lparr>sc_env := (sc_env ?r)\<lparr>env_history := env_history (sc_env ?r)
      @ [unmap_request (cfg_type (sc_config c)) (sc_ht_segment c)]\<rparr>, sc_ht_segment := (sc_ht_segment c)\<lparr>seg_base := 0\<rparr>\<rparr> else ?r)"
    using shm_munmap_history [of "cfg_type (sc_config c)" "sc_ht_segment c" "sc_env ?r"]
    by (simp add: shmcache_destroy_def loop ht case_prod_unfold Let_def)
  show "env_history (sc_env (shmcache_destroy c)) = env_history (sc_env c)
      @ unmap_requests (cfg_type (sc_config c)) (take ?n (sc_values_items c) @ [sc_ht_segment c])"
    unfolding run by (simp add: released_def unmap_requests_def)
  have "take ?n (sc_values_items (shmcache_destroy c)) = map (seg_base_update (\<lambda>_. 0)) (take ?n (sc_values_items c))"
    unfolding run using assms(2) by (simp add: released_def)
  then show "list_all (\<lambda>s. seg_base s = 0) (take ?n (sc_values_items (shmcache_destroy c)))" by (simp add: list_all_iff)
  show "seg_base (sc_ht_segment (shmcache_destroy c)) = 0" "sc_memory (shmcache_destroy c) = sc_memory c"
    unfolding run by (simp_all add: ht)
qed

end
