(* ===== verification/ApiProps.thy ===== *)
theory ApiProps
  imports Sample Contention IncrCorrect AttachCorrect ConfigCorrect DestroyCorrect
begin

text \<open>
  The properties of the operations that applications call, of the lock and of the initialisation, on top of the
  contracts of the components.
\<close>

section \<open>Traces\<close>

text \<open>
  Every sequence of operations on the hash table runs to its end, and every read in it returns nothing or the
  value that the last successful set of the key stored since the last deletion or clearing.
\<close>

theorem ht_trace_sound:
  assumes "full_inv c L" and "align_ok (sc_fastcommon c)"
  shows "\<exists>es c'. store_run ht_read shm_ht_set shm_ht_delete ht_empty ops c = Some (es, c') \<and> map event_op es = ops
    \<and> trace_sound (cache_map c L) es"
proof -
  have "cache_rep c (entry_pairs c L)" using assms by (auto simp: cache_rep_def)
  then show ?thesis using ht.run_sound [of c "entry_pairs c L" "cache_map c L" ops] by (auto simp: cache_map_def)
qed

theorem ht_trace_sound_witness:
  "\<exists>es c'. store_run ht_read shm_ht_set shm_ht_delete ht_empty [Op_Set ''ab'' (sample_value ''hi''), Op_Get ''ab''] sample_cache
      = Some (es, c') \<and> map event_op es = [Op_Set ''ab'' (sample_value ''hi''), Op_Get ''ab'']
    \<and> trace_sound (cache_map sample_cache []) es"
  by (rule ht_trace_sound [OF sample_cache_inv]) (simp add: sample_fixed sample_align)










section \<open>The public operations\<close>

lemma map_of_stored:
  assumes "subseq qs (filter (\<lambda>p. fst p \<noteq> key) ps)"
  shows "map_of (qs @ [(key, v)]) key = Some v"
proof -
  have "key \<notin> fst ` set qs" using subseq_set_subset [OF assms] by auto
  then show ?thesis by (simp add: map_add_def map_of_eq_None_iff split: option.split) (metis option.distinct(1) map_of_eq_None_iff)
qed

lemma set_ex_rejected:
  assumes "api_rep c ps"
    and "int (length key) > SHMCACHE_MAX_KEY_SIZE \<or> int (length (vi_data value)) > cfg_max_value_size (sc_config c)"
  shows "\<exists>c'. shmcache_set_ex others c key value
      = Some (if int (length key) > SHMCACHE_MAX_KEY_SIZE then ENAMETOOLONG else EINVAL, c') \<and> api_rep c' ps"
proof -
  have "trylock_ok (sc_env c)" using assms(1) by (simp add: api_rep_def)
  then obtain c1 where 1: "shm_lock others c = Some (0, c1)" "locking c c1"
    by (rule shm_lock_uncontended [where c = c and others = others])
  define c2 where "c2 = lock_stats (st_set_update count_total) c1"
  have l2: "locking c c2" unfolding c2_def by (rule locking_trans [OF 1(2) locking_stats])
  have "sc_config c2 = sc_config c" using locking_kept(3) [OF l2] by (simp add: stable_def)
  then have "shm_ht_set c2 key value = Some (if int (length key) > SHMCACHE_MAX_KEY_SIZE then ENAMETOOLONG else EINVAL, c2)"
    using assms(2) by (auto simp: shm_ht_set_def ht_set_body_def)
  then show ?thesis
    using 1(1) api_unlock_stats [OF locking_api [OF l2 assms(1)]] by (simp add: shmcache_set_ex_def Let_def flip: c2_def)
qed

text \<open>
  C13: a set through the public interface returns, and a read after its success returns the value; a key above 64 bytes
  or a value above the configured size is rejected with its own errno and no change of the entries.
\<close>

theorem api_set_correct:
  assumes "api_rep c ps"
  shows "\<exists>r c' ps'. shmcache_set_ex others c key value = Some (r, c') \<and> api_rep c' ps'
    \<and> (r = 0 \<longrightarrow> map_of ps' key = Some value \<and> (\<exists>r' c''. shmcache_get others c' key = Some (r', Some value, c'')))
    \<and> (if int (length key) > SHMCACHE_MAX_KEY_SIZE then r = ENAMETOOLONG \<and> ps' = ps
       else int (length (vi_data value)) > cfg_max_value_size (sc_config c) \<longrightarrow> r = EINVAL \<and> ps' = ps)"
proof (cases "int (length key) > SHMCACHE_MAX_KEY_SIZE \<or> int (length (vi_data value)) > cfg_max_value_size (sc_config c)")
  case True
  obtain c' where "shmcache_set_ex others c key value
      = Some (if int (length key) > SHMCACHE_MAX_KEY_SIZE then ENAMETOOLONG else EINVAL, c')" "api_rep c' ps"
    using set_ex_rejected [OF assms True] by blast
  then show ?thesis
    by (intro exI [of _ "if int (length key) > SHMCACHE_MAX_KEY_SIZE then ENAMETOOLONG else EINVAL"] exI [of _ c'] exI [of _ ps]) simp
next
  case False
  obtain r c' ps' where s: "shmcache_set_ex others c key value = Some (r, c')" "api_rep c' ps'"
    "if r = 0 then \<exists>qs. subseq qs (filter (\<lambda>p. fst p \<noteq> key) ps) \<and> ps' = qs @ [(key, value)] else subseq ps' ps"
    using assms by (rule api_set_ex)
  have v: "map_of ps' key = Some value" if "r = 0" using s(3) that map_of_stored by auto
  obtain r' c'' where "shmcache_get others c' key = Some (r', map_of ps' key, c'')" using s(2) by (rule api_get)
  then show ?thesis using s(1,2) v False by auto
qed

theorem api_set_correct_witness:
  "\<exists>r c' ps'. shmcache_set_ex (\<lambda>c. c) sample_one (replicate 65 CHR ''k'') (sample_value ''hi'') = Some (r, c') \<and> api_rep c' ps'
    \<and> r = ENAMETOOLONG \<and> ps' = [(''ab'', sample_value ''hi'')]"
  using api_set_correct [OF sample_api_rep(2), of "\<lambda>c. c" "replicate 65 CHR ''k''" "sample_value ''hi''"] by fastforce

text \<open>
  Deleting a key through the public interface removes exactly its entry and reports whether there was one; a read
  after it finds nothing.
\<close>

theorem api_delete_correct:
  assumes "api_rep c ps"
  shows "\<exists>c'. shmcache_delete others c key = Some (if key \<in> fst ` set ps then 0 else ENOENT, c')
    \<and> api_rep c' (filter (\<lambda>p. fst p \<noteq> key) ps) \<and> (\<exists>r c''. shmcache_get others c' key = Some (r, None, c''))"
proof -
  obtain c' where d: "shmcache_delete others c key = Some (if key \<in> fst ` set ps then 0 else ENOENT, c')"
    "api_rep c' (filter (\<lambda>p. fst p \<noteq> key) ps)" using assms by (rule api_delete)
  have "map_of (filter (\<lambda>p. fst p \<noteq> key) ps) key = None" by (auto simp: map_of_eq_None_iff)
  moreover obtain r c'' where "shmcache_get others c' key = Some (r, map_of (filter (\<lambda>p. fst p \<noteq> key) ps) key, c'')"
    using d(2) by (rule api_get)
  ultimately show ?thesis using d by auto
qed

theorem api_delete_correct_witness:
  "\<exists>c'. shmcache_delete (\<lambda>c. c) sample_one ''ab'' = Some (0, c') \<and> api_rep c' []
    \<and> (\<exists>r c''. shmcache_get (\<lambda>c. c) c' ''ab'' = Some (r, None, c''))"
  using api_delete_correct [OF sample_api_rep(2), of "\<lambda>c. c" "''ab''"] by simp





text \<open>
  C21: reading a printed 64 bit number gives the number back, with nothing left over, and the printed form fits into the
  buffer of 24 bytes that the increment reads it from, with the terminating zero.
\<close>

theorem counter_roundtrip:
  assumes "- (2 ^ 63) \<le> i" and "i < 2 ^ 63"
  shows "strtoll (show_int i) = (i, []) \<and> length (show_int i) < 24 \<and> incr_old_value (show_int i) = (0, Some i)"
  using strtoll_show_int [of i] show_int_length [of i] incr_reads_back [of i] assms by simp

theorem counter_roundtrip_witness:
  "strtoll (show_int (- (2 ^ 63))) = (- (2 ^ 63), []) \<and> length (show_int (- (2 ^ 63))) < 24
    \<and> incr_old_value (show_int (- (2 ^ 63))) = (0, Some (- (2 ^ 63)))"
  by (rule counter_roundtrip) simp_all

lemma api_ht_set_expires:
  assumes "api_rep c ps"
  shows "\<exists>r c' ps'. shm_ht_set_expires c key t = Some (r, c') \<and> api_rep c' ps'
    \<and> (if r = 0 then ps' = map (\<lambda>(k, v). (k, if k = key then v\<lparr>vi_expires := t\<rparr> else v)) ps
       else ps' = ps \<and> (r = ENOENT \<longleftrightarrow> map_of ps key = None))"
proof -
  obtain L where L: "full_inv c L" "align_ok (sc_fastcommon c)" "ps = entry_pairs c L"
    using assms by (auto simp: cache_rep_def api_rep_def)
  have inv: "cache_inv c L" using L(1) by (simp add: full_inv_def)
  have rep: "api_rep c' (entry_pairs c' L)" if "stable c c'" "cache_inv c' L" for c'
  proof -
    have "cache_rep c' (entry_pairs c' L)"
      using full_inv_stable [OF L(1) that] L(2) that(1) by (auto simp: cache_rep_def stable_def)
    then show ?thesis by (rule api_rep_fixed [OF assms fixed_stable [OF that(1)]])
  qed
  from inv show ?thesis
  proof (cases rule: ht_set_expires_map [where key = key and t = t])
    case absent
    then show ?thesis using assms L(3) by (intro exI [of _ ENOENT] exI [of _ c] exI [of _ ps]) (simp add: map_of_eq_None_iff)
  next
    case (expired v c')
    have "api_rep c' ps" using rep [OF _ expired(6)] stable_sys expired(7) L(3) by (simp add: expired(4))
    then show ?thesis using expired(1,5) L(3) by (intro exI [of _ ETIMEDOUT] exI [of _ c'] exI [of _ ps]) (simp add: cache_map_def)
  next
    case (updated v c')
    have "stable c c'" using updated(6) by (auto simp: stable_def)
    then have "api_rep c' (map (\<lambda>(k, v). (k, if k = key then v\<lparr>vi_expires := t\<rparr> else v)) ps)"
      using rep [OF _ updated(4)] updated(5) L(3) by simp
    then show ?thesis using updated(3) by (intro exI [of _ 0] exI [of _ c'] exI) simp
  qed
qed

lemma api_set_ttl:
  assumes "api_rep c ps"
  shows "\<exists>r c' ps'. shmcache_set_ttl others c key ttl = Some (r, c') \<and> api_rep c' ps'
    \<and> (if ttl < 0 then r = EINVAL \<and> c' = c
       else if r = 0 then \<exists>t. ps' = map (\<lambda>(k, v). (k, if k = key then v\<lparr>vi_expires := t\<rparr> else v)) ps \<and> (ttl = 0 \<longrightarrow> t = 0)
       else ps' = ps \<and> (r = ENOENT \<longleftrightarrow> map_of ps key = None))"
proof (cases "ttl < 0")
  case True
  then show ?thesis using assms by (intro exI [of _ EINVAL] exI [of _ c] exI [of _ ps]) (simp add: shmcache_set_ttl_def)
next
  case False
  obtain c1 where 1: "shm_lock others c = Some (0, c1)" "api_rep c1 ps" using assms by (rule api_lock)
  obtain t c2 where 2: "calc_expires_now c1 ttl = (t, c2)" "api_rep c2 ps" using 1(2) by (rule api_calc_expires)
  have t: "ttl = 0 \<longrightarrow> t = 0" using 2(1) by (auto simp: calc_expires_now_def HT_CALC_EXPIRES_def)
  obtain r c3 ps' where 3: "shm_ht_set_expires c2 key t = Some (r, c3)" "api_rep c3 ps'"
    "if r = 0 then ps' = map (\<lambda>(k, v). (k, if k = key then v\<lparr>vi_expires := t\<rparr> else v)) ps
       else ps' = ps \<and> (r = ENOENT \<longleftrightarrow> map_of ps key = None)" using api_ht_set_expires [OF 2(2), of key t] by blast
  have "api_rep (snd (shm_unlock c3)) ps'" by (rule locking_api [OF locking_unlock 3(2)])
  moreover have "shmcache_set_ttl others c key ttl = Some (r, snd (shm_unlock c3))"
    using False 1(1) 2(1) 3(1) by (simp add: shmcache_set_ttl_def)
  ultimately show ?thesis using False 3(3) t by (intro exI [of _ r] exI [of _ "snd (shm_unlock c3)"] exI [of _ ps']) auto
qed

lemma api_set_expires:
  assumes "api_rep c ps"
  shows "\<exists>r c' ps'. shmcache_set_expires others c key expires = Some (r, c') \<and> api_rep c' ps'"
proof -
  obtain past c1 where 1: "(if expires > 0 then (let (t, c) = get_current_time c in (expires < t, c)) else (False, c)) = (past, c1)"
    by (metis surj_pair)
  have rep1: "api_rep c1 ps"
    using 1 assms locking_api [OF locking_sys [of c Sys_get_current_time] assms] by (auto simp: case_prod_unfold Let_def split: if_splits)
  show ?thesis
  proof (cases past)
    case True
    then show ?thesis using 1 rep1 by (auto simp: shmcache_set_expires_def)
  next
    case False
    obtain c2 where 2: "shm_lock others c1 = Some (0, c2)" "api_rep c2 ps" using rep1 by (rule api_lock)
    obtain r c3 ps' where 3: "shm_ht_set_expires c2 key expires = Some (r, c3)" "api_rep c3 ps'"
      using api_ht_set_expires [OF 2(2), of key expires] by blast
    have "shmcache_set_expires others c key expires = Some (r, snd (shm_unlock c3))"
      unfolding shmcache_set_expires_def 1 using False 2(1) 3(1) by simp
    then show ?thesis using locking_api [OF locking_unlock 3(2)] by blast
  qed
qed

text \<open>An increment returns whatever the key holds, and a successful one has stored its value.\<close>

lemma api_incr_returns:
  assumes "api_rep c ps"
  shows "\<exists>r x c' ps'. shmcache_incr others c key increment ttl = Some (r, x, c') \<and> api_rep c' ps' \<and> (r = 0 \<longrightarrow> x \<noteq> None)"
proof -
  obtain c1 where 1: "shm_lock others c = Some (0, c1)" "api_rep c1 ps" using assms by (rule api_lock)
  obtain r1 c2 where 2: "shm_ht_get c1 key = Some (r1, map_of ps key, c2)" "api_rep c2 ps" using 1(2) by (rule api_ht_get)
  obtain err start where 3: "(case map_of ps key of Some v \<Rightarrow> if r1 = 0 then incr_old_value (vi_data v) else (0, None)
      | None \<Rightarrow> (0, None)) = (err, start)" by (metis surj_pair)
  obtain t c3 where 4: "calc_expires_now c2 ttl = (t, c3)" "api_rep c3 ps" using 2(2) by (rule api_calc_expires)
  define n where "n = (case start of Some n \<Rightarrow> int64 (n + increment) | None \<Rightarrow> increment)"
  obtain r c4 ps' where 5: "shm_ht_set c3 key \<lparr>vi_data = show_int n, vi_options = SHMCACHE_SERIALIZER_INTEGER, vi_expires = t\<rparr> = Some (r, c4)"
    "api_rep c4 ps'" using 4(2) by (rule api_ht_set)
  have "incr_locked c1 key increment ttl = (if err \<noteq> 0 then Some (err, start, c2) else Some (r, Some n, c4))"
    unfolding incr_locked_def 2(1) using 4(1) 5(1) by (simp add: 3 n_def)
  then have "\<exists>r x c' ps'. incr_locked c1 key increment ttl = Some (r, x, c') \<and> api_rep c' ps' \<and> (r = 0 \<longrightarrow> x \<noteq> None)"
    using 2(2) 5(2) by (cases "err = 0") auto
  then obtain r x c' ps' where 6: "incr_locked c1 key increment ttl = Some (r, x, c')" "api_rep c' ps'" "r = 0 \<longrightarrow> x \<noteq> None" by blast
  have "shmcache_incr others c key increment ttl
      = Some (r, x, snd (shm_unlock (lock_stats (st_incr_update (count_result r \<circ> count_total)) c')))"
    unfolding shmcache_incr_def 1(1) using 6(1) by simp
  then show ?thesis using api_unlock_stats [OF 6(2)] 6(3) by blast
qed

text \<open>
  Setting a time to live through the public interface changes the expiry time of a key with a valid value, and nothing
  else; a time to live of 0 makes it permanent. A negative one is rejected without taking the lock.
\<close>

theorem api_set_ttl_correct:
  assumes "api_rep c ps"
  shows "\<exists>r c' ps'. shmcache_set_ttl others c key ttl = Some (r, c') \<and> api_rep c' ps'
    \<and> (if ttl < 0 then r = EINVAL \<and> c' = c
       else if r = 0 then \<exists>t. ps' = map (\<lambda>(k, v). (k, if k = key then v\<lparr>vi_expires := t\<rparr> else v)) ps \<and> (ttl = 0 \<longrightarrow> t = 0)
       else ps' = ps \<and> (r = ENOENT \<longleftrightarrow> map_of ps key = None))"
  using assms by (rule api_set_ttl)

theorem api_set_ttl_correct_witness:
  "\<exists>r c' ps'. shmcache_set_ttl (\<lambda>c. c) sample_one ''xy'' 10 = Some (r, c') \<and> api_rep c' ps'
    \<and> (r \<noteq> 0 \<longrightarrow> ps' = [(''ab'', sample_value ''hi'')])"
  using api_set_ttl_correct [OF sample_api_rep(2), of "\<lambda>c. c" "''xy''" 10] by (simp split: if_splits) blast

section \<open>Statistics\<close>

text \<open>Asking for the statistics changes the remembered counters only.\<close>

lemma api_bookkeeping:
  assumes "api_rep c ps" and "bookkeeping c c'"
  shows "api_rep c' ps"
proof -
  obtain L where L: "full_inv c L" "align_ok (sc_fastcommon c)" "ps = entry_pairs c L" using assms(1) by (auto simp: api_rep_def cache_rep_def)
  have "full_inv c' L" by (rule full_inv_bookkeeping [OF L(1) assms(2)])
  moreover have "entry_pairs c' L = entry_pairs c L" by (rule bookkeeping_kept(2) [OF assms(2)])
  moreover have f: "fixed c c'" by (rule fixed_bookkeeping [OF assms(2)])
  ultimately have "cache_rep c' ps" using L(2,3) fixed_fields(2) [OF f] unfolding cache_rep_def by auto
  then show ?thesis by (rule api_rep_fixed [OF assms(1) f])
qed

lemma stats_bookkeeping: "bookkeeping c (snd (shmcache_stats_ex c calc))"
proof -
  define c1 where "c1 = (if \<not> sc_g_schedule_flag c then (let (t, c) = sys Sys_time c in c\<lparr>sc_g_current_time := t\<rparr>) else c)"
  have 1: "bookkeeping c c1"
    using bookkeeping_trans [OF bookkeeping_sys bookkeeping_time] by (simp add: c1_def case_prod_unfold Let_def)
  have "\<exists>f. snd (stats_hit c) = lock_stats f c1 \<or> snd (stats_hit c) = c1"
    by (simp add: stats_hit_def Let_def flip: c1_def) blast
  then have "bookkeeping c (snd (stats_hit c))" using 1 bookkeeping_trans [OF 1 bookkeeping_stats] by metis
  then show ?thesis by (simp add: shmcache_stats_ex_def case_prod_unfold Let_def)
qed

lemma api_stats: "api_rep c ps \<Longrightarrow> api_rep (snd (shmcache_stats_ex c calc)) ps"
  using api_bookkeeping stats_bookkeeping by blast



section \<open>The lock\<close>

text \<open>
  C6: a process that waits for a lock whose holder is dead gets it: after at most the configured number of tries it finds
  that the holder is gone, clears the table, releases the mutex and locks it for itself. It ends up as the recorded
  holder of a well-formed empty cache, whatever state the dead process left the table in.
\<close>

theorem shm_lock_recovers:
  assumes "holder_gone (sc_env c)" and "clearable c" and "mi_lock_pid (sc_memory c) > 0"
    and "Sys_pthread_mutex_unlock \<notin> set (env_history (sc_env c))"
  shows "\<exists>c'. shm_lock (\<lambda>c. c) c = Some (0, c') \<and> cache_inv c' [] \<and> mi_lock_pid (sc_memory c') = sc_pid c"
proof -
  have "waiting c" using assms by (simp add: waiting_def)
  from lock_loop_recovers [OF waiting_stats [OF this], of "st_lock_total_update (\<lambda>n. n + 1)" 0] show ?thesis
    by (simp add: shm_lock_def)
qed

text \<open>The process with pid 7 died while it held the lock, in the middle of a change of the list.\<close>

definition sample_orphan :: shmcache_context where
  "sample_orphan = sample_cache\<lparr>sc_memory := (sc_memory sample_cache)\<lparr>mi_lock_pid := 7, mi_head := \<lparr>sl_prev = 1, sl_next = 2\<rparr>\<rparr>,
     sc_env := \<lparr>env_sys = (\<lambda>h r. case r of
         Sys_pthread_mutex_trylock \<Rightarrow> (if Sys_pthread_mutex_unlock \<in> set h then 0 else EBUSY, 0)
       | Sys_kill _ \<Rightarrow> (- 1, ESRCH)
       | _ \<Rightarrow> (0, 0)), env_history = []\<rparr>\<rparr>"

theorem shm_lock_recovers_witness:
  "\<exists>c'. shm_lock (\<lambda>c. c) sample_orphan = Some (0, c') \<and> cache_inv c' [] \<and> mi_lock_pid (sc_memory c') = sc_pid sample_orphan"
proof (rule shm_lock_recovers)
  have "clearable sample_cache" using sample_cache_inv cache_inv_clearable by (auto simp: full_inv_def)
  then show "clearable sample_orphan" by (simp add: clearable_def sample_orphan_def ctx_ok_def segments_open_def allocs_ok_def)
qed (simp_all add: sample_orphan_def holder_gone_def)

section \<open>Initialisation\<close>

lemma sample_config_ok: "config_ok 12 sample_config"
proof -
  have "SHMCACE_MEM_ALIGN 65536 (2 ^ 12) = 65536" by (simp add: SHMCACE_MEM_ALIGN_def)
  then show ?thesis by (simp add: config_ok_def sample_config_def)
qed

text \<open>What the sizes of the sample configuration are.\<close>

definition sample_sizes :: "int \<times> shm_value_size_info \<times> shm_value_size_info \<times> int \<times> ht_offsets" where
  "sample_sizes = (944, \<lparr>vs_size = 65536, vs_current = 0, vs_max = 3\<rparr>, \<lparr>vs_size = 65536, vs_current = 0, vs_max = 3\<rparr>, 11,
     \<lparr>off_ht_buckets = 464, off_ht_pool_queue = 552, off_va_pool_queue_doing = 640, off_va_pool_queue_done = 680,
      off_va_pool_object = 720\<rparr>)"

lemma sample_sizes: "fst (shmcache_get_ht_segment_size (init_context sample_process sample_config True)) = sample_sizes"
  by code_simp

lemma sample_first_init: "first_init_ok 12 sample_process sample_config"
  using sample_platform sample_config_ok by (simp add: first_init_ok_def) (simp add: sample_process_def)



text \<open>The cache that the sample process starts.\<close>

definition sample_started :: shmcache_context where
  "sample_started = snd (the (shmcache_init (\<lambda>c. c) (zero_image 11 3) sample_process sample_config True True))"

lemma sample_start:
  "shmcache_init (\<lambda>c. c) (zero_image 11 3) sample_process sample_config True True = Some (0, sample_started)"
  "initialised sample_started" "sc_allocators_offset sample_started = 720" "vs_max (mi_segment (sc_memory sample_started)) = 3"
proof -
  let ?r = "shmcache_init (\<lambda>c. c) (zero_image 11 3) sample_process sample_config True True"
  have "map_option (\<lambda>(r, c'). (r, initialised c', sc_allocators_offset c', vs_max (mi_segment (sc_memory c')))) ?r
    = Some (0, True, 720, 3)" by code_simp
  then obtain c' where "?r = Some (0, c')" "initialised c'" "sc_allocators_offset c' = 720" "vs_max (mi_segment (sc_memory c')) = 3"
    by auto
  then show "?r = Some (0, sample_started)" "initialised sample_started" "sc_allocators_offset sample_started = 720"
    "vs_max (mi_segment (sc_memory sample_started)) = 3" by (simp_all add: sample_started_def)
qed

lemma sample_started_inv: "full_inv sample_started []" "sc_config sample_started = sample_config"
proof -
  obtain c1 where run: "shmcache_get_ht_segment_size (init_context sample_process sample_config True) = (sample_sizes, c1)"
    using sample_sizes by (metis prod.collapse)
  have "944 \<le> cfg_max_memory sample_config" by (simp add: sample_config_def)
  from init_inv [OF sample_first_init run [unfolded sample_sizes_def] this, of True] sample_start
  show "full_inv sample_started []" "sc_config sample_started = sample_config" by simp_all
qed



text \<open>
  C8: a further process that attaches to the memory of an initialised cache, with the same configuration, returns; when it
  reports success it has opened all value segments, satisfies the invariant and sees the same entries as the process
  that it shares the memory with.
\<close>

theorem second_process_sees_cache:
  assumes "first_init_ok k c config"
    and "shmcache_get_ht_segment_size (init_context c config True) = ((sz, segment, striping, capacity, offs), c1)"
    and "sz \<le> cfg_max_memory config"
    and "full_inv c0 L" and "initialised c0" and "sc_config c0 = config"
    and "sc_allocators_offset c0 = off_va_pool_object offs" and "vs_max (mi_segment (sc_memory c0)) = vs_max segment"
  shows "\<exists>r c'. shmcache_init others (image_of c0) c config True check_segment = Some (r, c')
    \<and> (r = 0 \<longrightarrow> full_inv c' L \<and> cache_map c' L = cache_map c0 L)"
proof -
  let ?c0 = "init_context c config True"
  have ok: "pages_ok k (sc_env ?c0)" "config_ok k (sc_config ?c0)" "primes_ok (sc_fastcommon ?c0)"
    "sz \<le> cfg_max_memory (sc_config ?c0)" "maps_ok (sc_env c)" "trylock_ok (sc_env c)"
    using assms(1,3) by (simp_all add: first_init_ok_def init_context_fields pages_ok_def)
  note layout = ht_segment_layout [OF ok(1,2) assms(2) ok(4,3)]
  obtain r c' where "shmcache_init others (image_of c0) c config True check_segment = Some (r, c')"
    "r = 0 \<longrightarrow> full_inv c' L \<and> entry_pairs c' L = entry_pairs c0 L"
    by (rule attach_inv [OF assms(4-6) ok(5,6) assms(2) layout(5) assms(7) [symmetric] assms(8) [symmetric], of others check_segment])
  then show ?thesis by (auto simp: cache_map_def)
qed

theorem second_process_sees_cache_witness:
  "\<exists>r c'. shmcache_init (\<lambda>c. c) (image_of sample_started) sample_process sample_config True True = Some (r, c')
    \<and> (r = 0 \<longrightarrow> full_inv c' [] \<and> cache_map c' [] = cache_map sample_started [])"
proof -
  obtain c1 where run: "shmcache_get_ht_segment_size (init_context sample_process sample_config True) = (sample_sizes, c1)"
    using sample_sizes by (metis prod.collapse)
  show ?thesis
    by (rule second_process_sees_cache [OF sample_first_init run [unfolded sample_sizes_def] _ sample_started_inv(1) sample_start(2)
          sample_started_inv(2)]) (simp_all add: sample_start, simp add: sample_config_def)
qed

text \<open>
  Above 32 GB the striping index overflows: with 240 segments of 255 MB, which the configuration accepts, there are 61200
  stripings of 1 MB, and the index of the last one, stored in 16 bits, is negative.
\<close>

theorem striping_index_overflow:
  "fst (get_value_striping_count_size sample_process
      (sample_config\<lparr>cfg_segment_size := 267386880, cfg_max_memory := 64424509440\<rparr>) 64424509440)
    = (\<lparr>vs_size = 267386880, vs_current = 0, vs_max = 240\<rparr>, \<lparr>vs_size = 1048576, vs_current = 0, vs_max = 61200\<rparr>)
   \<and> int16 (61200 - 1) < 0"
  by code_simp

text \<open>A configuration file with the required items.\<close>

definition sample_ini :: ini_context where
  "sample_ini = \<lparr>ini_load = (\<lambda>_. 0),
     ini_str = (\<lambda>name. if name = ''filename'' then Some ''/tmp/c'' else if name = ''type'' then None
       else if name = ''hash_function'' then None else Some ''1''),
     ini_int = (\<lambda>name d. if name = ''max_key_count'' then 100 else d), ini_bool = (\<lambda>_ d. d),
     ini_parse_bytes = (\<lambda>_. (0, 1048576)), ini_dlopen = True, ini_dlsym = (\<lambda>_. None), ini_simple_hash = (\<lambda>key. int (length key))\<rparr>"

theorem load_config_bounds_witness:
  "\<exists>config. shmcache_load_config sample_ini sample_fastcommon sample_config ''c.conf'' = (0, config)
    \<and> cfg_max_memory config div SHMCACE_MEM_ALIGN (cfg_segment_size config) (2 ^ 12) \<le> 255"
proof -
  have "fst (shmcache_load_config sample_ini sample_fastcommon sample_config ''c.conf'') = 0" by code_simp
  then obtain config where config: "shmcache_load_config sample_ini sample_fastcommon sample_config ''c.conf'' = (0, config)"
    by (metis prod.collapse)
  then show ?thesis using load_config_bounds [OF config, of 12] by simp
qed

section \<open>Leaving the cache\<close>

text \<open>
  C37: leaving a cache releases every mapping of the process once, the value segments in their order and then the hash table
  segment, forgets all addresses and leaves the shared memory as it is.
\<close>

theorem destroy_releases_mappings:
  assumes "segments_open c"
  shows "env_history (sc_env (shmcache_destroy c)) = env_history (sc_env c)
      @ map (unmap_request (cfg_type (sc_config c))) (take (nat (sc_values_count c)) (sc_values_items c)
          @ (if seg_base (sc_ht_segment c) \<noteq> 0 then [sc_ht_segment c] else []))
    \<and> list_all (\<lambda>s. seg_base s = 0) (take (nat (sc_values_count c)) (sc_values_items (shmcache_destroy c)))
    \<and> seg_base (sc_ht_segment (shmcache_destroy c)) = 0 \<and> sc_memory (shmcache_destroy c) = sc_memory c"
proof -
  have o: "0 \<le> sc_values_count c" "nat (sc_values_count c) \<le> length (sc_values_items c)"
    "list_all (\<lambda>s. mapped (seg_base s)) (take (nat (sc_values_count c)) (sc_values_items c))"
    using assms by (simp_all add: segments_open_def)
  have "filter (\<lambda>s. seg_base s \<noteq> 0) (take (nat (sc_values_count c)) (sc_values_items c)) = take (nat (sc_values_count c)) (sc_values_items c)"
    using o(3) by (simp add: filter_id_conv list_all_iff mapped_def)
  then show ?thesis using destroy_unmaps [OF o(1,2)] by (simp add: unmap_requests_def)
qed

theorem destroy_releases_mappings_witness:
  "list_all (\<lambda>s. seg_base s = 0) (take 1 (sc_values_items (shmcache_destroy sample_cache)))"
proof -
  have "segments_open sample_cache"
    using sample_cache_inv core_invD(2) [of sample_cache "[]" "[]"] by (simp add: full_inv_def cache_inv_def)
  moreover have "sc_values_count sample_cache = 1" by code_simp
  ultimately show ?thesis using destroy_releases_mappings [of sample_cache] by simp
qed

end
