(* ===== verification/PhpProps.thy ===== *)
theory PhpProps
  imports PhpModule ApiProps
begin

text \<open>
  The properties of the PHP extension: the contexts of a process, values that come back through any object of a cache, and methods
  that always return.
\<close>

section \<open>The contexts of a process\<close>

text \<open>The contexts of a process: one for each configuration file, within the allocated array.\<close>

definition contexts_ok :: "context_array \<Rightarrow> bool" where
  "contexts_ok ctxs \<longleftrightarrow> distinct (map fst (ca_contexts ctxs)) \<and> int (length (ca_contexts ctxs)) \<le> ca_alloc ctxs"

lemma find_context_None: "find_context i xs filename = None \<longleftrightarrow> filename \<notin> fst ` set xs"
  by (induction i xs filename rule: find_context.induct) auto

lemma find_context_Some:
  "find_context i xs filename = Some j \<Longrightarrow> i \<le> j \<and> j < i + length xs \<and> fst (xs ! (j - i)) = filename"
proof (induction i xs filename rule: find_context.induct)
  case (2 i name c xs filename)
  show ?case
  proof (cases "filename = name")
    case False
    with 2 have j: "Suc i \<le> j" "j < Suc i + length xs" "fst (xs ! (j - Suc i)) = filename" by auto
    then have "j - i = Suc (j - Suc i)" by simp
    then show ?thesis using j by simp
  qed (use 2(2) in auto)
qed simp

lemma find_context_append: "filename \<notin> fst ` set xs \<Longrightarrow> find_context i (xs @ [(filename, c)]) filename = Some (i + length xs)"
  by (induction i xs filename rule: find_context.induct) auto

lemma grow_array:
  assumes "contexts_ok ctxs" and "grow_array c ctxs = ((n, Some ctxs'), c')"
  shows "ca_contexts ctxs' = ca_contexts ctxs" and "int (length (ca_contexts ctxs)) < ca_alloc ctxs'"
  using assms by (auto simp: grow_array_def contexts_ok_def Let_def split: if_splits prod.splits)

text \<open>
  C34: the PHP extension opens a configuration file once in a process: a request for a file that is open gives the context it
  has and changes nothing, one for another file appends a context that later requests find. The contexts
  stay distinct, in their places and within the allocated array.
\<close>

theorem php_contexts:
  assumes "contexts_ok ctxs" and "shmcache_get_context h context_size c ctxs filename = Some (r, ctxs')"
  shows "contexts_ok ctxs' \<and> (\<exists>new. ca_contexts ctxs' = ca_contexts ctxs @ new \<and> length new \<le> 1)
    \<and> (\<forall>i. r = Inr i \<longrightarrow> i < length (ca_contexts ctxs') \<and> fst (ca_contexts ctxs' ! i) = filename
         \<and> shmcache_get_context h context_size d ctxs' filename = Some (Inr i, ctxs'))"
proof (cases "find_context 0 (ca_contexts ctxs) filename")
  case (Some i)
  then have "r = Inr i" "ctxs' = ctxs" using assms(2) by (simp_all add: shmcache_get_context_def)
  then show ?thesis using assms(1) find_context_Some [OF Some] Some by (auto simp: shmcache_get_context_def)
next
  case None
  then have new: "filename \<notin> fst ` set (ca_contexts ctxs)" by (simp add: find_context_None)
  obtain n grown c1 where g: "grow_array c ctxs = ((n, grown), c1)" by (metis surj_pair)
  show ?thesis
  proof (cases grown)
    case None
    then show ?thesis
      using assms g \<open>find_context 0 (ca_contexts ctxs) filename = None\<close> by (auto simp: shmcache_get_context_def)
  next
    case (Some big)
    note big = grow_array [OF assms(1) g [unfolded Some]]
    have "r = Inr (length (ca_contexts big)) \<and> (\<exists>c2. ctxs' = big\<lparr>ca_contexts := ca_contexts big @ [(filename, c2)]\<rparr>)
        \<or> (\<exists>msg. r = Inl msg) \<and> ctxs' = big"
      using assms(2) g Some \<open>find_context 0 (ca_contexts ctxs) filename = None\<close>
      by (auto simp: shmcache_get_context_def Let_def split: if_splits prod.splits bind_splits)
    then show ?thesis
    proof (elim disjE conjE exE)
      fix c2
      assume r: "r = Inr (length (ca_contexts big))" "ctxs' = big\<lparr>ca_contexts := ca_contexts big @ [(filename, c2)]\<rparr>"
      have "find_context 0 (ca_contexts ctxs') filename = Some (length (ca_contexts big))"
        using find_context_append [OF new, of 0 c2] r(2) big(1) by simp
      then show ?thesis using r big assms(1) new by (auto simp: contexts_ok_def shmcache_get_context_def)
    qed (use big assms(1) in \<open>auto simp: contexts_ok_def\<close>)
  qed
qed

text \<open>A machine on which nothing is typed and no file exists, and a process with one open configuration file.\<close>

definition sample_host :: host where
  "sample_host = \<lparr>host_is_file = (\<lambda>_. False), host_format_datetime = show_int, host_scanf_char = None, host_others = (\<lambda>c. c),
     host_image = zero_image 11 3, host_ini = sample_ini, host_config = sample_config\<rparr>"

definition sample_contexts :: context_array where
  "sample_contexts = \<lparr>ca_contexts = [(''a.conf'', sample_cache)], ca_alloc = 2\<rparr>"

theorem php_contexts_witness:
  "shmcache_get_context sample_host 500 sample_process sample_contexts ''a.conf'' = Some (Inr 0, sample_contexts)
    \<and> contexts_ok sample_contexts"
proof -
  have "shmcache_get_context sample_host 500 sample_process sample_contexts ''a.conf'' = Some (Inr 0, sample_contexts)"
    by (simp add: shmcache_get_context_def sample_contexts_def)
  moreover have "contexts_ok sample_contexts" by (simp add: contexts_ok_def sample_contexts_def)
  ultimately show ?thesis using php_contexts [of sample_contexts sample_host 500 sample_process "''a.conf''" "Inr 0" sample_contexts] by blast
qed

text \<open>
  The message of a configuration file that cannot be opened is printed without a bound into 128 bytes: a file name of 98 bytes
  or more overwrites the stack.
\<close>

lemma php_message_overflow:
  assumes "filename \<notin> fst ` set (ca_contexts ctxs)" and "ini_load (host_ini h) filename \<noteq> 0" and "98 \<le> length filename"
    and "\<forall>hist n. fst (env_sys (sc_env c) hist (Sys_malloc n)) \<noteq> 0"
  shows "shmcache_get_context h context_size c ctxs filename = None"
proof -
  have malloc: "fst (sys (Sys_malloc n) d) \<noteq> 0" "env_sys (sc_env (snd (sys (Sys_malloc n) d))) = env_sys (sc_env c)"
    if "env_sys (sc_env d) = env_sys (sc_env c)" for n d
    using assms(4) that by (simp_all add: sys_def sysval_def syscall_def)
  have "\<exists>n big c1. grow_array c ctxs = ((n, Some big), c1) \<and> env_sys (sc_env c1) = env_sys (sc_env c)"
  proof (cases "int (length (ca_contexts ctxs)) \<ge> ca_alloc ctxs")
    case True
    define alloc where "alloc = (if ca_alloc ctxs = 0 then 2 else ca_alloc ctxs * 2)"
    obtain p c1 where q: "sys (Sys_malloc (16 * alloc)) c = (p, c1)" by (metis surj_pair)
    have "p \<noteq> 0" "env_sys (sc_env c1) = env_sys (sc_env c)" using malloc [OF refl, of "16 * alloc"] q by simp_all
    then show ?thesis using True q by (simp add: grow_array_def Let_def flip: alloc_def)
  qed (simp add: grow_array_def)
  then obtain n big c1 where g: "grow_array c ctxs = ((n, Some big), c1)" "env_sys (sc_env c1) = env_sys (sc_env c)" by blast
  obtain p2 c2 where 2: "sys (Sys_malloc (int (length filename) + 1)) c1 = (p2, c2)" by (metis surj_pair)
  obtain p3 c3 where 3: "sys (Sys_malloc context_size) c2 = (p3, c3)" by (metis surj_pair)
  have "p2 \<noteq> 0" "p3 \<noteq> 0"
    using malloc [OF g(2), of "int (length filename) + 1"] malloc [of c2 context_size] 2 3 by simp_all
  moreover have "shmcache_init_from_file (host_others h) (host_image h) (host_ini h) (host_config h) c3 filename
      = Some (ini_load (host_ini h) filename, c3)"
    using assms(2) by (simp add: shmcache_init_from_file_def shmcache_init_from_file_ex_def shmcache_load_config_def)
  ultimately show ?thesis
    using assms(1-3) g(1) 2 3 find_context_None [of 0 "ca_contexts ctxs" filename] by (simp add: shmcache_get_context_def Let_def)
qed


lemma loaded_serializers:
  "shmcache_serializer_enabled (snd (shmcache_load_functions handle fs initial_serializers)) SHMCACHE_SERIALIZER_INTEGER"
  "shmcache_serializer_enabled (snd (shmcache_load_functions handle fs initial_serializers)) SHMCACHE_SERIALIZER_PHP"
  by (simp_all add: shmcache_serializer_enabled_def shmcache_load_functions_def initial_serializers_def Let_def)




text \<open>A process without the extensions, with a serializer that keeps the arrays of nulls.\<close>

definition sample_functions :: "unit php_functions" where
  "sample_functions = \<lparr>pf_msgpack_serialize = None, pf_msgpack_unserialize = None, pf_igbinary_pack = None, pf_igbinary_unpack = None,
     pf_php_serialize = (\<lambda>z. case z of Z_Null \<Rightarrow> ''N;'' | _ \<Rightarrow> ''b:1;''),
     pf_php_unserialize = (\<lambda>s. if s = ''N;'' then Some Z_Null else if s = ''b:1;'' then Some (Z_Bool True) else None)\<rparr>"

section \<open>Methods return\<close>

text \<open>A serializer that is enabled can be called: its functions were found when the module was started.\<close>

lemma enabled_loaded:
  assumes "serializers = snd (shmcache_load_functions handle fs initial_serializers)"
  shows "shmcache_serializer_enabled serializers SHMCACHE_SERIALIZER_IGBINARY \<Longrightarrow> pf_igbinary_pack fs \<noteq> None \<and> pf_igbinary_unpack fs \<noteq> None"
    and "shmcache_serializer_enabled serializers SHMCACHE_SERIALIZER_MSGPACK \<Longrightarrow> pf_msgpack_serialize fs \<noteq> None \<and> pf_msgpack_unserialize fs \<noteq> None"
  unfolding assms
  by (auto simp: shmcache_serializer_enabled_def shmcache_load_functions_def initial_serializers_def Let_def split: if_splits)

lemma serialize_returns:
  assumes "serializers = snd (shmcache_load_functions handle fs initial_serializers)" and "shmcache_serializer_enabled serializers serializer"
  shows "\<exists>result options data live. shmcache_serialize fs serializer z = Some (result, options, data, live)"
  using enabled_loaded [OF assms(1)] assms(2)
  by (cases z) (auto simp: shmcache_serialize_def shmcache_igbinary_pack_def shmcache_msgpack_pack_def case_prod_unfold Let_def)

lemma unserialize_returns:
  assumes "serializers = snd (shmcache_load_functions handle fs initial_serializers)" and "shmcache_serializer_enabled serializers (vi_options v)"
  shows "\<exists>result z. shmcache_unserialize fs v = Some (result, z)"
  using enabled_loaded [OF assms(1)] assms(2)
  by (auto simp: shmcache_unserialize_def shmcache_igbinary_unpack_def shmcache_msgpack_unpack_def Let_def)

text \<open>What a method leaves: the cache as the library does, and no buffer.\<close>

definition method_post :: "('o php_out \<times> shmcache_context) option \<Rightarrow> bool" where
  "method_post x \<longleftrightarrow> (\<exists>out c' ps'. x = Some (out, c') \<and> api_rep c' ps' \<and> po_leaked out = [])"

lemma method_postI: "x = Some (out, c') \<Longrightarrow> api_rep c' ps' \<Longrightarrow> po_leaked out = [] \<Longrightarrow> method_post x"
  unfolding method_post_def by blast

lemma no_leak [simp]: "po_leaked (RETURN z) = []" "po_leaked (THROW msg) = []"
  by (simp_all add: RETURN_def THROW_def)

lemma php_set_returns:
  assumes "api_rep c ps" and "serializers = snd (shmcache_load_functions handle fs initial_serializers)"
    and "shmcache_serializer_enabled serializers serializer"
  shows "method_post (php_set others fs serializer c args)"
proof (cases "\<exists>key val ttl. args = Some (key, val, ttl) \<and> val \<noteq> Z_Bool False")
  case False
  then show ?thesis
    using assms(1) by (cases args) (auto simp: php_set_def intro!: method_postI [OF refl])
next
  case True
  then obtain key val ttl where args: "args = Some (key, val, ttl)" "val \<noteq> Z_Bool False" by blast
  obtain expires c1 where 1: "(if ttl = SHMCACHE_NEVER_EXPIRED then (HT_CALC_EXPIRES 0 ttl, c)
      else (let (t, c) = sys Sys_time c in (HT_CALC_EXPIRES t ttl, c))) = (expires, c1)" by (metis surj_pair)
  have rep1: "api_rep c1 ps"
    using 1 assms(1) locking_api [OF locking_sys [of c Sys_time] assms(1)] by (auto simp: case_prod_unfold Let_def split: if_splits)
  obtain result options data live where 2: "shmcache_serialize fs serializer val = Some (result, options, data, live)"
    using serialize_returns [OF assms(2,3)] by blast
  show ?thesis
  proof (cases "result = 0")
    case False
    then show ?thesis
      using serialize_freed(2) [OF 2] args 1 2 rep1 by (auto simp: php_set_def Let_def RETURN_def intro!: method_postI [OF refl])
  next
    case True
    obtain r c2 ps2 where 3: "shmcache_set_ex others c1 key \<lparr>vi_data = data, vi_options = options, vi_expires = expires\<rparr> = Some (r, c2)" "api_rep c2 ps2"
      using rep1 by (rule api_set_ex)
    have "php_set others fs serializer c args
        = Some ((if r \<noteq> 0 then RETURN (Z_Bool False) else RETURN (Z_Bool True))\<lparr>po_leaked := []\<rparr>, c2)"
      using args 1 2 3(1) True serialize_freed(1) [OF 2] by (simp add: php_set_def Let_def)
    then show ?thesis using 3(2) by (rule method_postI) simp
  qed
qed

lemma php_get_returns:
  assumes "api_rep c ps" and "serializers = snd (shmcache_load_functions handle fs initial_serializers)"
  shows "method_post (php_get others serializers fs c args)"
proof (cases args)
  case None
  then show ?thesis using assms(1) by (auto simp: php_get_def intro!: method_postI [OF refl])
next
  case (Some kb)
  obtain key opt where kb: "kb = (key, opt)" by (cases kb)
  obtain r c1 where g: "shmcache_get others c key = Some (r, map_of ps key, c1)" "api_rep c1 ps" "get_result (map_of ps key) r"
    using assms(1) by (rule api_get_result)
  show ?thesis
  proof (cases "r \<noteq> 0 \<and> \<not> (opt = Some True \<and> r = ETIMEDOUT)")
    case True
    then show ?thesis using Some kb g(1,2) by (auto simp: php_get_def intro!: method_postI [OF refl])
  next
    case False
    then obtain v where v: "map_of ps key = Some v" using g(3) by (cases "map_of ps key") (auto simp: get_result_def)
    show ?thesis
    proof (cases "shmcache_serializer_enabled serializers (vi_options v)")
      case True
      then obtain result z where "shmcache_unserialize fs v = Some (result, z)" using unserialize_returns [OF assms(2)] by blast
      then show ?thesis using Some kb g(1,2) v False True by (auto simp: php_get_def intro!: method_postI [OF refl])
    qed (use Some kb g(1,2) v False in \<open>auto simp: php_get_def intro!: method_postI [OF refl]\<close>)
  qed
qed

lemma php_getExpires_returns:
  assumes "api_rep c ps"
  shows "method_post (php_getExpires others c args)"
proof (cases args)
  case None
  then show ?thesis using assms(1) by (auto simp: php_getExpires_def intro!: method_postI [OF refl])
next
  case (Some kb)
  obtain key opt where kb: "kb = (key, opt)" by (cases kb)
  obtain r c1 where g: "shmcache_get others c key = Some (r, map_of ps key, c1)" "api_rep c1 ps" "get_result (map_of ps key) r"
    using assms(1) by (rule api_get_result)
  then show ?thesis
    using Some kb by (cases "map_of ps key") (auto simp: php_getExpires_def get_result_def intro!: method_postI [OF refl])
qed

lemma call_method_returns:
  assumes "api_rep c ps" and "serializers = snd (shmcache_load_functions handle fs initial_serializers)"
    and "shmcache_serializer_enabled serializers serializer"
  shows "method_post (call_method others serializers fs serializer c m)"
proof (cases m)
  case (M_set args)
  then show ?thesis using php_set_returns [OF assms] by simp
next
  case (M_setExpires args)
  show ?thesis
  proof (cases args)
    case (Some a)
    obtain r c' ps' where "shmcache_set_expires others c (fst a) (int32 (snd a)) = Some (r, c')" "api_rep c' ps'"
      using api_set_expires [OF assms(1)] by blast
    then show ?thesis using M_setExpires Some by (cases a) (auto simp: php_setExpires_def intro!: method_postI [OF refl])
  qed (use M_setExpires assms(1) in \<open>auto simp: php_setExpires_def intro!: method_postI [OF refl]\<close>)
next
  case (M_setTTL args)
  show ?thesis
  proof (cases args)
    case (Some a)
    obtain r c' ps' where "shmcache_set_ttl others c (fst a) (int32 (snd a)) = Some (r, c')" "api_rep c' ps'"
      using api_set_ttl [OF assms(1)] by blast
    then show ?thesis using M_setTTL Some by (cases a) (auto simp: php_setTTL_def intro!: method_postI [OF refl])
  qed (use M_setTTL assms(1) in \<open>auto simp: php_setTTL_def intro!: method_postI [OF refl]\<close>)
next
  case (M_incr args)
  show ?thesis
  proof (cases args)
    case (Some a)
    obtain r x c' ps' where "shmcache_incr others c (fst a) (fst (snd a)) (int32 (snd (snd a))) = Some (r, x, c')" "api_rep c' ps'" "r = 0 \<longrightarrow> x \<noteq> None"
      using api_incr_returns [OF assms(1)] by blast
    then show ?thesis using M_incr Some by (cases a) (auto simp: php_incr_def intro!: method_postI [OF refl])
  qed (use M_incr assms(1) in \<open>auto simp: php_incr_def intro!: method_postI [OF refl]\<close>)
next
  case (M_get args)
  then show ?thesis using php_get_returns [OF assms(1,2)] by simp
next
  case (M_getExpires args)
  then show ?thesis using php_getExpires_returns [OF assms(1)] by simp
next
  case (M_delete args)
  show ?thesis
  proof (cases args)
    case (Some key)
    obtain r c' ps' where "shmcache_delete others c key = Some (r, c')" "api_rep c' ps'" using api_delete [OF assms(1)] by metis
    then show ?thesis using M_delete Some by (auto simp: php_delete_def intro!: method_postI [OF refl])
  qed (use M_delete assms(1) in \<open>auto simp: php_delete_def intro!: method_postI [OF refl]\<close>)
next
  case (M_stats args)
  then show ?thesis
    using assms(1) api_stats [OF assms(1)]
    by (cases args) (auto simp: php_stats_def case_prod_unfold Let_def intro!: method_postI [OF refl])
next
  case M_clear
  obtain c' where "shmcache_clear others c = Some (0, c')" "api_rep c' []" using assms(1) by (rule api_clear)
  then show ?thesis using M_clear by (auto simp: php_clear_def intro!: method_postI [OF refl])
qed

section \<open>Scripts\<close>

text \<open>
  A process in order: its contexts are distinct and well-formed, and an object with a context has one of them and a serializer that
  is enabled.
\<close>

definition process_ok :: "'o php_functions \<Rightarrow> php_process \<Rightarrow> bool" where
  "process_ok fs p \<longleftrightarrow> contexts_ok (pp_contexts p)
     \<and> (\<exists>handle. pp_serializers p = snd (shmcache_load_functions handle fs initial_serializers))
     \<and> (\<forall>c \<in> snd ` set (ca_contexts (pp_contexts p)). \<exists>ps. api_rep c ps)
     \<and> (\<forall>handle obj i. pp_objects p handle = Some obj \<longrightarrow> obj_context obj = Some i \<longrightarrow>
          i < length (ca_contexts (pp_contexts p)) \<and> shmcache_serializer_enabled (pp_serializers p) (obj_serializer obj))"

lemma process_okD:
  assumes "process_ok fs p" and "pp_objects p handle = Some obj" and "obj_context obj = Some i"
  obtains k ps where "i < length (ca_contexts (pp_contexts p))" "shmcache_serializer_enabled (pp_serializers p) (obj_serializer obj)"
    "pp_serializers p = snd (shmcache_load_functions k fs initial_serializers)" "api_rep (snd (ca_contexts (pp_contexts p) ! i)) ps"
  using assms unfolding process_ok_def by (metis image_eqI nth_mem)

lemma process_ok_update:
  assumes "process_ok fs p" and "i < length (ca_contexts (pp_contexts p))" and "api_rep c ps"
  shows "process_ok fs (p\<lparr>pp_contexts := update_context i c (pp_contexts p)\<rparr>)"
proof -
  let ?xs = "ca_contexts (pp_contexts p)"
  have "map fst (?xs[i := (fst (?xs ! i), c)]) = map fst ?xs" by (simp add: map_update) (metis assms(2) list_update_id nth_map)
  moreover have "set (?xs[i := (fst (?xs ! i), c)]) \<subseteq> insert (fst (?xs ! i), c) (set ?xs)" by (rule set_update_subset_insert)
  ultimately show ?thesis
    using assms(1,3) by (fastforce simp: process_ok_def update_context_def contexts_ok_def)
qed

lemma call_returns:
  assumes "process_ok fs p" and "pp_objects p handle = Some obj" and "obj_context obj = Some i"
  obtains out p' where "php_step h context_size fs c p (Act_call handle m) = Some (out, p')" "process_ok fs p'" "pp_objects p' = pp_objects p"
    "po_leaked out = []"
proof -
  obtain k ps where ok: "i < length (ca_contexts (pp_contexts p))" "shmcache_serializer_enabled (pp_serializers p) (obj_serializer obj)"
    "pp_serializers p = snd (shmcache_load_functions k fs initial_serializers)" "api_rep (snd (ca_contexts (pp_contexts p) ! i)) ps"
    using assms by (rule process_okD)
  have "method_post (call_method (host_others h) (pp_serializers p) fs (obj_serializer obj) (snd (ca_contexts (pp_contexts p) ! i)) m)"
    by (rule call_method_returns [OF ok(4,3,2)])
  then obtain out c' ps' where r: "call_method (host_others h) (pp_serializers p) fs (obj_serializer obj) (snd (ca_contexts (pp_contexts p) ! i)) m = Some (out, c')"
    "api_rep c' ps'" "po_leaked out = []" unfolding method_post_def by blast
  show thesis using that r assms(2,3) process_ok_update [OF assms(1) ok(1) r(2)] by simp
qed

text \<open>
  C27: the methods of an object that has a context never crash the process: no method runs into a null pointer, neither to the context nor to a
  function of a serializer, whatever arguments a script gives, whatever the cache holds and whichever extensions are loaded. A
  script of such calls runs to its end, keeps the process in order and leaves no buffer allocated.
\<close>

theorem php_calls_return:
  assumes "process_ok fs p"
    and "\<forall>a \<in> set script. \<exists>handle m obj i. a = Act_call handle m \<and> pp_objects p handle = Some obj \<and> obj_context obj = Some i"
  shows "\<exists>outs p'. php_run h context_size fs c p script = Some (outs, p') \<and> length outs = length script \<and> process_ok fs p'
    \<and> list_all (\<lambda>out. po_leaked out = []) outs"
  using assms
proof (induction script arbitrary: p)
  case (Cons a script)
  obtain handle m obj i where a: "a = Act_call handle m" "pp_objects p handle = Some obj" "obj_context obj = Some i"
    using Cons.prems(2) by auto
  obtain out p1 where 1: "php_step h context_size fs c p a = Some (out, p1)" "process_ok fs p1" "pp_objects p1 = pp_objects p" "po_leaked out = []"
    using call_returns [OF Cons.prems(1) a(2,3)] a(1) by metis
  obtain outs p' where "php_run h context_size fs c p1 script = Some (outs, p')" "length outs = length script" "process_ok fs p'"
    "list_all (\<lambda>out. po_leaked out = []) outs" using Cons.IH [OF 1(2)] Cons.prems(2) 1(3) by auto
  then show ?case using 1 by simp
qed simp

definition sample_php :: php_process where
  "sample_php = \<lparr>pp_objects = [1 \<mapsto> \<lparr>obj_context = Some 0, obj_serializer = SHMCACHE_SERIALIZER_PHP\<rparr>],
     pp_contexts = \<lparr>ca_contexts = [(''a.conf'', sample_one)], ca_alloc = 2\<rparr>,
     pp_serializers = snd (shmcache_load_functions (0, 0) sample_functions initial_serializers)\<rparr>"

lemma sample_php_ok: "process_ok sample_functions sample_php"
  using sample_api_rep(2) loaded_serializers(2) [of "(0, 0)" sample_functions]
  by (auto simp: process_ok_def sample_php_def contexts_ok_def split: if_splits)

theorem php_calls_return_witness:
  "\<exists>outs p'. php_run sample_host 500 sample_functions sample_process sample_php
      [Act_call 1 (M_set (Some (''k'', Z_Null, 0))), Act_call 1 (M_get None)] = Some (outs, p') \<and> length outs = 2"
  using php_calls_return [OF sample_php_ok, of "[Act_call 1 (M_set (Some (''k'', Z_Null, 0))), Act_call 1 (M_get None)]" sample_host 500 sample_process]
  by (auto simp: sample_php_def)





text \<open>
  A script can run the constructor of an object again. When that fails to open its file, the exception leaves the object with a null pointer,
  and the next method of the object crashes the process.
\<close>

lemma php_failed_constructor:
  assumes "pp_objects p a = Some x" and "shmcache_get_context h context_size c (pp_contexts p) file = Some (Inl msg, ctxs)"
    and "shmcache_serializer_enabled (pp_serializers p) (int32 (case opt of None \<Rightarrow> SHMCACHE_SERIALIZER_IGBINARY | Some s \<Rightarrow> s))"
  shows "\<exists>p'. php_step h context_size fs c p (Act_construct a (Some (file, opt))) = Some (THROW msg, p')
    \<and> php_step h context_size fs c p' (Act_call a m) = None"
  using assms by (simp add: php_construct_def)

text \<open>The version of the module entry is not the version that the function of the module reports.\<close>

lemma php_versions_differ: "zm_version shmcache_module_entry \<noteq> shmcache_version"
  by code_simp

end
