(* ===== verification/IniAnnotation.thy ===== *)
theory IniAnnotation
  imports ShmInit
begin

text \<open>
  \<^verbatim>\<open>src/src/shmcache_ini_annotation.c\<close>: the annotation \<^verbatim>\<open>CONFIG_GET\<close>, with which the ini reader of libfastcommon takes the
  value of an item from the cache. The JSON decoder is code of libfastcommon: the argument \<open>decode\<close> gives the elements
  of an array, or nothing when the text is not one, and \<open>json_init\<close> is the result of creating its context.
\<close>

section \<open>The value of an item\<close>

text \<open>A copy of a string on the heap; nothing when there is no memory.\<close>

definition heap_copy :: "shmcache_context \<Rightarrow> string \<Rightarrow> string option \<times> shmcache_context" where
  "heap_copy c s = (let (p, c) = sys (Sys_malloc (int (length s) + 1)) c in (if p = 0 then None else Some s, c))"

text \<open>Copying the elements of a list: the loop ends with the first copy that fails.\<close>

fun copy_elements :: "shmcache_context \<Rightarrow> string list \<Rightarrow> string option list \<times> shmcache_context" where
  "copy_elements c [] = ([], c)"
| "copy_elements c (el # els) =
     (case heap_copy c el of
        (None, c) \<Rightarrow> ([], c)
      | (Some s, c) \<Rightarrow> (let (out, c) = copy_elements c els in (Some s # out, c)))"

definition config_get ::
  "interference \<Rightarrow> (bytes \<Rightarrow> string list option) \<Rightarrow> shmcache_context \<Rightarrow> string \<Rightarrow> string \<Rightarrow> int
   \<Rightarrow> (string option list \<times> shmcache_context) option" where
  "config_get others decode c item_name item_value max_values = do {
     let key = (if item_value \<noteq> [] then item_value else item_name);
     (result, value, c) \<leftarrow> shmcache_get others c key;
     let options = (case value of None \<Rightarrow> SHMCACHE_SERIALIZER_STRING | Some v \<Rightarrow> vi_options v);
     let data = (if result \<noteq> 0 \<or> options AND SHMCACHE_SERIALIZER_STRING = 0 then []
                 else (case value of None \<Rightarrow> [] | Some v \<Rightarrow> vi_data v));
     Some (if options AND SHMCACHE_SERIALIZER_LIST = SHMCACHE_SERIALIZER_LIST then
             (case decode data of
                Some els \<Rightarrow> copy_elements c (if int (length els) > max_values then take (nat max_values) els else els)
              | None \<Rightarrow> (let (s, c) = heap_copy c [] in ([s], c)))
           else
             (let (s, c) = heap_copy c data in (case s of None \<Rightarrow> [] | Some _ \<Rightarrow> [s], c)))
   }"

section \<open>The annotation\<close>

record annotation_entry =
  ae_func_name :: string
  ae_arg :: "shmcache_context option"

definition annotation_destroy :: "annotation_entry \<Rightarrow> annotation_entry \<times> shmcache_context option" where
  "annotation_destroy annotation =
     (case ae_arg annotation of
        None \<Rightarrow> (annotation, None)
      | Some c \<Rightarrow> (annotation\<lparr>ae_arg := None\<rparr>, Some (shmcache_destroy c)))"

text \<open>The result, the filled annotation, and the state of the process. On a failure the argument is not set.\<close>

definition CONFIG_GET_init_annotation ::
  "interference \<Rightarrow> shm_image \<Rightarrow> ini_context \<Rightarrow> shmcache_config \<Rightarrow> int \<Rightarrow> int \<Rightarrow> shmcache_context \<Rightarrow> string
   \<Rightarrow> (int \<times> annotation_entry \<times> shmcache_context) option" where
  "CONFIG_GET_init_annotation others img ini config args_size json_init c config_filename = do {
     let annotation = \<lparr>ae_func_name = ''CONFIG_GET'', ae_arg = None\<rparr>;
     let (args, c) = sys (Sys_malloc args_size) c;
     if args = 0 then Some (ENOMEM, annotation, c)
     else do {
       (result, c) \<leftarrow> shmcache_init_from_file_ex others img ini config c config_filename False True;
       if result \<noteq> 0 then Some (result, annotation, c)
       else if json_init \<noteq> 0 then Some (json_init, annotation, c)
       else Some (0, annotation\<lparr>ae_arg := Some c\<rparr>, c)
     }
   }"

end
