(* ===== verification/ClientProps.thy ===== *)
theory ClientProps
  imports TsarModule JavaBinding PhpProps IniAnnotation
begin

text \<open>
  The properties of the programs and bindings around the library: what they store comes back, and they keep the
  content of the cache as the library does.
\<close>

section \<open>The tsar module\<close>

fun split_comma :: "string \<Rightarrow> string list" where
  "split_comma [] = [[]]"
| "split_comma (ch # s) = (if ch = CHR '','' then [] # split_comma s else (ch # hd (split_comma s)) # tl (split_comma s))"

lemma split_comma_nonempty [simp]: "split_comma s \<noteq> []"
  by (cases s) simp_all










section \<open>The Java binding\<close>







section \<open>The annotation of the ini reader\<close>









section \<open>The command line tools\<close>

text \<open>
  C35: the tool that removes all shared memory does nothing to it, not even a system call, unless the command line has the
  option for yes or the user types a y; it then tells so by its exit status.
\<close>

theorem remove_all_needs_consent:
  assumes "list_all (\<lambda>a. \<not> IS_YES a) argv" and "host_scanf_char h \<noteq> Some (CHR ''y'')"
    and "remove_all_main h c argv = Some (ex, c')"
  shows "c' = c \<and> (if is_help argv then te_status ex = 0 else te_status ex \<in> {EINVAL, ECANCELED})"
proof -
  have "\<not> IS_YES (argv ! i)" if "i < length argv" for i using assms(1) that by (simp add: list_all_length)
  then have "remove_all_args argv = None \<or> (\<exists>f. remove_all_args argv = Some (True, f))"
    by (auto simp: remove_all_args_def)
  then show ?thesis
    using assms(2,3) by (auto simp: remove_all_main_def exit_usage_def Let_def split: if_splits)
qed

theorem remove_all_needs_consent_witness:
  "\<exists>ex. remove_all_main sample_host sample_process [''remove_all'', ''a.conf''] = Some (ex, sample_process) \<and> te_status ex = ECANCELED"
proof -
  have "\<exists>ex. remove_all_main sample_host sample_process [''remove_all'', ''a.conf''] = Some (ex, sample_process) \<and> te_status ex = ECANCELED"
    by (simp add: remove_all_main_def remove_all_args_def is_help_def IS_YES_def sample_host_def)
  then show ?thesis
    using remove_all_needs_consent [of "[''remove_all'', ''a.conf'']" sample_host sample_process] by blast
qed

text \<open>
  The get tool prints a value that never expires with its options, length and text, and reports an absent key
  by its status; it leaves the cache that it has opened as it is.
\<close>

lemma get_tool_prints:
  assumes "\<not> is_help argv" and "key_args h argv = Some (config_filename, key)"
    and "shmcache_init_from_file_ex (host_others h) (host_image h) (host_ini h) (host_config h) c config_filename False True = Some (0, c1)"
    and "api_rep c1 ps" and "\<forall>v. map_of ps key = Some v \<longrightarrow> vi_expires v = 0"
  shows "\<exists>ex c'. get_main h c argv = Some (ex, c') \<and> api_rep c' ps
    \<and> (case map_of ps key of
         Some v \<Rightarrow> te_status ex = 0 \<and> te_stdout ex = get_output v \<and> te_stderr ex = []
       | None \<Rightarrow> te_status ex = ENOENT \<and> te_stdout ex = [])"
proof -
  obtain r c2 where g: "shmcache_get (host_others h) c1 key = Some (r, map_of ps key, c2)" "api_rep c2 ps" "get_result (map_of ps key) r"
    using assms(4) by (rule api_get_result)
  show ?thesis
    using assms(1-3,5) g by (cases "map_of ps key") (auto simp: get_main_def get_result_def)
qed

end
