(* ===== verification/Spec2Isabelle.thy ===== *)
theory Spec2Isabelle
  imports DumpCorrect ClientProps
begin

text \<open>
  A verification of libshmcache, a cache in shared memory that the processes of one machine use together. It is
  a local cache for PHP, Java and C programs: keys of at most 64 bytes, values with an expiry time, stored in
  System V segments or mapped files, with a process shared mutex around the writes.

  \<^bold>\<open>The program and its model.\<close> The parts of the program, in the order in which they build on each other, with the
  theories that hold their definitions. The paths are relative to the repository \<^verbatim>\<open>src/\<close>.

  \<^item> \<^verbatim>\<open>src/shm_object_pool.[ch]\<close>: a ring queue of offsets with a cursor. Theory \<open>ObjectPool\<close>, record \<open>object_pool\<close>. The queue
    is refined to a list.
  \<^item> \<^verbatim>\<open>src/shm_striping_allocator.[ch]\<close>: bump allocation inside a striping, a part of a segment. Theory
    \<open>StripingAllocator\<close>.
  \<^item> \<^verbatim>\<open>src/shmcache_types.h\<close>: the structures. Theory \<open>ShmTypes\<close>. What a process reaches is the record \<open>shmcache_context\<close>: its
    own fields, the shared header, the two queues of allocators, the allocators and the entries of the value
    segments, addressed by segment index and offset.
  \<^item> \<^verbatim>\<open>src/shm_op_wrapper.c\<close>, \<^verbatim>\<open>src/shmopt.[ch]\<close>: creating, opening and removing segments. Theory \<open>ShmOpt\<close>. System calls are
    requests to the environment of theory \<open>Environment\<close>, whose answers may depend on all earlier requests.
  \<^item> \<^verbatim>\<open>src/shm_value_allocator.h\<close>, \<^verbatim>\<open>src/shm_list.h\<close>: the packed 64 bit offsets of entries and the circular list of all
    entries. Theories \<open>EntryPtr\<close> and \<open>ShmList\<close>; the list is refined to a sequence of addresses.
  \<^item> \<^verbatim>\<open>src/shm_value_allocator.c\<close>: allocation over the queues of doing and done allocators (theory \<open>ValueAllocator\<close>), recycling
    and rearranging (theory \<open>CacheSet\<close>).
  \<^item> \<^verbatim>\<open>src/shm_hashtable.[ch]\<close>: the hash table with chains in shared memory. Theory \<open>HashTable\<close>; \<^verbatim>\<open>shm_ht_set\<close> is in theory
    \<open>CacheSet\<close>, since a set may rearrange the memory, which sets every entry again.
  \<^item> \<^verbatim>\<open>src/shm_lock.c\<close>: the mutex with the pid of its holder and the recovery from a dead holder. Theory \<open>ShmLock\<close> has the
    functions, theory \<open>LockProtocol\<close> the same code cut into atomic steps of interleaved processes that may die.
  \<^item> \<^verbatim>\<open>src/shmcache.[ch]\<close>: the public operations (theory \<open>ShmCache\<close>), the layout of the hash table segment, the
    initialisation, the configuration and the release (theory \<open>ShmInit\<close>).
  \<^item> \<^verbatim>\<open>src/tools\<close>: theories \<open>Tools\<close>, \<open>StatsTool\<close> and \<open>DumpTool\<close>; a tool is a function of its arguments to its status and
    output.
  \<^item> \<^verbatim>\<open>src/shmcache_ini_annotation.c\<close>: theory \<open>IniAnnotation\<close>. \<^verbatim>\<open>tsar-shmcache-module\<close>: theory \<open>TsarModule\<close>, whose counters are 64
    bit words. \<^verbatim>\<open>php-shmcache\<close>: theories \<open>PhpSerializer\<close> (packing values, with the buffers to free), \<open>PhpExtension\<close> (the methods and the
    contexts) and \<open>PhpModule\<close> (the start of the module, the class, and scripts that create, use and drop objects). \<^verbatim>\<open>java/jni\<close>:
    theory \<open>JavaBinding\<close>.

  \<^bold>\<open>Conventions.\<close> A result \<^const>\<open>None\<close> is a run without a defined result: an access through a bad pointer, a buffer overflow or a
  loop that never ends. Everything else, error numbers included, is a value. Conversions to narrower C integers are written
  out (\<open>int16\<close>, \<open>int32\<close>, \<open>int64\<close>). The argument \<open>others\<close> of the locking functions is what the other processes do to the
  memory while this one waits. Doubles are exact fractions.

  \<^bold>\<open>What is shown.\<close>

  \<^item> \<open>CacheInv\<close> states the invariant of a cache: the list is a well-formed circle, the chains of the buckets hold each linked entry
    once under its hash, the counters agree, every linked entry lies in a block of its striping, and blocks do not
    overlap. \<open>full_inv\<close> adds the bounds of the segments. \<open>entry_pairs\<close> and \<open>cache_map\<close> are the represented content.
  \<^item> \<open>AllocatorCorrect\<close>, \<open>HashTableCorrect\<close>, \<open>HashTableClear\<close>, \<open>SetCorrect\<close>, \<open>RecycleCorrect\<close>, \<open>SegmentCorrect\<close>, \<open>StoreCorrect\<close> and
    \<open>SetTotal\<close> show for each operation that it returns, keeps the invariant and does to the content what it should;
    \<open>TableProps\<close> collects the properties.
  \<^item> \<open>CacheStore\<close> states the contract towards the users as the locale \<open>lossy_store\<close>: entries may get lost, but a read never
    returns a wrong or outdated value, over every sequence of operations. It is interpreted for the hash table, and in \<open>ApiCorrect\<close>
    for the public operations with their locking.
  \<^item> \<open>Contention\<close>: the public operations among other processes. The locale \<open>contention\<close> states what is relied on while a process waits
    for the mutex: the others change the cache by events of the lossy store. It shows that the lock is taken after a bounded
    number of tries and that all events form one sound history; it is interpreted for others that run any schedule of table
    operations and leave any pid in the lock, so that the deadlock detection may clear the table as well.
  \<^item> \<open>InitCorrect\<close> and \<open>AttachCorrect\<close>: the first process leaves an empty cache with the invariant, a further one sees the content.
    \<open>ConfigCorrect\<close>, \<open>DestroyCorrect\<close>, \<open>IncrCorrect\<close>: the bounds of an accepted configuration, the release of the mappings, and
    the counters stored as decimal strings. \<open>ApiProps\<close> collects the properties.
  \<^item> \<open>LockProtocol\<close>: mutual exclusion and recovery by rule induction over the steps, and the gap in which a dying process leaves
    the mutex locked for ever.
  \<^item> \<open>PhpProps\<close>: the contexts of a process stay in order, objects of one configuration file share a cache, and no method of an object
    with a context runs into a null pointer or leaves a buffer allocated.
  \<^item> \<open>DumpCorrect\<close> and \<open>ClientProps\<close>: the search patterns of the dump tool are SQL patterns, values that Java stores come
    back, the annotation and the monitoring module compute what they should, and the removal tool asks first.
  \<^item> \<open>Sample\<close> has the concrete caches on which the hypotheses of the properties are shown to hold.

  \<^bold>\<open>Recursion and bounds.\<close> The loops over chains and lists are partial functions; that they end on a well-formed cache is part
  of the theorems. \<^verbatim>\<open>shm_ht_set\<close> calls itself through the rearrangement; the model bounds the depth by the number of entries plus
  two, and \<open>ht_set_total\<close> shows that the bound is never reached, because every nested set works on a table with fewer
  entries. The loop of the initialisation over the minimal memory is bounded by the maximal number of segments, since each
  round adds a segment or ends the loop.

  \<^bold>\<open>Hypotheses.\<close> \<open>maps_ok\<close>: \<^verbatim>\<open>mmap\<close> succeeds (its failure is a finding); \<open>align_ok\<close>: the alignment macro of libfastcommon
  rounds up; \<open>primes_ok\<close>: its table of primes has positive numbers; \<open>pages_ok\<close>: the page size is a power of two; \<open>trylock_ok\<close>: the
  mutex is free; \<open>fair_mutex\<close>: the mutex is free or busy, and busy at most a given number of times in a row; \<open>holder_gone\<close>: the mutex is locked and its holder is dead; \<open>config_ok\<close>: at most 32 GB of memory, since above that
  the striping index overflows (a finding).

  \<^bold>\<open>Not modelled.\<close> Logging; the freeing of heap memory, except for the buffers of the serializers (so \<^verbatim>\<open>shm_ht_free_array\<close> has no
  definition); the declarations and comments of the headers, among them the generated JNI header; code under \<^verbatim>\<open>#if 0\<close>; the test
  programs; the Java classes, which are not C code. libfastcommon, the serializers, the JSON decoder, the Zend engine, tsar and the
  virtual machines are arguments of the definitions. Accesses of a reader that does not take the lock are not interleaved with those of a
  writer, and what another process does between two calls of the waiting one is taken as whole critical sections.
\<close>

end
